(* ===== verification/Rust_Prelude.thy ===== *)
theory Rust_Prelude
  imports Main "HOL-Library.Word" "HOL-Library.Multiset"
begin

text \<open>
  The parts of Rust that every component of the crate uses: the machine integers, the build
  profile (whether integer overflow is checked), panics as values, the integer operations with
  their overflow behaviour written out, and \<open>Vec\<close> with its capacity.

  \<^item> \<open>u8\<close>, \<open>u16\<close>, \<open>u32\<close>, \<open>u64\<close> are words of that width. \<open>usize\<close> is a natural number
    whose operations write out the 64-bit wrap-around (\<open>usize_add\<close>, \<open>usize_sub\<close>,
    \<open>usize_mul\<close>), so that lengths of lists and counters need no conversion.
  \<^item> \<open>Debug\<close> is a build with overflow checks (an overflow panics), \<open>Release\<close> one without
    (it wraps).
  \<^item> \<open>'a outcome\<close> is the outcome of a Rust computation: \<open>Ret\<close> a value or \<open>Panic\<close>.
    \<open>('a, 'e) result\<close> is \<open>Result\<close>.
  \<^item> \<open>'a vec\<close> is \<open>Vec\<close>: its items and its capacity.
\<close>

named_theorems rust_simps \<open>evaluation of the Rust operations\<close>

section \<open>Machine integers, profiles and panics\<close>

type_synonym u8 = "8 word"
type_synonym u16 = "16 word"
type_synonym u32 = "32 word"
type_synonym u64 = "64 word"
type_synonym usize = nat
type_synonym c_int = int

datatype profile = Debug | Release

datatype panic = Overflow | UnwrapFailed | ExplicitPanic | Todo | OutOfRange | DivideByZero

datatype 'a outcome = Ret 'a | Panic panic

datatype ('a, 'e) result = Ok 'a | Err 'e

primrec bnd :: "'a outcome \<Rightarrow> ('a \<Rightarrow> 'b outcome) \<Rightarrow> 'b outcome" where
  "bnd (Ret x) f = f x"
| "bnd (Panic p) f = Panic p"

lemma bnd_Ret_iff: "bnd m f = Ret y \<longleftrightarrow> (\<exists>x. m = Ret x \<and> f x = Ret y)"
  by (cases m) auto

lemma bnd_RetE:
  assumes "bnd m f = Ret y"
  obtains x where "m = Ret x" and "f x = Ret y"
  using assms by (auto simp: bnd_Ret_iff)

lemma case_result_Ret_iff:
  "(case r of Ok n \<Rightarrow> f n | Err e \<Rightarrow> g e) = Ret x \<longleftrightarrow>
   (\<exists>n. r = Ok n \<and> f n = Ret x) \<or> (\<exists>e. r = Err e \<and> g e = Ret x)"
  by (cases r) auto

lemma bnd_assoc: "bnd (bnd m f) g = bnd m (\<lambda>x. bnd (f x) g)"
  by (cases m) auto

lemma bnd_Ret_right [simp]: "bnd m Ret = m"
  by (cases m) auto

lemma bnd_cong [fundef_cong]:
  "m = m' \<Longrightarrow> (\<And>x. m' = Ret x \<Longrightarrow> f x = g x) \<Longrightarrow> bnd m f = bnd m' g"
  by (cases m') auto

section \<open>Integer operations with their overflow behaviour\<close>

definition usize_add :: "profile \<Rightarrow> usize \<Rightarrow> usize \<Rightarrow> usize outcome" where
  "usize_add prof a b =
     (if a + b < 2 ^ 64 then Ret (a + b)
      else case prof of Debug \<Rightarrow> Panic Overflow | Release \<Rightarrow> Ret ((a + b) mod 2 ^ 64))"

definition usize_sub :: "profile \<Rightarrow> usize \<Rightarrow> usize \<Rightarrow> usize outcome" where
  "usize_sub prof a b =
     (if b \<le> a then Ret (a - b)
      else case prof of Debug \<Rightarrow> Panic Overflow | Release \<Rightarrow> Ret (a + 2 ^ 64 - b))"

definition usize_mul :: "profile \<Rightarrow> usize \<Rightarrow> usize \<Rightarrow> usize outcome" where
  "usize_mul prof a b =
     (if a * b < 2 ^ 64 then Ret (a * b)
      else case prof of Debug \<Rightarrow> Panic Overflow | Release \<Rightarrow> Ret ((a * b) mod 2 ^ 64))"

text \<open>\<open>i += 1\<close> on a \<open>u32\<close>, and \<open>a + b\<close> on \<open>u64\<close>.\<close>

definition u32_inc :: "profile \<Rightarrow> u32 \<Rightarrow> u32 outcome" where
  "u32_inc prof i =
     (if unat i + 1 < 2 ^ 32 then Ret (i + 1)
      else case prof of Debug \<Rightarrow> Panic Overflow | Release \<Rightarrow> Ret (i + 1))"

definition u64_add :: "profile \<Rightarrow> u64 \<Rightarrow> u64 \<Rightarrow> u64 outcome" where
  "u64_add prof a b =
     (if unat a + unat b < 2 ^ 64 then Ret (a + b)
      else case prof of Debug \<Rightarrow> Panic Overflow | Release \<Rightarrow> Ret (a + b))"

text \<open>\<open>u16::try_from(x).unwrap()\<close>.\<close>

definition u16_try_from :: "nat \<Rightarrow> u16 outcome" where
  "u16_try_from n = (if n < 2 ^ 16 then Ret (of_nat n) else Panic UnwrapFailed)"

lemma usize_add_ok [rust_simps]: "a + b < 2 ^ 64 \<Longrightarrow> usize_add prof a b = Ret (a + b)"
  by (simp add: usize_add_def)

lemma usize_sub_ok [rust_simps]: "b \<le> a \<Longrightarrow> usize_sub prof a b = Ret (a - b)"
  by (simp add: usize_sub_def)

lemma usize_mul_ok [rust_simps]: "a * b < 2 ^ 64 \<Longrightarrow> usize_mul prof a b = Ret (a * b)"
  by (simp add: usize_mul_def)

lemma usize_add_Release: "usize_add Release a b = Ret ((a + b) mod 2 ^ 64)"
  by (simp add: usize_add_def)

lemma usize_sub_Release:
  "usize_sub Release a b = Ret (if b \<le> a then a - b else a + 2 ^ 64 - b)"
  by (simp add: usize_sub_def)

lemma usize_sub_wraps [rust_simps]:
  "a < b \<Longrightarrow> usize_sub Release a b = Ret (a + 2 ^ 64 - b)"
  by (simp add: usize_sub_def)

lemma usize_sub_panics [rust_simps]: "a < b \<Longrightarrow> usize_sub Debug a b = Panic Overflow"
  by (simp add: usize_sub_def)

lemma u32_inc_Release [rust_simps]: "u32_inc Release i = Ret (i + 1)"
  by (simp add: u32_inc_def)

lemma u32_inc_ok [rust_simps]: "unat i + 1 < 2 ^ 32 \<Longrightarrow> u32_inc prof i = Ret (i + 1)"
  by (simp add: u32_inc_def)

lemma u32_inc_Ret: "u32_inc prof i = Ret j \<Longrightarrow> j = i + 1"
  by (auto simp: u32_inc_def split: if_splits profile.splits)

lemma u64_add_ok [rust_simps]: "unat a + unat b < 2 ^ 64 \<Longrightarrow> u64_add prof a b = Ret (a + b)"
  by (simp add: u64_add_def)

lemma u16_try_from_ok [rust_simps]: "n < 2 ^ 16 \<Longrightarrow> u16_try_from n = Ret (of_nat n)"
  by (simp add: u16_try_from_def)

text \<open>
  \<open>extends m m'\<close>: where \<open>m\<close> returns, \<open>m'\<close> returns the same. A build without overflow checks
  extends one with them in this sense; the rules of \<open>extends_intros\<close> carry it through a program.
\<close>

named_theorems extends_intros \<open>rules for \<open>extends\<close>\<close>

definition extends :: "'a outcome \<Rightarrow> 'a outcome \<Rightarrow> bool" where
  "extends m m' \<longleftrightarrow> (\<forall>x. m = Ret x \<longrightarrow> m' = Ret x)"

lemma extendsD: "extends m m' \<Longrightarrow> m = Ret x \<Longrightarrow> m' = Ret x"
  by (simp add: extends_def)

lemma extends_refl [extends_intros, simp]: "extends m m"
  by (simp add: extends_def)

lemma extends_Panic [extends_intros, simp]: "extends (Panic p) m"
  by (simp add: extends_def)

lemma extends_bnd [extends_intros]:
  "extends m m' \<Longrightarrow> (\<And>x. extends (f x) (g x)) \<Longrightarrow> extends (bnd m f) (bnd m' g)"
  by (cases m) (auto simp: extends_def)

lemma extends_if [extends_intros]:
  "extends m m' \<Longrightarrow> extends n n' \<Longrightarrow> extends (if c then m else n) (if c then m' else n')"
  by simp

lemma extends_case_prod [extends_intros]:
  "(\<And>x y. extends (f x y) (g x y)) \<Longrightarrow> extends (case p of (x, y) \<Rightarrow> f x y) (case p of (x, y) \<Rightarrow> g x y)"
  by (simp split: prod.split)

lemma extends_case_option [extends_intros]:
  "extends m m' \<Longrightarrow> (\<And>x. extends (f x) (g x)) \<Longrightarrow>
   extends (case v of None \<Rightarrow> m | Some x \<Rightarrow> f x) (case v of None \<Rightarrow> m' | Some x \<Rightarrow> g x)"
  by (simp split: option.split)

lemma extends_usize [extends_intros]:
  "extends (usize_add prof a b) (usize_add Release a b)"
  "extends (usize_sub prof a b) (usize_sub Release a b)"
  "extends (usize_mul prof a b) (usize_mul Release a b)"
  by (cases prof; simp add: extends_def usize_add_def usize_sub_def usize_mul_def)+

lemma extends_u32_inc [extends_intros]: "extends (u32_inc prof i) (u32_inc Release i)"
  by (cases prof) (simp_all add: extends_def u32_inc_def)

text \<open>Conversions between the counts of the code and the words it passes to C.\<close>

lemma unat_of_nat_u64 [rust_simps]: "n < 2 ^ 64 \<Longrightarrow> unat (of_nat n :: u64) = n"
  by (simp add: unat_of_nat take_bit_eq_mod)

lemma unat_of_nat_u32 [rust_simps]: "n < 2 ^ 32 \<Longrightarrow> unat (of_nat n :: u32) = n"
  by (simp add: unat_of_nat take_bit_eq_mod)

lemma unat_of_nat_u16 [rust_simps]: "n < 2 ^ 16 \<Longrightarrow> unat (of_nat n :: u16) = n"
  by (simp add: unat_of_nat take_bit_eq_mod)

lemma unat_u64_lt: "unat (x :: u64) < 2 ^ 64"
  using unsigned_less [where 'a = nat, of x] by simp

lemma unat_u32_lt: "unat (x :: u32) < 2 ^ 32"
  using unsigned_less [where 'a = nat, of x] by simp

lemma of_nat_u64_unat_add:
  "unat (a :: u64) + n < 2 ^ 64 \<Longrightarrow> unat (a + of_nat n) = unat a + n"
  by (simp add: unat_word_ariths unat_of_nat take_bit_eq_mod)

lemma of_nat_u32_unat_add:
  "unat (a :: u32) + n < 2 ^ 32 \<Longrightarrow> unat (a + of_nat n) = unat a + n"
  by (simp add: unat_word_ariths unat_of_nat take_bit_eq_mod)

lemma of_nat_Suc_add: "(i :: 'a::len word) + of_nat (Suc k) = (i + 1) + of_nat k"
  by (simp add: algebra_simps)

section \<open>Vec\<close>

record 'a vec =
  items :: "'a list"
  capacity :: usize

definition vec_wf :: "'a vec \<Rightarrow> bool" where
  "vec_wf v \<longleftrightarrow> length (items v) \<le> capacity v"

definition vec_with_capacity :: "usize \<Rightarrow> 'a vec" where
  "vec_with_capacity n = \<lparr>items = [], capacity = n\<rparr>"

text \<open>
  Growth is std's amortised policy for elements of at most 1024 bytes. No property depends on
  the amount, only on the capacity staying at least the length.
\<close>

definition vec_reserve :: "usize \<Rightarrow> 'a vec \<Rightarrow> 'a vec" where
  "vec_reserve additional v =
     (let need = length (items v) + additional in
      if need \<le> capacity v then v
      else v\<lparr>capacity := max 4 (max (2 * capacity v) need)\<rparr>)"

definition vec_push :: "'a vec \<Rightarrow> 'a \<Rightarrow> 'a vec" where
  "vec_push v x = (vec_reserve 1 v)\<lparr>items := items v @ [x]\<rparr>"

definition vec_extend :: "'a vec \<Rightarrow> 'a list \<Rightarrow> 'a vec" where
  "vec_extend v xs = (vec_reserve (length xs) v)\<lparr>items := items v @ xs\<rparr>"

text \<open>\<open>drain(start..)\<close>: the removed tail and the rest.\<close>

definition vec_drain_from :: "usize \<Rightarrow> 'a vec \<Rightarrow> ('a list \<times> 'a vec) outcome" where
  "vec_drain_from start v =
     (if start \<le> length (items v)
      then Ret (drop start (items v), v\<lparr>items := take start (items v)\<rparr>)
      else Panic OutOfRange)"

definition vec_pop :: "'a vec \<Rightarrow> 'a option \<times> 'a vec" where
  "vec_pop v =
     (if items v = [] then (None, v)
      else (Some (last (items v)), v\<lparr>items := butlast (items v)\<rparr>))"

lemma items_vec_with_capacity [simp]: "items (vec_with_capacity n) = []"
  by (simp add: vec_with_capacity_def)

lemma capacity_vec_with_capacity [simp]: "capacity (vec_with_capacity n) = n"
  by (simp add: vec_with_capacity_def)

lemma items_vec_reserve [simp]: "items (vec_reserve k v) = items v"
  by (simp add: vec_reserve_def Let_def)

lemma items_vec_push [simp]: "items (vec_push v x) = items v @ [x]"
  by (simp add: vec_push_def)

lemma items_vec_extend [simp]: "items (vec_extend v xs) = items v @ xs"
  by (simp add: vec_extend_def)

lemma capacity_vec_push:
  "length (items v) < capacity v \<Longrightarrow> capacity (vec_push v x) = capacity v"
  by (simp add: vec_push_def vec_reserve_def)

lemma capacity_vec_extend:
  "length (items v) + length xs \<le> capacity v \<Longrightarrow> capacity (vec_extend v xs) = capacity v"
  by (simp add: vec_extend_def vec_reserve_def)

lemma vec_wf_with_capacity [simp, intro]: "vec_wf (vec_with_capacity n)"
  by (simp add: vec_wf_def)

lemma vec_wf_push [simp, intro]: "vec_wf v \<Longrightarrow> vec_wf (vec_push v x)"
  by (auto simp: vec_wf_def vec_push_def vec_reserve_def Let_def)

lemma vec_wf_extend [simp, intro]: "vec_wf v \<Longrightarrow> vec_wf (vec_extend v xs)"
  by (auto simp: vec_wf_def vec_extend_def vec_reserve_def Let_def)

lemma vec_push_as_extend: "vec_push v x = vec_extend v [x]"
  by (simp add: vec_push_def vec_extend_def)

lemma vec_extend_Nil [simp]: "vec_wf v \<Longrightarrow> vec_extend v [] = v"
  by (simp add: vec_extend_def vec_reserve_def vec_wf_def)

lemma vec_extend_within:
  "length (items v) + length xs \<le> capacity v \<Longrightarrow>
   vec_extend v xs = v\<lparr>items := items v @ xs\<rparr>"
  by (simp add: vec_extend_def vec_reserve_def)

lemma vec_push_within:
  "length (items v) < capacity v \<Longrightarrow> vec_push v x = v\<lparr>items := items v @ [x]\<rparr>"
  by (simp add: vec_push_def vec_reserve_def)

section \<open>Lists\<close>

lemma map_upt_Suc_shift: "map f [0..<Suc n] = f 0 # map (\<lambda>i. f (Suc i)) [0..<n]"
  by (simp add: upt_conv_Cons map_Suc_upt [symmetric] del: upt_Suc)

lemma nth_list_update_if: "xs[i := x] ! j = (if i = j \<and> i < length xs then x else xs ! j)"
  by (cases "i < length xs") (auto simp: nth_list_update list_update_beyond)

lemma mset_take_drop: "mset (take n xs) + mset (drop n xs) = mset xs"
  by (metis append_take_drop_id mset_append)

lemma mset_move_tail [simp]:
  "mset (take n xs) + (M + mset (drop n xs)) = M + mset xs"
  "M + mset (drop n xs) + mset (take n xs) = M + mset xs"
  "mset (drop n xs) + mset (take n xs) = mset xs"
  by (simp_all add: mset_take_drop [of n xs, symmetric] add_ac)

lemma rev_take_last:
  "xs \<noteq> [] \<Longrightarrow> k < length xs \<Longrightarrow>
   last xs # rev (drop (length xs - Suc k) (butlast xs)) = rev (drop (length xs - Suc k) xs)"
  by (cases xs rule: rev_cases) auto

end
