(* ===== verification/Buffers.thy ===== *)
theory Buffers
  imports Rust_Prelude
begin

text \<open>
  Packet buffers: the \<open>Buf\<close> trait (\<open>src/buf.rs\<close>) as the locale \<open>buf\<close>, and its two
  implementations \<open>BufMmap\<close> (\<open>src/buf_mmap.rs\<close>) and \<open>BufVec\<close> (\<open>src/buf_vec.rs\<close>).

  A \<open>BufMmap\<close> holds a \<open>&mut [u8]\<close> into the mapped area: the record \<open>slice\<close> keeps its
  pointer and length, and the bytes live in an explicit \<open>memory\<close>, because several buffers
  share one mapping and the interesting claims are about their not overlapping. A \<open>BufVec\<close>
  owns its bytes. The user type \<open>T\<close> of the code is the type variable \<open>'u\<close>.
\<close>

section \<open>Slices of the mapped memory\<close>

type_synonym memory = "u64 \<Rightarrow> u8"

record slice =
  sl_ptr :: u64
  sl_len :: usize

definition slice_read :: "memory \<Rightarrow> slice \<Rightarrow> u8 list" where
  "slice_read m s = map (\<lambda>i. m (sl_ptr s + of_nat i)) [0..<sl_len s]"

text \<open>\<open>&data[a..b]\<close> and \<open>data[a..b].copy_from_slice(bytes)\<close>, with their bounds check.\<close>

definition slice_range :: "memory \<Rightarrow> slice \<Rightarrow> usize \<Rightarrow> usize \<Rightarrow> u8 list outcome" where
  "slice_range m s a b =
     (if a \<le> b \<and> b \<le> sl_len s then Ret (map (\<lambda>i. m (sl_ptr s + of_nat i)) [a..<b])
      else Panic OutOfRange)"

primrec mem_write :: "memory \<Rightarrow> u64 \<Rightarrow> u8 list \<Rightarrow> memory" where
  "mem_write m p [] = m"
| "mem_write m p (x # xs) = mem_write (m(p := x)) (p + 1) xs"

definition slice_store :: "memory \<Rightarrow> slice \<Rightarrow> usize \<Rightarrow> u8 list \<Rightarrow> memory outcome" where
  "slice_store m s a bs =
     (if a + length bs \<le> sl_len s then Ret (mem_write m (sl_ptr s + of_nat a) bs)
      else Panic OutOfRange)"

text \<open>
  The addresses a slice covers. A slice is \<open>mapped\<close> when it does not wrap round the address
  space, as every slice inside a mapping does.
\<close>

definition slice_addrs :: "slice \<Rightarrow> nat set" where
  "slice_addrs s = {unat (sl_ptr s)..<unat (sl_ptr s) + sl_len s}"

definition slice_mapped :: "slice \<Rightarrow> bool" where
  "slice_mapped s \<longleftrightarrow> unat (sl_ptr s) + sl_len s \<le> 2 ^ 64"

lemma length_slice_read [simp]: "length (slice_read m s) = sl_len s"
  by (simp add: slice_read_def)

lemma slice_addr_unat:
  "slice_mapped s \<Longrightarrow> i < sl_len s \<Longrightarrow> unat (sl_ptr s + of_nat i) = unat (sl_ptr s) + i"
  by (rule of_nat_u64_unat_add) (simp add: slice_mapped_def)

lemma mem_write_other:
  "unat p + length bs \<le> 2 ^ 64 \<Longrightarrow> unat q < unat p \<or> unat p + length bs \<le> unat q \<Longrightarrow>
   mem_write m p bs q = m q"
proof (induction bs arbitrary: m p)
  case (Cons b bs)
  have "p \<noteq> q" using Cons.prems by auto
  show ?case
  proof (cases bs)
    case Nil
    with \<open>p \<noteq> q\<close> show ?thesis by simp
  next
    case (Cons c cs)
    then have "unat (p + 1) = unat p + 1"
      using of_nat_u64_unat_add [of p 1] Cons.prems(1) by simp
    then have "mem_write (m(p := b)) (p + 1) bs q = (m(p := b)) q"
      using Cons.prems by (intro Cons.IH) auto
    with \<open>p \<noteq> q\<close> show ?thesis by simp
  qed
qed simp

lemma mem_write_at:
  "unat p + length bs \<le> 2 ^ 64 \<Longrightarrow> i < length bs \<Longrightarrow> mem_write m p bs (p + of_nat i) = bs ! i"
proof (induction bs arbitrary: m p i)
  case (Cons b bs)
  show ?case
  proof (cases i)
    case 0
    show ?thesis
    proof (cases bs)
      case (Cons c cs)
      then have "unat (p + 1) = unat p + 1"
        using of_nat_u64_unat_add [of p 1] Cons.prems(1) by simp
      with 0 Cons.prems(1) show ?thesis by (simp add: mem_write_other)
    qed (simp add: 0)
  next
    case (Suc k)
    with Cons.prems have "unat (p + 1) = unat p + 1"
      using of_nat_u64_unat_add [of p 1] by simp
    then have "mem_write (m(p := b)) (p + 1) bs ((p + 1) + of_nat k) = bs ! k"
      using Cons.prems Suc by (intro Cons.IH) auto
    with Suc show ?thesis by (simp add: algebra_simps)
  qed
qed simp

text \<open>Writing into one slice leaves a disjoint slice as it was.\<close>

lemma slice_store_disjoint:
  assumes st: "slice_store m s a bs = Ret m'"
    and m1: "slice_mapped s" and m2: "slice_mapped t"
    and disj: "slice_addrs s \<inter> slice_addrs t = {}"
  shows "slice_read m' t = slice_read m t"
proof -
  from st have len: "a + length bs \<le> sl_len s"
    and m': "m' = mem_write m (sl_ptr s + of_nat a) bs"
    by (auto simp: slice_store_def split: if_splits)
  have "m' (sl_ptr t + of_nat i) = m (sl_ptr t + of_nat i)" if i: "i < sl_len t" for i
  proof (cases "bs = []")
    case False
    have p: "unat (sl_ptr s + of_nat a) = unat (sl_ptr s) + a"
      using False len by (intro slice_addr_unat [OF m1]) (cases bs, auto)
    have q: "unat (sl_ptr t + of_nat i) = unat (sl_ptr t) + i" by (rule slice_addr_unat [OF m2 i])
    have "unat (sl_ptr t) + i \<in> slice_addrs t" using i by (simp add: slice_addrs_def)
    with disj have "unat (sl_ptr t) + i \<notin> slice_addrs s" by blast
    with len show ?thesis unfolding m'
      using m1 by (intro mem_write_other) (auto simp: p q slice_addrs_def slice_mapped_def)
  qed (simp add: m')
  then show ?thesis by (simp add: slice_read_def)
qed

lemma slice_store_read:
  assumes st: "slice_store m s a bs = Ret m'" and mp: "slice_mapped s"
  shows "slice_read m' s =
         take a (slice_read m s) @ bs @ drop (a + length bs) (slice_read m s)"
proof (rule nth_equalityI)
  from st have len: "a + length bs \<le> sl_len s"
    and m': "m' = mem_write m (sl_ptr s + of_nat a) bs"
    by (auto simp: slice_store_def split: if_splits)
  show "length (slice_read m' s) =
        length (take a (slice_read m s) @ bs @ drop (a + length bs) (slice_read m s))"
    using len by simp
  fix i assume "i < length (slice_read m' s)"
  then have i: "i < sl_len s" by simp
  show "slice_read m' s ! i =
        (take a (slice_read m s) @ bs @ drop (a + length bs) (slice_read m s)) ! i"
  proof (cases "bs = []")
    case True
    then show ?thesis by (simp add: m')
  next
    case False
    have p: "unat (sl_ptr s + of_nat a) = unat (sl_ptr s) + a"
      using False len by (intro slice_addr_unat [OF mp]) (cases bs, auto)
    have q: "unat (sl_ptr s + of_nat i) = unat (sl_ptr s) + i" by (rule slice_addr_unat [OF mp i])
    have bnd: "unat (sl_ptr s + of_nat a) + length bs \<le> 2 ^ 64"
      using len mp by (simp add: p slice_mapped_def)
    consider "i < a" | "a \<le> i" "i < a + length bs" | "a + length bs \<le> i" by linarith
    then show ?thesis
    proof cases
      case 1
      then have "m' (sl_ptr s + of_nat i) = m (sl_ptr s + of_nat i)"
        unfolding m' by (intro mem_write_other [OF bnd]) (simp add: p q)
      with 1 i len show ?thesis by (simp add: slice_read_def nth_append)
    next
      case 2
      then have "sl_ptr s + of_nat i = (sl_ptr s + of_nat a) + of_nat (i - a)"
        by (simp add: of_nat_diff)
      moreover from 2 have "i - a < length bs" by simp
      ultimately have "m' (sl_ptr s + of_nat i) = bs ! (i - a)"
        unfolding m' by (simp only:) (rule mem_write_at [OF bnd])
      with 2 \<open>i - a < length bs\<close> i len show ?thesis by (simp add: slice_read_def nth_append)
    next
      case 3
      then have "m' (sl_ptr s + of_nat i) = m (sl_ptr s + of_nat i)"
        unfolding m' by (intro mem_write_other [OF bnd]) (simp add: p q)
      moreover from 3 have "\<not> i - a < length bs" by simp
      ultimately show ?thesis using 3 i len by (simp add: slice_read_def nth_append)
    qed
  qed
qed

section \<open>The Buf trait\<close>

text \<open>
  The operations of \<open>trait Buf\<close> with what its documentation promises: a length up to the
  capacity can be set and is read back; setting it touches neither capacity, data nor user
  data; the user data is read back and independent of the rest. \<open>get_user_mut\<close> is the
  update \<open>set_user\<close>; \<open>data_of\<close> is what \<open>get_data\<close> borrows.
\<close>

locale buf =
  fixes get_capacity :: "'b \<Rightarrow> u16 outcome"
    and get_len :: "'b \<Rightarrow> u16"
    and set_len :: "'b \<Rightarrow> u16 \<Rightarrow> 'b outcome"
    and get_user :: "'b \<Rightarrow> 'u"
    and set_user :: "'b \<Rightarrow> 'u \<Rightarrow> 'b"
    and data_of :: "'b \<Rightarrow> 'd"
  assumes set_len_total: "get_capacity b = Ret c \<Longrightarrow> l \<le> c \<Longrightarrow> \<exists>b'. set_len b l = Ret b'"
    and get_len_set_len: "set_len b l = Ret b' \<Longrightarrow> get_len b' = l"
    and capacity_set_len: "set_len b l = Ret b' \<Longrightarrow> get_capacity b' = get_capacity b"
    and user_set_len: "set_len b l = Ret b' \<Longrightarrow> get_user b' = get_user b"
    and data_set_len: "set_len b l = Ret b' \<Longrightarrow> data_of b' = data_of b"
    and get_user_set_user: "get_user (set_user b u) = u"
    and len_set_user: "get_len (set_user b u) = get_len b"
    and capacity_set_user: "get_capacity (set_user b u) = get_capacity b"
    and data_set_user: "data_of (set_user b u) = data_of b"
begin

lemmas buf_laws = get_len_set_len capacity_set_len user_set_len data_set_len
  get_user_set_user len_set_user capacity_set_user data_set_user

text \<open>
  What a program that prepares a packet relies on: tagging a buffer and then setting its
  length always succeeds for a length within the capacity, and both are read back.
\<close>

lemma prepare:
  assumes "get_capacity b = Ret c" and "l \<le> c"
  shows "\<exists>b'. set_len (set_user b u) l = Ret b' \<and> get_len b' = l \<and> get_user b' = u
              \<and> data_of b' = data_of b \<and> get_capacity b' = Ret c"
proof -
  obtain b' where b': "set_len (set_user b u) l = Ret b'"
    using assms set_len_total by (metis capacity_set_user)
  then show ?thesis using assms(1) by (auto simp: buf_laws)
qed

lemma set_len_again:
  assumes "get_capacity b = Ret c" and "l \<le> c" and "k \<le> c" and "set_len b l = Ret b'"
  shows "\<exists>b''. set_len b' k = Ret b'' \<and> get_len b'' = k \<and> data_of b'' = data_of b"
  using assms set_len_total [of b' c k] by (auto simp: buf_laws)

end

section \<open>BufMmap\<close>

record 'u buf_mmap =
  bm_addr :: u64
  bm_len :: u16
  bm_data :: slice
  bm_user :: 'u

definition bm_get_data :: "memory \<Rightarrow> 'u buf_mmap \<Rightarrow> u8 list" where
  "bm_get_data m b = slice_read m (bm_data b)"

definition bm_get_data_mut :: "'u buf_mmap \<Rightarrow> slice" where
  "bm_get_data_mut b = bm_data b"

definition bm_get_capacity :: "'u buf_mmap \<Rightarrow> u16 outcome" where
  "bm_get_capacity b = u16_try_from (sl_len (bm_data b))"

definition bm_get_len :: "'u buf_mmap \<Rightarrow> u16" where
  "bm_get_len b = bm_len b"

definition bm_set_len :: "'u buf_mmap \<Rightarrow> u16 \<Rightarrow> 'u buf_mmap outcome" where
  "bm_set_len b l =
     bnd (bm_get_capacity b) (\<lambda>cap.
       if cap < l then Panic ExplicitPanic else Ret (b\<lparr>bm_len := l\<rparr>))"

definition bm_get_user :: "'u buf_mmap \<Rightarrow> 'u" where
  "bm_get_user b = bm_user b"

definition bm_set_user :: "'u buf_mmap \<Rightarrow> 'u \<Rightarrow> 'u buf_mmap" where
  "bm_set_user b u = b\<lparr>bm_user := u\<rparr>"

lemma bm_set_len_Ret:
  "bm_set_len b l = Ret b' \<Longrightarrow>
   b' = b\<lparr>bm_len := l\<rparr> \<and> (\<exists>c. bm_get_capacity b = Ret c \<and> l \<le> c)"
  by (auto simp: bm_set_len_def bnd_Ret_iff split: if_splits)

lemma bm_get_capacity_update [simp]:
  "bm_get_capacity (b\<lparr>bm_len := l\<rparr>) = bm_get_capacity b"
  "bm_get_capacity (b\<lparr>bm_user := u\<rparr>) = bm_get_capacity b"
  by (simp_all add: bm_get_capacity_def)

interpretation mmap_buf: buf bm_get_capacity bm_get_len bm_set_len bm_get_user bm_set_user bm_data
proof (unfold_locales, goal_cases)
  case (1 b c l)
  then show ?case by (auto simp: bm_set_len_def not_less)
qed (auto dest!: bm_set_len_Ret simp: bm_get_len_def bm_get_user_def bm_set_user_def)

text \<open>The length of a \<open>BufMmap\<close> that was set through the trait stays inside its slice.\<close>

definition bm_wf :: "'u buf_mmap \<Rightarrow> bool" where
  "bm_wf b \<longleftrightarrow> unat (bm_len b) \<le> sl_len (bm_data b)"

lemma bm_get_capacity_unat: "bm_get_capacity b = Ret c \<Longrightarrow> unat c = sl_len (bm_data b)"
  by (auto simp: bm_get_capacity_def u16_try_from_def unat_of_nat_u16 split: if_splits)

text \<open>
  \<open>BufMmap::set_len\<close> on every branch: it panics when the slice is longer than a
  \<open>u16\<close> can say and when the length exceeds the capacity; otherwise the new length lies inside
  the slice and nothing else changes.
\<close>

lemma bm_set_len_cases:
  "bm_set_len b l =
     (if 2 ^ 16 \<le> sl_len (bm_data b) then Panic UnwrapFailed
      else if sl_len (bm_data b) < unat l then Panic ExplicitPanic
      else Ret (b\<lparr>bm_len := l\<rparr>))"
proof (cases "2 ^ 16 \<le> sl_len (bm_data b)")
  case True
  then show ?thesis by (simp add: bm_set_len_def bm_get_capacity_def u16_try_from_def)
next
  case False
  then have "unat (of_nat (sl_len (bm_data b)) :: u16) = sl_len (bm_data b)"
    by (simp add: unat_of_nat_u16)
  with False show ?thesis
    by (simp add: bm_set_len_def bm_get_capacity_def u16_try_from_def word_less_nat_alt)
qed

lemma bm_set_len_wf: "bm_set_len b l = Ret b' \<Longrightarrow> bm_wf b'"
  using bm_get_capacity_unat by (fastforce dest!: bm_set_len_Ret simp: bm_wf_def word_le_nat_alt)

section \<open>BufVec\<close>

record 'u buf_vec =
  bv_data :: "u8 vec"
  bv_len :: u16
  bv_user :: 'u

definition bv_new :: "usize \<Rightarrow> 'u \<Rightarrow> 'u buf_vec" where
  "bv_new cap u =
     \<lparr>bv_data = \<lparr>items = replicate cap 0, capacity = cap\<rparr>, bv_len = 0, bv_user = u\<rparr>"

definition bv_get_data :: "'u buf_vec \<Rightarrow> u8 list" where
  "bv_get_data b = items (bv_data b)"

text \<open>The mutable borrow: \<open>f\<close> is what the borrower does to the bytes; it cannot change their number.\<close>

definition bv_get_data_mut :: "'u buf_vec \<Rightarrow> (u8 list \<Rightarrow> u8 list) \<Rightarrow> 'u buf_vec" where
  "bv_get_data_mut b f = b\<lparr>bv_data := (bv_data b)\<lparr>items := f (items (bv_data b))\<rparr>\<rparr>"

definition bv_get_capacity :: "'u buf_vec \<Rightarrow> u16 outcome" where
  "bv_get_capacity b = u16_try_from (capacity (bv_data b))"

definition bv_get_len :: "'u buf_vec \<Rightarrow> u16" where
  "bv_get_len b = bv_len b"

definition bv_set_len :: "'u buf_vec \<Rightarrow> u16 \<Rightarrow> 'u buf_vec outcome" where
  "bv_set_len b l = Ret (b\<lparr>bv_len := l\<rparr>)"

definition bv_get_user :: "'u buf_vec \<Rightarrow> 'u" where
  "bv_get_user b = bv_user b"

definition bv_set_user :: "'u buf_vec \<Rightarrow> 'u \<Rightarrow> 'u buf_vec" where
  "bv_set_user b u = b\<lparr>bv_user := u\<rparr>"

lemma bv_get_data_mut_sel [simp]:
  "bv_get_data (bv_get_data_mut b f) = f (bv_get_data b)" "bv_get_capacity (bv_get_data_mut b f) = bv_get_capacity b"
  "bv_get_len (bv_get_data_mut b f) = bv_get_len b" "bv_get_user (bv_get_data_mut b f) = bv_get_user b"
  by (simp_all add: bv_get_data_mut_def bv_get_data_def bv_get_capacity_def bv_get_len_def bv_get_user_def)

interpretation vec_buf: buf bv_get_capacity bv_get_len bv_set_len bv_get_user bv_set_user bv_get_data
  by unfold_locales
    (auto simp: bv_set_len_def bv_get_len_def bv_get_capacity_def bv_get_user_def
      bv_set_user_def bv_get_data_def)

text \<open>
  The two implementations of \<open>Buf\<close> disagree on a length beyond the capacity:
  \<open>BufMmap::set_len\<close> panics on every such length, while the test double \<open>BufVec\<close> accepts it
  and reads it back, so a test written against \<open>BufVec\<close> does not see the panic.
\<close>

lemma set_len_beyond_capacity:
  assumes "sl_len (bm_data b) < unat l" and "sl_len (bm_data b) < 2 ^ 16"
    and "capacity (bv_data v) = sl_len (bm_data b)"
  shows "bm_get_capacity b = bv_get_capacity v \<and> bm_set_len b l = Panic ExplicitPanic
         \<and> (\<exists>v'. bv_set_len v l = Ret v' \<and> bv_get_len v' = l)"
  using assms
  by (simp add: bm_set_len_def bm_get_capacity_def bv_get_capacity_def u16_try_from_ok
      word_less_nat_alt unat_of_nat_u16 bv_set_len_def bv_get_len_def)

lemma set_len_beyond_capacity_witness:
  "bm_set_len \<lparr>bm_addr = 256, bm_len = 0, bm_data = \<lparr>sl_ptr = 4352, sl_len = 1792\<rparr>, bm_user = ()\<rparr>
     1793 = Panic ExplicitPanic
   \<and> (\<exists>v'. bv_set_len (bv_new 1792 ()) 1793 = Ret v' \<and> bv_get_len v' = 1793)"
  using set_len_beyond_capacity
    [of "\<lparr>bm_addr = 256, bm_len = 0, bm_data = \<lparr>sl_ptr = 4352, sl_len = 1792\<rparr>, bm_user = ()\<rparr>"
        1793 "bv_new 1792 ()"]
  by (simp add: bv_new_def)

end
