(* ===== verification/Externals.thy ===== *)
theory Externals
  imports Buffers
begin

text \<open>
  The code the crate calls and does not contain: libc's \<open>mmap\<close>, \<open>munmap\<close>, \<open>poll\<close>, \<open>sendto\<close>,
  and the \<open>libbpf\<close> functions on umems, sockets and rings. They are parameters of the model:
  the records \<open>libc_api\<close> and \<open>xsk_api\<close> hold one function per C function the crate calls
  (and the C constants it names), over an opaque state \<open>'w\<close> of the process and the kernel and
  opaque ring handles \<open>'r\<close> (the boxed \<open>xsk_ring_cons\<close> and \<open>xsk_ring_prod\<close>).

  What the crate relies on is stated in the locales \<open>xsk_cons\<close>, \<open>xsk_prod\<close>, \<open>xsk_rings\<close> and
  \<open>os_mmap\<close>. They follow the documentation of libbpf and of AF_XDP: \<open>peek\<close> opens a window of at
  most the requested number of entries, \<open>reserve\<close> gives all the requested slots or none,
  \<open>release\<close> and \<open>submit\<close> transfer the frames of the window, and the kernel only hands back
  frames it was given. The kernel may run during any call: the laws constrain only which
  frames it holds in total (\<open>held\<close>), not in which ring they are.
\<close>

section \<open>libc\<close>

record 'w libc_api =
  c_mmap :: "u64 \<Rightarrow> u64 \<Rightarrow> u32 \<Rightarrow> u32 \<Rightarrow> c_int \<Rightarrow> c_int \<Rightarrow> 'w \<Rightarrow> u64 \<times> 'w"
  c_munmap :: "u64 \<Rightarrow> u64 \<Rightarrow> 'w \<Rightarrow> c_int \<times> 'w"
  c_poll :: "c_int \<Rightarrow> u16 \<Rightarrow> c_int \<Rightarrow> 'w \<Rightarrow> c_int \<times> 'w"
  c_sendto :: "c_int \<Rightarrow> u64 \<Rightarrow> u64 \<Rightarrow> u32 \<Rightarrow> u64 \<Rightarrow> u32 \<Rightarrow> 'w \<Rightarrow> c_int \<times> 'w"
  c_errno :: "'w \<Rightarrow> c_int"
  MAP_PRIVATE :: u32
  MAP_ANONYMOUS :: u32
  MAP_HUGETLB :: u32
  MAP_FAILED :: u64
  PROT_READ :: u32
  PROT_WRITE :: u32
  MSG_DONTWAIT :: u32
  POLLIN :: u16
  ENOBUFS :: c_int
  EAGAIN :: c_int
  EBUSY :: c_int
  ENETDOWN :: c_int

section \<open>libbpf\<close>

record xdp_desc =
  desc_addr :: u64
  desc_len :: u32
  desc_options :: u32

record xsk_umem_config =
  fill_size :: u32
  comp_size :: u32
  frame_size :: u32
  frame_headroom :: u32
  umem_flags :: u32

record xsk_socket_config =
  rx_size :: u32
  tx_size :: u32
  xdp_flags :: u32
  bind_flags :: u16
  libbpf_flags :: u32

text \<open>
  A C function that writes through a pointer argument returns the written value as a further
  component. \<open>cons_peek\<close> and \<open>prod_reserve\<close> take the current value of \<open>*idx\<close> and return the
  new one. The pointers that \<open>rx_desc\<close>, \<open>comp_addr\<close>, \<open>fill_addr\<close> and \<open>tx_desc\<close> return are
  dereferenced at once by the crate: the model has the read or the write itself.
\<close>

record ('r, 'w) xsk_api =
  new_ring :: "'w \<Rightarrow> 'r \<times> 'w"
  umem_create :: "u64 \<Rightarrow> u64 \<Rightarrow> 'r \<Rightarrow> 'r \<Rightarrow> xsk_umem_config \<Rightarrow> 'w \<Rightarrow> c_int \<times> u64 \<times> 'w"
  umem_delete :: "u64 \<Rightarrow> 'w \<Rightarrow> 'w"
  socket_create ::
    "string \<Rightarrow> u32 \<Rightarrow> u64 \<Rightarrow> 'r option \<Rightarrow> 'r option \<Rightarrow> xsk_socket_config \<Rightarrow> 'w
     \<Rightarrow> c_int \<times> u64 \<times> 'w"
  socket_fd :: "u64 \<Rightarrow> 'w \<Rightarrow> c_int"
  socket_delete :: "u64 \<Rightarrow> 'w \<Rightarrow> 'w"
  cons_peek :: "'r \<Rightarrow> u64 \<Rightarrow> u32 \<Rightarrow> 'w \<Rightarrow> u64 \<times> u32 \<times> 'w"
  cons_release :: "'r \<Rightarrow> u64 \<Rightarrow> 'w \<Rightarrow> 'w"
  cons_comp_addr :: "'r \<Rightarrow> u32 \<Rightarrow> 'w \<Rightarrow> u64"
  cons_rx_desc :: "'r \<Rightarrow> u32 \<Rightarrow> 'w \<Rightarrow> xdp_desc"
  prod_reserve :: "'r \<Rightarrow> u64 \<Rightarrow> u32 \<Rightarrow> 'w \<Rightarrow> u64 \<times> u32 \<times> 'w"
  prod_put_fill :: "'r \<Rightarrow> u32 \<Rightarrow> u64 \<Rightarrow> 'w \<Rightarrow> 'w"
  prod_put_tx :: "'r \<Rightarrow> u32 \<Rightarrow> (xdp_desc \<Rightarrow> xdp_desc) \<Rightarrow> 'w \<Rightarrow> 'w"
  prod_submit :: "'r \<Rightarrow> u64 \<Rightarrow> 'w \<Rightarrow> 'w"
  prod_needs_wakeup :: "'r \<Rightarrow> 'w \<Rightarrow> c_int"
  XDP_FLAGS_UPDATE_IF_NOEXIST :: u32
  XDP_USE_NEED_WAKEUP :: u32
  XDP_ZEROCOPY :: u32
  XDP_COPY :: u32
  XSK_UMEM_DEFAULT_FRAME_HEADROOM :: u32

datatype ring_kind = Fill | Completion | Rx | Tx

instantiation ring_kind :: finite
begin

instance
proof
  have "(UNIV :: ring_kind set) \<subseteq> set [Fill, Completion, Rx, Tx]"
    by (auto intro: ring_kind.exhaust)
  then show "finite (UNIV :: ring_kind set)" by (rule finite_subset) (rule finite_set)
qed

end

text \<open>The addresses in the entries \<open>i, i + 1, \<dots>\<close> of a completion or an rx ring.\<close>

definition comp_entries :: "('r, 'w) xsk_api \<Rightarrow> 'r \<Rightarrow> u32 \<Rightarrow> nat \<Rightarrow> 'w \<Rightarrow> u64 list" where
  "comp_entries api r i n w = map (\<lambda>k. cons_comp_addr api r (i + of_nat k) w) [0..<n]"

definition rx_entries :: "('r, 'w) xsk_api \<Rightarrow> 'r \<Rightarrow> u32 \<Rightarrow> nat \<Rightarrow> 'w \<Rightarrow> xdp_desc list" where
  "rx_entries api r i n w = map (\<lambda>k. cons_rx_desc api r (i + of_nat k) w) [0..<n]"

lemma length_comp_entries [simp]: "length (comp_entries api r i n w) = n"
  by (simp add: comp_entries_def)

lemma length_rx_entries [simp]: "length (rx_entries api r i n w) = n"
  by (simp add: rx_entries_def)

lemma comp_entries_0 [simp]: "comp_entries api r i 0 w = []"
  by (simp add: comp_entries_def)

lemma rx_entries_0 [simp]: "rx_entries api r i 0 w = []"
  by (simp add: rx_entries_def)

lemma comp_entries_Suc:
  "comp_entries api r i (Suc n) w = cons_comp_addr api r i w # comp_entries api r (i + 1) n w"
  by (simp add: comp_entries_def map_upt_Suc_shift algebra_simps del: upt_Suc)

lemma rx_entries_Suc:
  "rx_entries api r i (Suc n) w = cons_rx_desc api r i w # rx_entries api r (i + 1) n w"
  by (simp add: rx_entries_def map_upt_Suc_shift algebra_simps del: upt_Suc)

section \<open>What the crate relies on\<close>

text \<open>
  The views on the opaque state: the states the library can be in (\<open>ok\<close>), the frame addresses
  the kernel side holds (\<open>held\<close>: submitted and not yet released back), the kind of a ring, the
  window that \<open>peek\<close> or \<open>reserve\<close> opened on it (its first index and its length), and the
  address staged in a slot of a fill or tx ring.
\<close>

locale xsk_views =
  fixes api :: "('r, 'w) xsk_api"
    and ok :: "'w \<Rightarrow> bool"
    and held :: "'w \<Rightarrow> u64 multiset"
    and kind :: "'r \<Rightarrow> ring_kind"
    and window :: "'r \<Rightarrow> 'w \<Rightarrow> u32 \<times> nat"
    and staged :: "'r \<Rightarrow> u32 \<Rightarrow> 'w \<Rightarrow> u64"

text \<open>Consumer rings: completion and rx.\<close>

locale xsk_cons = xsk_views +
  assumes peek_ok: "ok w \<Longrightarrow> kind r \<in> {Completion, Rx} \<Longrightarrow> snd (window r w) = 0 \<Longrightarrow>
        cons_peek api r nb i w = (n, j, w') \<Longrightarrow> ok w'"
    and peek_held: "ok w \<Longrightarrow> kind r \<in> {Completion, Rx} \<Longrightarrow> snd (window r w) = 0 \<Longrightarrow>
        cons_peek api r nb i w = (n, j, w') \<Longrightarrow> held w' = held w"
    and peek_le: "ok w \<Longrightarrow> kind r \<in> {Completion, Rx} \<Longrightarrow> snd (window r w) = 0 \<Longrightarrow>
        cons_peek api r nb i w = (n, j, w') \<Longrightarrow> n \<le> nb"
    and peek_window: "ok w \<Longrightarrow> kind r \<in> {Completion, Rx} \<Longrightarrow> snd (window r w) = 0 \<Longrightarrow>
        cons_peek api r nb i w = (n, j, w') \<Longrightarrow>
        snd (window r w') = unat n \<and> (n \<noteq> 0 \<longrightarrow> fst (window r w') = j)"
    and peek_frame: "ok w \<Longrightarrow> kind r \<in> {Completion, Rx} \<Longrightarrow> snd (window r w) = 0 \<Longrightarrow>
        cons_peek api r nb i w = (n, j, w') \<Longrightarrow> q \<noteq> r \<Longrightarrow> window q w' = window q w"
    and rx_len_fits: "ok w \<Longrightarrow> kind r = Rx \<Longrightarrow> window r w = (i, cnt) \<Longrightarrow> k < cnt \<Longrightarrow>
        unat (desc_len (cons_rx_desc api r (i + of_nat k) w)) < 2 ^ 16"
    and release_ok: "ok w \<Longrightarrow> kind r \<in> {Completion, Rx} \<Longrightarrow> window r w = (i, unat n) \<Longrightarrow>
        ok (cons_release api r n w)"
    and release_closes: "ok w \<Longrightarrow> kind r \<in> {Completion, Rx} \<Longrightarrow> window r w = (i, unat n) \<Longrightarrow>
        snd (window r (cons_release api r n w)) = 0"
    and release_frame: "ok w \<Longrightarrow> kind r \<in> {Completion, Rx} \<Longrightarrow> window r w = (i, unat n) \<Longrightarrow>
        q \<noteq> r \<Longrightarrow> window q (cons_release api r n w) = window q w"
    and release_comp: "ok w \<Longrightarrow> kind r = Completion \<Longrightarrow> window r w = (i, unat n) \<Longrightarrow>
        held w = held (cons_release api r n w) + mset (comp_entries api r i (unat n) w)"
    and release_rx: "ok w \<Longrightarrow> kind r = Rx \<Longrightarrow> window r w = (i, unat n) \<Longrightarrow>
        held w = held (cons_release api r n w)
                 + mset (map desc_addr (rx_entries api r i (unat n) w))"

text \<open>Producer rings: fill and tx.\<close>

locale xsk_prod = xsk_views +
  assumes reserve_ok: "ok w \<Longrightarrow> kind r \<in> {Fill, Tx} \<Longrightarrow> snd (window r w) = 0 \<Longrightarrow>
        prod_reserve api r nb i w = (n, j, w') \<Longrightarrow> ok w'"
    and reserve_held: "ok w \<Longrightarrow> kind r \<in> {Fill, Tx} \<Longrightarrow> snd (window r w) = 0 \<Longrightarrow>
        prod_reserve api r nb i w = (n, j, w') \<Longrightarrow> held w' = held w"
    and reserve_all_or_none: "ok w \<Longrightarrow> kind r \<in> {Fill, Tx} \<Longrightarrow> snd (window r w) = 0 \<Longrightarrow>
        prod_reserve api r nb i w = (n, j, w') \<Longrightarrow> n = nb \<or> n = 0"
    and reserve_window: "ok w \<Longrightarrow> kind r \<in> {Fill, Tx} \<Longrightarrow> snd (window r w) = 0 \<Longrightarrow>
        prod_reserve api r nb i w = (n, j, w') \<Longrightarrow>
        snd (window r w') = unat n \<and> (n \<noteq> 0 \<longrightarrow> fst (window r w') = j)"
    and reserve_frame: "ok w \<Longrightarrow> kind r \<in> {Fill, Tx} \<Longrightarrow> snd (window r w) = 0 \<Longrightarrow>
        prod_reserve api r nb i w = (n, j, w') \<Longrightarrow> q \<noteq> r \<Longrightarrow> window q w' = window q w"
    and put_fill_keeps: "ok w \<Longrightarrow> kind r = Fill \<Longrightarrow> window r w = (i, cnt) \<Longrightarrow> k < cnt \<Longrightarrow>
        w' = prod_put_fill api r (i + of_nat k) a w \<Longrightarrow>
        ok w' \<and> held w' = held w \<and> (\<forall>q. window q w' = window q w)"
    and put_fill_staged: "ok w \<Longrightarrow> kind r = Fill \<Longrightarrow> window r w = (i, cnt) \<Longrightarrow> k < cnt \<Longrightarrow> m < cnt \<Longrightarrow>
        staged r (i + of_nat m) (prod_put_fill api r (i + of_nat k) a w)
        = (if m = k then a else staged r (i + of_nat m) w)"
    and put_tx_keeps: "ok w \<Longrightarrow> kind r = Tx \<Longrightarrow> window r w = (i, cnt) \<Longrightarrow> k < cnt \<Longrightarrow>
        w' = prod_put_tx api r (i + of_nat k) f w \<Longrightarrow>
        ok w' \<and> held w' = held w \<and> (\<forall>q. window q w' = window q w)"
    and put_tx_staged: "ok w \<Longrightarrow> kind r = Tx \<Longrightarrow> window r w = (i, cnt) \<Longrightarrow> k < cnt \<Longrightarrow> m < cnt \<Longrightarrow>
        (\<And>d. desc_addr (f d) = a) \<Longrightarrow>
        staged r (i + of_nat m) (prod_put_tx api r (i + of_nat k) f w)
        = (if m = k then a else staged r (i + of_nat m) w)"
    and submit_ok: "ok w \<Longrightarrow> kind r \<in> {Fill, Tx} \<Longrightarrow> window r w = (i, unat n) \<Longrightarrow>
        ok (prod_submit api r n w)"
    and submit_closes: "ok w \<Longrightarrow> kind r \<in> {Fill, Tx} \<Longrightarrow> window r w = (i, unat n) \<Longrightarrow>
        snd (window r (prod_submit api r n w)) = 0"
    and submit_frame: "ok w \<Longrightarrow> kind r \<in> {Fill, Tx} \<Longrightarrow> window r w = (i, unat n) \<Longrightarrow> q \<noteq> r \<Longrightarrow>
        window q (prod_submit api r n w) = window q w"
    and submit_held: "ok w \<Longrightarrow> kind r \<in> {Fill, Tx} \<Longrightarrow> window r w = (i, unat n) \<Longrightarrow>
        held (prod_submit api r n w)
        = held w + mset (map (\<lambda>k. staged r (i + of_nat k) w) [0..<unat n])"

text \<open>Both, and the two system calls that wake the kernel.\<close>

locale xsk_rings = xsk_cons + xsk_prod +
  fixes libc :: "'w libc_api"
  assumes poll_keeps: "ok w \<Longrightarrow> c_poll libc fd ev t w = (res, w') \<Longrightarrow>
        ok w' \<and> held w' = held w \<and> (\<forall>q. window q w' = window q w)"
    and sendto_keeps: "ok w \<Longrightarrow> c_sendto libc fd p n fl sa sl w = (res, w') \<Longrightarrow>
        ok w' \<and> held w' = held w \<and> (\<forall>q. window q w' = window q w)"

text \<open>The memory mapping: a mapping that succeeded does not wrap round the address space.\<close>

locale os_mmap =
  fixes libc :: "'w libc_api"
  assumes mmap_fits: "c_mmap libc a n prot fl fd off w = (p, w') \<Longrightarrow> p \<noteq> MAP_FAILED libc \<Longrightarrow>
        unat p + unat n \<le> 2 ^ 64"

section \<open>Filling a producer window\<close>

text \<open>
  The crate writes the slots of a window one after the other. \<open>puts\<close> is that sequence of writes,
  for both kinds of producer ring; \<open>adr x\<close> is the frame address a write of \<open>x\<close> stages.
\<close>

primrec puts :: "(u32 \<Rightarrow> 'x \<Rightarrow> 'w \<Rightarrow> 'w) \<Rightarrow> u32 \<Rightarrow> 'x list \<Rightarrow> 'w \<Rightarrow> 'w" where
  "puts p i [] w = w"
| "puts p i (x # xs) w = puts p (i + 1) xs (p i x w)"

lemma map_staged_upt:
  "(\<forall>m<n. f m = as ! m) \<Longrightarrow> length as = n \<Longrightarrow> map f [0..<n] = as"
  by (rule nth_equalityI) auto

context xsk_prod
begin

lemma puts_facts:
  assumes step: "\<And>k x w. ok w \<Longrightarrow> window r w = (i, n) \<Longrightarrow> k < n \<Longrightarrow>
      ok (p (i + of_nat k) x w) \<and> held (p (i + of_nat k) x w) = held w
      \<and> (\<forall>q. window q (p (i + of_nat k) x w) = window q w)
      \<and> (\<forall>m<n. staged r (i + of_nat m) (p (i + of_nat k) x w)
               = (if m = k then adr x else staged r (i + of_nat m) w))"
    and "ok w" and "window r w = (i, n)" and "k + length xs \<le> n"
  shows "ok (puts p (i + of_nat k) xs w) \<and> held (puts p (i + of_nat k) xs w) = held w
     \<and> (\<forall>q. window q (puts p (i + of_nat k) xs w) = window q w)
     \<and> (\<forall>m<n. staged r (i + of_nat m) (puts p (i + of_nat k) xs w)
              = (if k \<le> m \<and> m < k + length xs then adr (xs ! (m - k))
                 else staged r (i + of_nat m) w))"
  using assms(2-)
proof (induction xs arbitrary: k w)
  case (Cons x xs)
  let ?w = "p (i + of_nat k) x w"
  have st: "ok ?w \<and> held ?w = held w \<and> (\<forall>q. window q ?w = window q w)
      \<and> (\<forall>m<n. staged r (i + of_nat m) ?w = (if m = k then adr x else staged r (i + of_nat m) w))"
    using Cons.prems by (intro step) auto
  have idx: "i + of_nat k + 1 = i + of_nat (Suc k)" by simp
  have "ok (puts p (i + of_nat (Suc k)) xs ?w)
     \<and> held (puts p (i + of_nat (Suc k)) xs ?w) = held ?w
     \<and> (\<forall>q. window q (puts p (i + of_nat (Suc k)) xs ?w) = window q ?w)
     \<and> (\<forall>m<n. staged r (i + of_nat m) (puts p (i + of_nat (Suc k)) xs ?w)
              = (if Suc k \<le> m \<and> m < Suc k + length xs then adr (xs ! (m - Suc k))
                 else staged r (i + of_nat m) ?w))"
    using st Cons.prems by (intro Cons.IH) auto
  then show ?case
    unfolding puts.simps idx using st by (auto simp: nth_Cons' Suc_diff_le)
qed auto

text \<open>Writing the whole window and submitting it hands the staged frames to the kernel.\<close>

lemma puts_submit:
  assumes step: "\<And>k x w. ok w \<Longrightarrow> window r w = (i, unat n) \<Longrightarrow> k < unat n \<Longrightarrow>
      ok (p (i + of_nat k) x w) \<and> held (p (i + of_nat k) x w) = held w
      \<and> (\<forall>q. window q (p (i + of_nat k) x w) = window q w)
      \<and> (\<forall>m<unat n. staged r (i + of_nat m) (p (i + of_nat k) x w)
               = (if m = k then adr x else staged r (i + of_nat m) w))"
    and "ok w" and kd: "kind r \<in> {Fill, Tx}" and "window r w = (i, unat n)"
    and "length xs = unat n"
  shows "ok (prod_submit api r n (puts p i xs w))
     \<and> held (prod_submit api r n (puts p i xs w)) = held w + mset (map adr xs)
     \<and> snd (window r (prod_submit api r n (puts p i xs w))) = 0
     \<and> (\<forall>q. q \<noteq> r \<longrightarrow> window q (prod_submit api r n (puts p i xs w)) = window q w)"
proof -
  let ?w = "puts p i xs w"
  have f: "ok ?w \<and> held ?w = held w \<and> (\<forall>q. window q ?w = window q w)
     \<and> (\<forall>m<unat n. staged r (i + of_nat m) ?w = map adr xs ! m)"
    using puts_facts [where adr = adr and k = 0 and xs = xs, OF step assms(2,4)] assms(5) by simp
  then have w: "ok ?w" "window r ?w = (i, unat n)" using assms by auto
  have "map (\<lambda>k. staged r (i + of_nat k) ?w) [0..<unat n] = map adr xs"
    using f assms(5) by (intro map_staged_upt) auto
  then show ?thesis
    using submit_ok [OF w(1) kd w(2)] submit_held [OF w(1) kd w(2)] submit_closes [OF w(1) kd w(2)]
      submit_frame [OF w(1) kd w(2)] f by simp
qed

end

end
