(* ===== verification/Util.thy ===== *)
theory Util
  imports Rust_Prelude
begin

text \<open>
  \<open>src/util.rs\<close>: the power-of-two test that guards every ring size, and what it guarantees
  of the indices of a ring of that size. Ring indices are free-running \<open>u32\<close> counters that the
  C library masks with \<open>size - 1\<close>; the last section shows why only a power of two makes that
  sound across the wrap-around of the counter.
\<close>

unbundle bit_operations_syntax

definition is_pow_of_two :: "u32 \<Rightarrow> bool" where
  "is_pow_of_two val = (if val = 0 then False else val AND (val - 1) = 0)"

section \<open>The test accepts the powers of two only\<close>

lemma bit_top_iff:
  assumes "2 ^ n \<le> x" and "x < 2 ^ Suc n"
  shows "bit (x :: nat) n"
proof -
  have "x div 2 ^ n = 1"
  proof (rule div_nat_eqI)
    show "2 ^ n * 1 \<le> x" using assms(1) by simp
    show "x < 2 ^ n * Suc 1" using assms(2) by simp
  qed
  then show ?thesis by (simp add: bit_iff_odd)
qed

lemma and_pred_eq_0_iff_nat:
  assumes "0 < (x :: nat)"
  shows "x AND (x - 1) = 0 \<longleftrightarrow> (\<exists>k. x = 2 ^ k)"
proof
  assume zero: "x AND (x - 1) = 0"
  obtain n where lo: "2 ^ n \<le> x" and hi: "x < 2 ^ Suc n"
    using ex_power_ivl1 [of 2 x] assms by auto
  show "\<exists>k. x = 2 ^ k"
  proof (rule ccontr)
    assume "\<nexists>k. x = 2 ^ k"
    with lo have "2 ^ n \<le> x - 1" by (metis le_antisym not_less_eq_eq Suc_pred' assms)
    then have "bit (x - 1) n" using hi by (intro bit_top_iff) auto
    moreover have "bit x n" using lo hi by (rule bit_top_iff)
    ultimately have "bit (x AND (x - 1)) n" by (simp add: bit_and_iff)
    with zero show False by simp
  qed
next
  assume "\<exists>k. x = 2 ^ k"
  then obtain k where "x = 2 ^ k" ..
  then have "x AND (x - 1) = 2 ^ k AND mask k" by (simp add: mask_eq_exp_minus_1)
  also have "\<dots> = take_bit k (2 ^ k)" by (simp only: take_bit_eq_mask)
  finally show "x AND (x - 1) = 0" by simp
qed

lemma unat_pred_u32: "(v :: u32) \<noteq> 0 \<Longrightarrow> unat (v - 1) = unat v - 1"
  by (simp add: unat_minus_one)

lemma is_pow_of_two_nat: "is_pow_of_two v \<longleftrightarrow> (\<exists>k. unat v = 2 ^ k)"
proof (cases "v = 0")
  case False
  then have pos: "0 < unat v" by (simp add: unat_gt_0)
  have "v AND (v - 1) = 0 \<longleftrightarrow> unat (v AND (v - 1)) = 0"
    by (metis unat_eq_zero)
  also have "unat (v AND (v - 1)) = unat v AND (unat v - 1)"
    by (simp add: unsigned_and_eq unat_pred_u32 False)
  finally show ?thesis
    using False and_pred_eq_0_iff_nat [OF pos] by (simp add: is_pow_of_two_def)
qed (simp add: is_pow_of_two_def)

lemma is_pow_of_two_exp:
  assumes "is_pow_of_two v"
  obtains k where "k < 32" and "unat v = 2 ^ k"
proof -
  from assms obtain k where k: "unat v = 2 ^ k" by (auto simp: is_pow_of_two_nat)
  have "(2 :: nat) ^ k < 2 ^ 32" using unat_u32_lt [of v] by (simp only: k)
  then have "k < 32" by (rule power_less_imp_less_exp [rotated]) simp
  with k that show ?thesis by blast
qed

lemma is_pow_of_two_range: "is_pow_of_two v \<longleftrightarrow> (\<exists>k<32. unat v = 2 ^ k)"
  by (meson is_pow_of_two_exp is_pow_of_two_nat)

text \<open>
  Property C40. \<open>is_pow_of_two\<close> returns true exactly for the 32 values \<open>2^0, \<dots>, 2^31\<close>;
  zero, whose decrement would overflow, is rejected before the subtraction.
\<close>

theorem is_pow_of_two_iff: "is_pow_of_two v \<longleftrightarrow> v \<in> (\<lambda>k. 2 ^ k) ` {..<32}"
proof
  assume "is_pow_of_two v"
  then obtain k where k: "k < 32" "unat v = 2 ^ k" by (rule is_pow_of_two_exp)
  have "v = of_nat (unat v)" by simp
  then have "v = 2 ^ k" by (simp only: k of_nat_power of_nat_numeral)
  with k show "v \<in> (\<lambda>k. 2 ^ k) ` {..<32}" by auto
next
  assume "v \<in> (\<lambda>k. 2 ^ k) ` {..<32}"
  then obtain k where k: "k < 32" and v: "v = 2 ^ k" by auto
  have "unat v = 2 ^ k"
    using unat_of_nat_u32 [of "2 ^ k"] power_strict_increasing [OF k, of "2 :: nat"]
    by (simp add: v)
  then show "is_pow_of_two v" by (auto simp: is_pow_of_two_nat)
qed

section \<open>Masked ring indices\<close>

text \<open>The slot a free-running index denotes in a ring whose size is a power of two.\<close>

lemma mask_index_mod:
  assumes "is_pow_of_two sz"
  shows "unat (i AND (sz - 1)) = unat i mod unat sz"
proof -
  from assms obtain k where k: "k < 32" "unat sz = 2 ^ k" by (rule is_pow_of_two_exp)
  have "sz \<noteq> 0" using k(2) by auto
  then have "unat (sz - 1) = mask k"
    by (simp add: unat_pred_u32 k mask_eq_exp_minus_1)
  then have "unat (i AND (sz - 1)) = unat i AND mask k"
    by (simp add: unsigned_and_eq)
  then show ?thesis by (simp add: k take_bit_eq_mask [symmetric] take_bit_eq_mod)
qed

lemma pow_of_two_dvd:
  assumes "is_pow_of_two sz"
  shows "unat sz dvd 2 ^ 32"
proof -
  from assms obtain k where k: "k < 32" "unat sz = 2 ^ k" by (rule is_pow_of_two_exp)
  then show ?thesis using le_imp_power_dvd [of k 32 2] by simp
qed

text \<open>
  Why the ring sizes must pass the test: for an accepted size, advancing a
  free-running \<open>u32\<close> index by \<open>k\<close> and masking it moves \<open>k\<close> slots round the ring, also when
  the 32-bit counter wraps.
\<close>

lemma pow_of_two_ring_index:
  assumes "is_pow_of_two sz"
  shows "unat ((i + of_nat k) AND (sz - 1)) = (unat (i AND (sz - 1)) + k) mod unat sz"
proof -
  have d: "unat sz dvd 2 ^ 32" by (rule pow_of_two_dvd [OF assms])
  have "unat (i + of_nat k) = (unat i + k) mod 2 ^ 32"
    by (simp add: unat_word_ariths unat_of_nat take_bit_eq_mod mod_simps)
  then have "unat (i + of_nat k) mod unat sz = (unat i + k) mod unat sz"
    using d by (simp add: mod_mod_cancel)
  then show ?thesis by (simp add: mask_index_mod [OF assms] mod_simps)
qed

lemma mask_index_inj:
  assumes "is_pow_of_two sz" and "j < unat sz" and "k < unat sz"
    and "(i + of_nat j) AND (sz - 1) = (i + of_nat k) AND (sz - 1)"
  shows "j = k"
proof -
  have "(unat (i AND (sz - 1)) + j) mod unat sz = (unat (i AND (sz - 1)) + k) mod unat sz"
    using assms(4) by (metis pow_of_two_ring_index [OF assms(1)])
  then have "j mod unat sz = k mod unat sz" by (auto simp: nat_mod_eq_iff)
  with assms(2,3) show ?thesis by simp
qed

end
