(* ===== verification/Reference_Kernel.thy ===== *)
theory Reference_Kernel
  imports Externals Util
begin

text \<open>
  A concrete instance of the interface of \<open>Externals\<close>: rings as libbpf documents them (a
  power-of-two array of slots, free-running 32-bit producer and consumer counters, cached
  copies of them on the user's side), two links with four rings each, and the frames the kernel
  is working on. It is no model of code of this repository. It shows that the laws the crate
  relies on can hold together, and it is the environment in which the witnesses of the other
  theories run. Its kernel stays passive: entries of the completion and rx rings are there from
  the start.
\<close>

section \<open>One ring\<close>

record kring =
  kr_size :: u32
  kr_mem :: "u32 \<Rightarrow> xdp_desc"
  kr_prod :: u32
  kr_cons :: u32
  kr_cprod :: u32
  kr_ccons :: u32

definition kr_slot :: "kring \<Rightarrow> u32 \<Rightarrow> u32" where
  "kr_slot k i = i AND (kr_size k - 1)"

definition kr_entries :: "kring \<Rightarrow> xdp_desc list" where
  "kr_entries k =
     map (\<lambda>j. kr_mem k (kr_slot k (kr_cons k + of_nat j))) [0..<unat (kr_prod k - kr_cons k)]"

definition kring_ok :: "ring_kind \<Rightarrow> kring \<Rightarrow> bool" where
  "kring_ok kd k \<longleftrightarrow>
     is_pow_of_two (kr_size k) \<and> unat (kr_prod k - kr_cons k) \<le> unat (kr_size k) \<and>
     (if kd \<in> {Completion, Rx}
      then unat (kr_ccons k - kr_cons k) \<le> unat (kr_prod k - kr_cons k)
      else unat (kr_prod k - kr_cons k) \<le> unat (kr_cprod k - kr_cons k)
           \<and> unat (kr_cprod k - kr_cons k) \<le> unat (kr_size k)) \<and>
     (kd = Rx \<longrightarrow> (\<forall>d \<in> set (kr_entries k). unat (desc_len d) < 2 ^ 16))"

definition kr_window :: "ring_kind \<Rightarrow> kring \<Rightarrow> u32 \<times> nat" where
  "kr_window kd k =
     (if kd \<in> {Completion, Rx} then (kr_cons k, unat (kr_ccons k - kr_cons k))
      else (kr_prod k, unat (kr_cprod k - kr_prod k)))"

text \<open>Distances between free-running counters.\<close>

lemma dist_add:
  "unat (p - c) + n < 2 ^ 32 \<Longrightarrow> unat ((p + of_nat n) - (c :: u32)) = unat (p - c) + n"
  using of_nat_u32_unat_add [of "p - c" n] by (simp add: add_diff_eq diff_add_eq)

lemma dist_diff:
  "unat (p - c) \<le> unat (q - c) \<Longrightarrow> unat (q - (p :: u32)) = unat (q - c) - unat (p - c)"
  using unat_sub [of "p - c" "q - c"] by (simp add: word_le_nat_alt)

lemma dist_self [simp]: "n < 2 ^ 32 \<Longrightarrow> unat ((c + of_nat n) - (c :: u32)) = n"
  by (simp add: unat_of_nat take_bit_eq_mod)

lemma add_dist [simp]: "(c :: u32) + of_nat (unat (p - c)) = p"
  by simp

lemma add_dist_of_nat: "(c :: u32) + of_nat (unat (p - c) + j) = p + of_nat j"
  by simp

lemma dist_0_iff: "unat (p - (c :: u32)) = 0 \<longleftrightarrow> p = c"
  by (simp add: unat_eq_zero)

lemma pow_size_lt: "is_pow_of_two s \<Longrightarrow> unat s < 2 ^ 32"
  by (rule unat_u32_lt)

lemma kr_entries_upd [simp]:
  "kr_entries (k\<lparr>kr_ccons := x\<rparr>) = kr_entries k"
  "kr_entries (k\<lparr>kr_cprod := x\<rparr>) = kr_entries k"
  by (simp_all add: kr_entries_def kr_slot_def)

lemma map_upt_split: "n \<le> m \<Longrightarrow> map f [0..<m] = map f [0..<n] @ map (\<lambda>j. f (n + j)) [0..<m - n]"
  by (rule nth_equalityI) (auto simp: nth_append)

lemma kr_entries_release:
  assumes "n \<le> unat (kr_prod k - kr_cons k)"
  shows "kr_entries k = map (\<lambda>j. kr_mem k (kr_slot k (kr_cons k + of_nat j))) [0..<n]
         @ kr_entries (k\<lparr>kr_cons := kr_cons k + of_nat n\<rparr>)"
proof -
  have n: "n < 2 ^ 32" using assms unat_u32_lt le_less_trans by blast
  have "unat (kr_prod k - (kr_cons k + of_nat n)) = unat (kr_prod k - kr_cons k) - n"
    using dist_diff [of "kr_cons k + of_nat n" "kr_cons k" "kr_prod k"] assms dist_self [OF n]
    by metis
  then show ?thesis
    using assms by (simp add: kr_entries_def kr_slot_def map_upt_split [OF assms] add.assoc)
qed

lemma kr_entries_submit:
  assumes "unat (kr_prod k - kr_cons k) + n < 2 ^ 32"
  shows "kr_entries (k\<lparr>kr_prod := kr_prod k + of_nat n\<rparr>) =
         kr_entries k @ map (\<lambda>j. kr_mem k (kr_slot k (kr_prod k + of_nat j))) [0..<n]"
proof -
  let ?m = "unat (kr_prod k - kr_cons k)"
  let ?g = "\<lambda>j. kr_mem k (kr_slot k (kr_cons k + of_nat j))"
  have "map ?g [0..<?m + n] = map ?g [0..<?m] @ map (\<lambda>j. ?g (?m + j)) [0..<n]"
    using map_upt_split [of ?m "?m + n" ?g] by simp
  then show ?thesis
    by (simp add: kr_entries_def kr_slot_def dist_add [OF assms] add_dist_of_nat
        del: of_nat_add)
qed

lemma kr_entries_write:
  assumes ok: "kring_ok kd k" and kd: "kd \<in> {Fill, Tx}"
    and m: "m < unat (kr_cprod k - kr_prod k)"
  shows "kr_entries (k\<lparr>kr_mem := (kr_mem k)(kr_slot k (kr_prod k + of_nat m) := d)\<rparr>)
         = kr_entries k"
proof -
  let ?n = "unat (kr_prod k - kr_cons k)"
  have pow: "is_pow_of_two (kr_size k)" and le: "?n \<le> unat (kr_cprod k - kr_cons k)"
    and sz: "unat (kr_cprod k - kr_cons k) \<le> unat (kr_size k)"
    using ok kd by (auto simp: kring_ok_def)
  have fits: "?n + m < unat (kr_size k)" using m sz dist_diff [OF le] by simp
  have eq: "kr_prod k + of_nat m = kr_cons k + of_nat (?n + m)"
    by (rule add_dist_of_nat [symmetric])
  have "kr_slot k (kr_cons k + of_nat j) \<noteq> kr_slot k (kr_prod k + of_nat m)" if "j < ?n" for j
  proof
    assume "kr_slot k (kr_cons k + of_nat j) = kr_slot k (kr_prod k + of_nat m)"
    then have "j = ?n + m" using that fits unfolding eq kr_slot_def
      by (intro mask_index_inj [OF pow, of _ _ "kr_cons k"]) auto
    with that show False by simp
  qed
  then show ?thesis by (simp add: kr_entries_def kr_slot_def)
qed

lemma kr_slot_inj:
  assumes "kring_ok kd k" and "kd \<in> {Fill, Tx}"
    and "m < unat (kr_cprod k - kr_prod k)" and "j < unat (kr_cprod k - kr_prod k)"
    and "kr_slot k (kr_prod k + of_nat j) = kr_slot k (kr_prod k + of_nat m)"
  shows "j = m"
proof -
  have pow: "is_pow_of_two (kr_size k)"
    and le: "unat (kr_prod k - kr_cons k) \<le> unat (kr_cprod k - kr_cons k)"
    and sz: "unat (kr_cprod k - kr_cons k) \<le> unat (kr_size k)"
    using assms(1,2) by (auto simp: kring_ok_def)
  have "unat (kr_cprod k - kr_prod k) \<le> unat (kr_size k)" using dist_diff [OF le] sz by simp
  then show ?thesis
    using mask_index_inj [OF pow, of j m] assms(3-5) by (auto simp: kr_slot_def)
qed

section \<open>The world\<close>

type_synonym kring_id = "bool \<times> ring_kind"

record kworld =
  k_ring :: "kring_id \<Rightarrow> kring"
  k_pool :: "u64 list"
  k_wake :: bool
  k_errno :: int
  k_next :: "kring_id list"

definition set_ring :: "kring_id \<Rightarrow> kring \<Rightarrow> kworld \<Rightarrow> kworld" where
  "set_ring r k w = w\<lparr>k_ring := (k_ring w)(r := k)\<rparr>"

definition k_peek :: "kring_id \<Rightarrow> u64 \<Rightarrow> u32 \<Rightarrow> kworld \<Rightarrow> u64 \<times> u32 \<times> kworld" where
  "k_peek r nb i w =
     (let k = k_ring w r; n = min (unat (kr_prod k - kr_ccons k)) (unat nb) in
      if n = 0 then (0, i, w)
      else (of_nat n, kr_ccons k, set_ring r (k\<lparr>kr_ccons := kr_ccons k + of_nat n\<rparr>) w))"

definition k_release :: "kring_id \<Rightarrow> u64 \<Rightarrow> kworld \<Rightarrow> kworld" where
  "k_release r n w =
     (let k = k_ring w r in set_ring r (k\<lparr>kr_cons := kr_cons k + of_nat (unat n)\<rparr>) w)"

definition k_entry :: "kring_id \<Rightarrow> u32 \<Rightarrow> kworld \<Rightarrow> xdp_desc" where
  "k_entry r i w = (let k = k_ring w r in kr_mem k (kr_slot k i))"

definition k_reserve :: "kring_id \<Rightarrow> u64 \<Rightarrow> u32 \<Rightarrow> kworld \<Rightarrow> u64 \<times> u32 \<times> kworld" where
  "k_reserve r nb i w =
     (let k = k_ring w r in
      if nb \<noteq> 0 \<and> unat (kr_cprod k - kr_cons k) + unat nb \<le> unat (kr_size k)
      then (nb, kr_cprod k, set_ring r (k\<lparr>kr_cprod := kr_cprod k + of_nat (unat nb)\<rparr>) w)
      else (0, i, w))"

definition k_put :: "kring_id \<Rightarrow> u32 \<Rightarrow> (xdp_desc \<Rightarrow> xdp_desc) \<Rightarrow> kworld \<Rightarrow> kworld" where
  "k_put r i f w =
     (let k = k_ring w r; s = kr_slot k i in
      set_ring r (k\<lparr>kr_mem := (kr_mem k)(s := f (kr_mem k s))\<rparr>) w)"

definition k_submit :: "kring_id \<Rightarrow> u64 \<Rightarrow> kworld \<Rightarrow> kworld" where
  "k_submit r n w =
     (let k = k_ring w r in set_ring r (k\<lparr>kr_prod := kr_prod k + of_nat (unat n)\<rparr>) w)"

definition ref_api :: "(kring_id, kworld) xsk_api" where
  "ref_api = \<lparr>
     new_ring = (\<lambda>w. case k_next w of [] \<Rightarrow> ((False, Fill), w) | r # rs \<Rightarrow> (r, w\<lparr>k_next := rs\<rparr>)),
     umem_create = (\<lambda>area sz fq cq cfg w.
       if snd fq = Fill \<and> snd cq = Completion then (0, 4096, w) else (-1, 0, w)),
     umem_delete = (\<lambda>u w. w),
     socket_create = (\<lambda>ifn q u rx tx cfg w.
       if ifn = ''link1'' \<and> (\<forall>r \<in> set_option rx. snd r = Rx) \<and> (\<forall>r \<in> set_option tx. snd r = Tx)
       then (0, 8192, w) else (-1, 0, w)),
     socket_fd = (\<lambda>s w. 3),
     socket_delete = (\<lambda>s w. w),
     cons_peek = k_peek,
     cons_release = k_release,
     cons_comp_addr = (\<lambda>r i w. desc_addr (k_entry r i w)),
     cons_rx_desc = k_entry,
     prod_reserve = k_reserve,
     prod_put_fill = (\<lambda>r i a. k_put r i (\<lambda>d. d\<lparr>desc_addr := a\<rparr>)),
     prod_put_tx = k_put,
     prod_submit = k_submit,
     prod_needs_wakeup = (\<lambda>r w. if k_wake w then 1 else 0),
     XDP_FLAGS_UPDATE_IF_NOEXIST = 1,
     XDP_USE_NEED_WAKEUP = 8,
     XDP_ZEROCOPY = 4,
     XDP_COPY = 2,
     XSK_UMEM_DEFAULT_FRAME_HEADROOM = 0\<rparr>"

definition ref_libc :: "kworld libc_api" where
  "ref_libc = \<lparr>
     c_mmap = (\<lambda>a n prot fl fd off w. if unat n < 2 ^ 47 then (65536, w) else (-1, w)),
     c_munmap = (\<lambda>a n w. (0, w)),
     c_poll = (\<lambda>fd ev t w. (0, w)),
     c_sendto = (\<lambda>fd p n fl sa sl w. (if k_errno w = 0 then 0 else -1, w)),
     c_errno = k_errno,
     MAP_PRIVATE = 2, MAP_ANONYMOUS = 32, MAP_HUGETLB = 262144, MAP_FAILED = -1,
     PROT_READ = 1, PROT_WRITE = 2, MSG_DONTWAIT = 64, POLLIN = 1,
     ENOBUFS = 105, EAGAIN = 11, EBUSY = 16, ENETDOWN = 100\<rparr>"

definition k_ok :: "kworld \<Rightarrow> bool" where
  "k_ok w \<longleftrightarrow> (\<forall>r. kring_ok (snd r) (k_ring w r))"

definition k_held :: "kworld \<Rightarrow> u64 multiset" where
  "k_held w = mset (k_pool w) + (\<Sum>r \<in> UNIV. mset (map desc_addr (kr_entries (k_ring w r))))"

definition k_window :: "kring_id \<Rightarrow> kworld \<Rightarrow> u32 \<times> nat" where
  "k_window r w = kr_window (snd r) (k_ring w r)"

definition k_staged :: "kring_id \<Rightarrow> u32 \<Rightarrow> kworld \<Rightarrow> u64" where
  "k_staged r i w = desc_addr (k_entry r i w)"

section \<open>The instance satisfies the laws\<close>

lemma k_ring_set_ring [simp]: "k_ring (set_ring r k w) q = (if q = r then k else k_ring w q)"
  by (simp add: set_ring_def)

lemma k_ok_set_ring: "k_ok w \<Longrightarrow> kring_ok (snd r) k \<Longrightarrow> k_ok (set_ring r k w)"
  by (simp add: k_ok_def del: split_paired_All)

lemma k_okD: "k_ok w \<Longrightarrow> kring_ok (snd r) (k_ring w r)"
  by (simp add: k_ok_def del: split_paired_All)

lemma k_window_set_ring:
  "k_window q (set_ring r k w) = (if q = r then kr_window (snd r) k else k_window q w)"
  by (simp add: k_window_def)

lemma k_held_set_ring:
  "k_held (set_ring r k w) + mset (map desc_addr (kr_entries (k_ring w r)))
   = k_held w + mset (map desc_addr (kr_entries k))"
proof -
  let ?E = "\<lambda>g q. mset (map desc_addr (kr_entries (g q)))"
  have "sum (?E (k_ring (set_ring r k w))) (UNIV - {r}) = sum (?E (k_ring w)) (UNIV - {r})"
    by (rule sum.cong) auto
  then show ?thesis
    using sum.remove [of UNIV r "?E (k_ring w)"]
      sum.remove [of UNIV r "?E (k_ring (set_ring r k w))"]
    by (simp add: k_held_def set_ring_def add_ac)
qed

lemma k_held_same:
  "kr_entries k = kr_entries (k_ring w r) \<Longrightarrow> k_held (set_ring r k w) = k_held w"
  using k_held_set_ring [of r k w] by simp

lemmas ref_api_simps = ref_api_def ref_libc_def k_peek_def k_release_def k_entry_def k_reserve_def
  k_put_def k_submit_def k_staged_def Let_def

lemma k_peek_cases:
  assumes ok: "k_ok w" and cons: "snd r \<in> {Completion, Rx}" and closed: "snd (k_window r w) = 0"
    and pk: "k_peek r nb i w = (n, j, w')"
  shows "(n = 0 \<and> j = i \<and> w' = w) \<or>
         (n \<noteq> 0 \<and> n \<le> nb \<and> j = kr_cons (k_ring w r) \<and>
          unat n \<le> unat (kr_prod (k_ring w r) - kr_cons (k_ring w r)) \<and>
          w' = set_ring r ((k_ring w r)\<lparr>kr_ccons := kr_cons (k_ring w r) + of_nat (unat n)\<rparr>) w)"
proof (cases "min (unat (kr_prod (k_ring w r) - kr_ccons (k_ring w r))) (unat nb) = 0")
  case True
  with pk show ?thesis by (simp add: k_peek_def Let_def)
next
  case False
  let ?k = "k_ring w r" and ?m = "min (unat (kr_prod (k_ring w r) - kr_ccons (k_ring w r))) (unat nb)"
  have c: "kr_ccons ?k = kr_cons ?k"
    using closed cons by (auto simp: k_window_def kr_window_def dist_0_iff)
  have n: "n = of_nat ?m" and j: "j = kr_ccons ?k"
    and w': "w' = set_ring r (?k\<lparr>kr_ccons := kr_ccons ?k + of_nat ?m\<rparr>) w"
    using pk False by (auto simp: k_peek_def Let_def)
  have m: "unat n = ?m" unfolding n using unat_u64_lt [of nb] by (intro unat_of_nat_u64) simp
  with False have "n \<noteq> 0" by (metis unat_0)
  with m j w' c show ?thesis by (simp add: word_le_nat_alt)
qed


lemma kring_ok_peek:
  assumes "kring_ok kd k" and "kd \<in> {Completion, Rx}"
    and n: "n \<le> unat (kr_prod k - kr_cons k)"
  shows "kring_ok kd (k\<lparr>kr_ccons := kr_cons k + of_nat n\<rparr>)"
    and "kr_window kd (k\<lparr>kr_ccons := kr_cons k + of_nat n\<rparr>) = (kr_cons k, n)"
proof -
  have "n < 2 ^ 32" using n unat_u32_lt le_less_trans by blast
  then show "kring_ok kd (k\<lparr>kr_ccons := kr_cons k + of_nat n\<rparr>)"
    and "kr_window kd (k\<lparr>kr_ccons := kr_cons k + of_nat n\<rparr>) = (kr_cons k, n)"
    using assms dist_self [of n "kr_cons k"] by (auto simp: kring_ok_def kr_window_def)
qed

lemma kring_ok_release:
  assumes ok: "kring_ok kd k" and kd: "kd \<in> {Completion, Rx}"
    and win: "kr_window kd k = (i, n)"
  shows "i = kr_cons k"
    and "kring_ok kd (k\<lparr>kr_cons := kr_cons k + of_nat n\<rparr>)"
    and "snd (kr_window kd (k\<lparr>kr_cons := kr_cons k + of_nat n\<rparr>)) = 0"
    and "kr_entries k = map (\<lambda>j. kr_mem k (kr_slot k (kr_cons k + of_nat j))) [0..<n]
         @ kr_entries (k\<lparr>kr_cons := kr_cons k + of_nat n\<rparr>)"
proof -
  let ?k = "k\<lparr>kr_cons := kr_cons k + of_nat n\<rparr>"
  from win kd have i: "i = kr_cons k" and n: "n = unat (kr_ccons k - kr_cons k)"
    by (auto simp: kr_window_def)
  have le: "n \<le> unat (kr_prod k - kr_cons k)" using ok kd n by (auto simp: kring_ok_def)
  have cc: "kr_cons k + of_nat n = kr_ccons k" by (simp add: n)
  have ents: "kr_entries k = map (\<lambda>j. kr_mem k (kr_slot k (kr_cons k + of_nat j))) [0..<n]
      @ kr_entries ?k"
    by (rule kr_entries_release [OF le])
  have "unat (kr_prod k - kr_ccons k) = unat (kr_prod k - kr_cons k) - n"
    using dist_diff [of "kr_ccons k" "kr_cons k" "kr_prod k"] le n by simp
  moreover have "set (kr_entries ?k) \<subseteq> set (kr_entries k)" by (simp add: ents)
  ultimately have "kring_ok kd ?k" using ok kd by (auto simp: kring_ok_def cc)
  with i ents kd show "i = kr_cons k" "kring_ok kd ?k" "snd (kr_window kd ?k) = 0"
    "kr_entries k = map (\<lambda>j. kr_mem k (kr_slot k (kr_cons k + of_nat j))) [0..<n]
         @ kr_entries ?k"
    by (auto simp: kr_window_def cc)
qed

lemma kring_ok_reserve:
  assumes ok: "kring_ok kd k" and kd: "kd \<in> {Fill, Tx}" and closed: "snd (kr_window kd k) = 0"
    and fits: "unat (kr_cprod k - kr_cons k) + n \<le> unat (kr_size k)"
  shows "kring_ok kd (k\<lparr>kr_cprod := kr_cprod k + of_nat n\<rparr>)"
    and "kr_window kd (k\<lparr>kr_cprod := kr_cprod k + of_nat n\<rparr>) = (kr_cprod k, n)"
proof -
  have lt: "unat (kr_cprod k - kr_cons k) + n < 2 ^ 32"
    using fits unat_u32_lt le_less_trans by blast
  have p: "kr_cprod k = kr_prod k"
    using closed kd by (auto simp: kr_window_def dist_0_iff)
  have "unat (kr_cprod k + of_nat n - kr_cons k) = unat (kr_cprod k - kr_cons k) + n"
    by (rule dist_add [OF lt])
  then show "kring_ok kd (k\<lparr>kr_cprod := kr_cprod k + of_nat n\<rparr>)"
    using ok kd fits by (auto simp: kring_ok_def p)
  show "kr_window kd (k\<lparr>kr_cprod := kr_cprod k + of_nat n\<rparr>) = (kr_cprod k, n)"
    using kd lt dist_self [of n "kr_prod k"] by (auto simp: kr_window_def p)
qed

lemma kring_ok_put:
  assumes ok: "kring_ok kd k" and kd: "kd \<in> {Fill, Tx}" and win: "kr_window kd k = (i, n)"
    and m: "m < n"
  shows "kr_entries (k\<lparr>kr_mem := (kr_mem k)(kr_slot k (i + of_nat m) := d)\<rparr>) = kr_entries k"
    and "kring_ok kd (k\<lparr>kr_mem := (kr_mem k)(kr_slot k (i + of_nat m) := d)\<rparr>)"
    and "j < n \<Longrightarrow> kr_slot k (i + of_nat j) = kr_slot k (i + of_nat m) \<longleftrightarrow> j = m"
proof -
  from win kd have i: "i = kr_prod k" and n: "n = unat (kr_cprod k - kr_prod k)"
    by (auto simp: kr_window_def)
  show e: "kr_entries (k\<lparr>kr_mem := (kr_mem k)(kr_slot k (i + of_nat m) := d)\<rparr>) = kr_entries k"
    using m by (simp only: i n) (rule kr_entries_write [OF ok kd])
  show "kring_ok kd (k\<lparr>kr_mem := (kr_mem k)(kr_slot k (i + of_nat m) := d)\<rparr>)"
    using ok kd by (auto simp: kring_ok_def e)
  show "kr_slot k (i + of_nat j) = kr_slot k (i + of_nat m) \<longleftrightarrow> j = m" if "j < n"
    using kr_slot_inj [OF ok kd, of m j] m that by (auto simp: i n)
qed

lemma kring_ok_submit:
  assumes ok: "kring_ok kd k" and kd: "kd \<in> {Fill, Tx}" and win: "kr_window kd k = (i, n)"
  shows "i = kr_prod k"
    and "kring_ok kd (k\<lparr>kr_prod := kr_prod k + of_nat n\<rparr>)"
    and "snd (kr_window kd (k\<lparr>kr_prod := kr_prod k + of_nat n\<rparr>)) = 0"
    and "kr_entries (k\<lparr>kr_prod := kr_prod k + of_nat n\<rparr>) =
         kr_entries k @ map (\<lambda>j. kr_mem k (kr_slot k (kr_prod k + of_nat j))) [0..<n]"
proof -
  from win kd have i: "i = kr_prod k" and n: "n = unat (kr_cprod k - kr_prod k)"
    by (auto simp: kr_window_def)
  have le: "unat (kr_prod k - kr_cons k) \<le> unat (kr_cprod k - kr_cons k)"
    and sz: "unat (kr_cprod k - kr_cons k) \<le> unat (kr_size k)"
    using ok kd by (auto simp: kring_ok_def)
  have sum: "unat (kr_prod k - kr_cons k) + n = unat (kr_cprod k - kr_cons k)"
    using dist_diff [OF le] le by (simp add: n)
  have cp: "kr_prod k + of_nat n = kr_cprod k" by (simp add: n)
  from kd ok show "kring_ok kd (k\<lparr>kr_prod := kr_prod k + of_nat n\<rparr>)"
    unfolding cp using sz by (auto simp: kring_ok_def)
  show "i = kr_prod k" by (rule i)
  show "snd (kr_window kd (k\<lparr>kr_prod := kr_prod k + of_nat n\<rparr>)) = 0"
    unfolding cp using kd by (auto simp: kr_window_def)
  show "kr_entries (k\<lparr>kr_prod := kr_prod k + of_nat n\<rparr>) =
         kr_entries k @ map (\<lambda>j. kr_mem k (kr_slot k (kr_prod k + of_nat j))) [0..<n]"
    by (rule kr_entries_submit) (use sum unat_u32_lt [of "kr_cprod k - kr_cons k"] in simp)
qed


lemma k_held_append:
  assumes "kr_entries (k_ring w r) = es @ kr_entries k"
  shows "k_held w = k_held (set_ring r k w) + mset (map desc_addr es)"
  using k_held_set_ring [of r k w] assms by (simp add: add_ac)

lemma k_held_prepend:
  assumes "kr_entries k = kr_entries (k_ring w r) @ es"
  shows "k_held (set_ring r k w) = k_held w + mset (map desc_addr es)"
  using k_held_set_ring [of r k w] assms by (simp add: add_ac)

lemma k_window_kr: "k_window r w = (i, n) \<longleftrightarrow> kr_window (snd r) (k_ring w r) = (i, n)"
  by (simp add: k_window_def)

lemma k_release_facts:
  assumes ok: "k_ok w" and kd: "snd r \<in> {Completion, Rx}" and win: "k_window r w = (i, unat n)"
  shows "k_ok (k_release r n w)" and "snd (k_window r (k_release r n w)) = 0"
    and "q \<noteq> r \<Longrightarrow> k_window q (k_release r n w) = k_window q w"
    and "k_held w = k_held (k_release r n w)
         + mset (map (\<lambda>k. desc_addr (k_entry r (i + of_nat k) w)) [0..<unat n])"
proof -
  note f = kring_ok_release [OF k_okD [OF ok] kd win [unfolded k_window_kr]]
  show "k_ok (k_release r n w)"
    using k_ok_set_ring [OF ok f(2)] by (simp add: k_release_def Let_def)
  show "snd (k_window r (k_release r n w)) = 0"
    using f(3) by (simp add: k_release_def Let_def k_window_set_ring)
  show "q \<noteq> r \<Longrightarrow> k_window q (k_release r n w) = k_window q w"
    by (simp add: k_release_def Let_def k_window_set_ring)
  show "k_held w = k_held (k_release r n w)
         + mset (map (\<lambda>k. desc_addr (k_entry r (i + of_nat k) w)) [0..<unat n])"
    using k_held_append [OF f(4)]
    by (simp only: k_release_def Let_def k_entry_def f(1) map_map comp_def)
qed

lemma k_reserve_facts:
  assumes ok: "k_ok w" and kd: "snd r \<in> {Fill, Tx}" and closed: "snd (k_window r w) = 0"
    and rs: "k_reserve r nb i w = (n, j, w')"
  shows "k_ok w' \<and> k_held w' = k_held w \<and> (n = nb \<or> n = 0) \<and>
         snd (k_window r w') = unat n \<and> (n \<noteq> 0 \<longrightarrow> fst (k_window r w') = j) \<and>
         (\<forall>q. q \<noteq> r \<longrightarrow> k_window q w' = k_window q w)"
proof (cases "n = 0")
  case True
  with rs have "w' = w" by (auto simp: k_reserve_def Let_def split: if_splits)
  with True ok closed show ?thesis by simp
next
  case False
  let ?k = "k_ring w r"
  from False rs have fits: "unat (kr_cprod ?k - kr_cons ?k) + unat nb \<le> unat (kr_size ?k)"
    and n: "n = nb" and j: "j = kr_cprod ?k"
    and w': "w' = set_ring r (?k\<lparr>kr_cprod := kr_cprod ?k + of_nat (unat nb)\<rparr>) w"
    by (auto simp: k_reserve_def Let_def split: if_splits)
  note f = kring_ok_reserve [OF k_okD [OF ok] kd closed [unfolded k_window_def] fits]
  from k_ok_set_ring [OF ok f(1)] f(2) show ?thesis
    by (simp add: w' n j k_held_same k_window_set_ring)
qed

lemma k_put_facts:
  assumes ok: "k_ok w" and kd: "snd r \<in> {Fill, Tx}" and win: "k_window r w = (i, n)" and m: "m < n"
  shows "k_ok (k_put r (i + of_nat m) f w)" and "k_held (k_put r (i + of_nat m) f w) = k_held w"
    and "k_window q (k_put r (i + of_nat m) f w) = k_window q w"
    and "j < n \<Longrightarrow> k_entry r (i + of_nat j) (k_put r (i + of_nat m) f w) =
         (if j = m then f (k_entry r (i + of_nat m) w) else k_entry r (i + of_nat j) w)"
proof -
  note g = kring_ok_put [OF k_okD [OF ok] kd win [unfolded k_window_kr] m]
  show "k_ok (k_put r (i + of_nat m) f w)"
    using k_ok_set_ring [OF ok g(2)] by (simp add: k_put_def Let_def)
  show "k_held (k_put r (i + of_nat m) f w) = k_held w"
    using k_held_same [OF g(1)] by (simp add: k_put_def Let_def)
  show "k_window q (k_put r (i + of_nat m) f w) = k_window q w"
    by (simp add: k_put_def Let_def k_window_set_ring) (simp add: k_window_def kr_window_def)
  show "j < n \<Longrightarrow> k_entry r (i + of_nat j) (k_put r (i + of_nat m) f w) =
         (if j = m then f (k_entry r (i + of_nat m) w) else k_entry r (i + of_nat j) w)"
    using g(3) [of j] by (auto simp: k_put_def k_entry_def Let_def kr_slot_def)
qed

lemma k_submit_facts:
  assumes ok: "k_ok w" and kd: "snd r \<in> {Fill, Tx}" and win: "k_window r w = (i, unat n)"
  shows "k_ok (k_submit r n w)" and "snd (k_window r (k_submit r n w)) = 0"
    and "q \<noteq> r \<Longrightarrow> k_window q (k_submit r n w) = k_window q w"
    and "k_held (k_submit r n w) = k_held w
         + mset (map (\<lambda>k. desc_addr (k_entry r (i + of_nat k) w)) [0..<unat n])"
proof -
  note f = kring_ok_submit [OF k_okD [OF ok] kd win [unfolded k_window_kr]]
  show "k_ok (k_submit r n w)"
    using k_ok_set_ring [OF ok f(2)] by (simp add: k_submit_def Let_def)
  show "snd (k_window r (k_submit r n w)) = 0"
    using f(3) by (simp add: k_submit_def Let_def k_window_set_ring)
  show "q \<noteq> r \<Longrightarrow> k_window q (k_submit r n w) = k_window q w"
    by (simp add: k_submit_def Let_def k_window_set_ring)
  show "k_held (k_submit r n w) = k_held w
         + mset (map (\<lambda>k. desc_addr (k_entry r (i + of_nat k) w)) [0..<unat n])"
    using k_held_prepend [OF f(4)]
    by (simp only: k_submit_def Let_def k_entry_def f(1) map_map comp_def)
qed

lemma k_rx_len:
  assumes ok: "k_ok w" and kd: "snd r = Rx" and win: "k_window r w = (i, n)" and k: "k < n"
  shows "unat (desc_len (k_entry r (i + of_nat k) w)) < 2 ^ 16"
proof -
  let ?r = "k_ring w r"
  have rok: "kring_ok Rx ?r" using k_okD [OF ok, of r] kd by simp
  have i: "i = kr_cons ?r" and n: "n = unat (kr_ccons ?r - kr_cons ?r)"
    using win kd by (auto simp: k_window_def kr_window_def)
  have "k < unat (kr_prod ?r - kr_cons ?r)" using rok k n by (auto simp: kring_ok_def)
  then have "k_entry r (i + of_nat k) w \<in> set (kr_entries ?r)"
    by (auto simp: kr_entries_def k_entry_def Let_def i)
  with rok show ?thesis by (auto simp: kring_ok_def)
qed

interpretation refk: xsk_rings ref_api k_ok k_held snd k_window k_staged ref_libc
proof (unfold_locales, goal_cases)
  case (1 w r nb i n j w')
  then show ?case
    using k_peek_cases [of w r nb i n j w'] kring_ok_peek(1) [of "snd r" "k_ring w r" "unat n"]
      k_okD [of w r] k_ok_set_ring [of w r]
    by (auto simp: ref_api_def)
next
  case (2 w r nb i n j w')
  then show ?case using k_peek_cases [of w r nb i n j w'] by (auto simp: ref_api_def k_held_same)
next
  case (3 w r nb i n j w')
  then show ?case using k_peek_cases [of w r nb i n j w'] by (auto simp: ref_api_def)
next
  case (4 w r nb i n j w')
  then show ?case
    using k_peek_cases [of w r nb i n j w'] kring_ok_peek(2) [of "snd r" "k_ring w r" "unat n"]
      k_okD [of w r]
    by (auto simp: ref_api_def k_window_set_ring)
next
  case (5 w r nb i n j w')
  then show ?case using k_peek_cases [of w r nb i n j w'] by (auto simp: ref_api_def k_window_set_ring)
next
  case (6 w r i cnt k)
  then show ?case using k_rx_len by (auto simp: ref_api_def)
next
  case (7 w r i n)
  then show ?case using k_release_facts(1) by (simp add: ref_api_def)
next
  case (8 w r i n)
  then show ?case using k_release_facts(2) by (simp add: ref_api_def)
next
  case (9 w r i n q)
  then show ?case using k_release_facts(3) by (simp add: ref_api_def)
next
  case (10 w r i n)
  then show ?case using k_release_facts(4) [of w r i n] by (simp add: ref_api_def comp_entries_def)
next
  case (11 w r i n)
  then show ?case using k_release_facts(4) [of w r i n]
    by (simp add: ref_api_def rx_entries_def comp_def)
next
  case (12 w r nb i n j w')
  then show ?case using k_reserve_facts [of w r nb i n j w'] by (simp add: ref_api_def)
next
  case (13 w r nb i n j w')
  then show ?case using k_reserve_facts [of w r nb i n j w'] by (simp add: ref_api_def)
next
  case (14 w r nb i n j w')
  then show ?case using k_reserve_facts [of w r nb i n j w'] by (simp add: ref_api_def)
next
  case (15 w r nb i n j w')
  then show ?case using k_reserve_facts [of w r nb i n j w'] by (simp add: ref_api_def)
next
  case (16 w r nb i n j w' q)
  then show ?case using k_reserve_facts [of w r nb i n j w']
    by (simp add: ref_api_def del: split_paired_All)
next
  case (17 w r i cnt k w' a)
  then show ?case using k_put_facts [of w r i cnt k] by (simp add: ref_api_def del: split_paired_All)
next
  case (18 w r i cnt k m a)
  then show ?case using k_put_facts(4) [of w r i cnt k m]
    by (simp add: ref_api_def k_staged_def)
next
  case (19 w r i cnt k w' f)
  then show ?case using k_put_facts [of w r i cnt k] by (simp add: ref_api_def del: split_paired_All)
next
  case (20 w r i cnt k m f a)
  then show ?case using k_put_facts(4) [of w r i cnt k m]
    by (simp add: ref_api_def k_staged_def)
next
  case (21 w r i n)
  then show ?case using k_submit_facts(1) by (simp add: ref_api_def)
next
  case (22 w r i n)
  then show ?case using k_submit_facts(2) by (simp add: ref_api_def)
next
  case (23 w r i n q)
  then show ?case using k_submit_facts(3) by (simp add: ref_api_def)
next
  case (24 w r i n)
  then show ?case using k_submit_facts(4) [of w r i n] by (simp add: ref_api_def k_staged_def)
next
  case (25 w fd ev t res w')
  then show ?case by (simp add: ref_libc_def)
next
  case (26 w fd p n fl sa sl res w')
  then show ?case by (simp add: ref_libc_def)
qed

interpretation refos: os_mmap ref_libc
proof
  fix a n prot fl fd off and w w' :: kworld and p
  assume "c_mmap ref_libc a n prot fl fd off w = (p, w')" and "p \<noteq> MAP_FAILED ref_libc"
  then have "p = 65536" and "unat n < 2 ^ 47" by (auto simp: ref_libc_def split: if_splits)
  then show "unat p + unat n \<le> 2 ^ 64" by simp
qed

section \<open>Example worlds\<close>

text \<open>
  A ring of \<open>s\<close> slots whose counters start at \<open>c\<close> and that holds the given entries, and the
  world in which every ring is such a ring.
\<close>

definition mk_kring :: "u32 \<Rightarrow> u32 \<Rightarrow> xdp_desc list \<Rightarrow> kring" where
  "mk_kring s c ds = \<lparr>kr_size = s,
     kr_mem = (\<lambda>i. let j = unat ((i - (c AND (s - 1))) AND (s - 1)) in
                   if j < length ds then ds ! j
                   else \<lparr>desc_addr = 0, desc_len = 0, desc_options = 0\<rparr>),
     kr_prod = c + of_nat (length ds), kr_cons = c,
     kr_cprod = c + of_nat (length ds), kr_ccons = c\<rparr>"

definition mk_world :: "(kring_id \<Rightarrow> xdp_desc list) \<Rightarrow> u32 \<Rightarrow> kworld" where
  "mk_world g c = \<lparr>k_ring = (\<lambda>r. mk_kring 4 c (g r)), k_pool = [], k_wake = True, k_errno = 0,
                 k_next = [(False, Completion), (False, Fill), (False, Rx), (False, Tx)]\<rparr>"

definition mk_desc :: "u64 \<Rightarrow> u32 \<Rightarrow> xdp_desc" where
  "mk_desc a l = \<lparr>desc_addr = a, desc_len = l, desc_options = 0\<rparr>"

lemma take_bit_word_diff:
  "take_bit n (take_bit n a - take_bit n b) = take_bit n (a - (b :: 'a::len word))"
proof (transfer, goal_cases)
  case (1 n a b)
  show ?case by (cases "n \<le> LENGTH('a)") (simp_all add: take_bit_diff min_def)
qed

lemma mk_kring_mem:
  assumes "j < length ds" and "length ds \<le> 4"
  shows "kr_mem (mk_kring 4 c ds) (kr_slot (mk_kring 4 c ds) (c + of_nat j)) = ds ! j"
proof -
  have m: "x AND 3 = take_bit 2 x" for x :: u32
    by (simp add: take_bit_eq_mask mask_eq_exp_minus_1)
  have "((c + of_nat j AND 3) - (c AND 3)) AND (3 :: u32) = take_bit 2 (of_nat j)"
    unfolding m take_bit_word_diff by simp
  also have "unat (take_bit 2 (of_nat j :: u32)) = j"
    using assms by (simp add: unat_mod unat_of_nat take_bit_eq_mod)
  finally show ?thesis using assms by (simp add: mk_kring_def kr_slot_def)
qed

lemma mk_kring_entries: "length ds \<le> 4 \<Longrightarrow> kr_entries (mk_kring 4 c ds) = ds"
proof -
  assume l: "length ds \<le> 4"
  then have "unat (kr_prod (mk_kring 4 c ds) - kr_cons (mk_kring 4 c ds)) = length ds"
    using dist_self [of "length ds" c] by (simp add: mk_kring_def)
  then show ?thesis
    unfolding kr_entries_def using mk_kring_mem [OF _ l, of _ c]
    by (intro nth_equalityI) (simp_all add: mk_kring_def)
qed

lemma mk_world_sel [simp]:
  "k_ring (mk_world g c) r = mk_kring 4 c (g r)" "k_pool (mk_world g c) = []"
  "k_wake (mk_world g c)" "k_errno (mk_world g c) = 0"
  by (simp_all add: mk_world_def)

lemma mk_world_ok:
  assumes "\<And>r. length (g r) \<le> 4"
    and "\<And>b. \<forall>d \<in> set (g (b, Rx)). unat (desc_len d) < 2 ^ 16"
  shows "k_ok (mk_world g c)"
  unfolding k_ok_def
proof
  fix r :: kring_id
  have d: "unat (kr_prod (mk_kring 4 c (g r)) - kr_cons (mk_kring 4 c (g r))) = length (g r)"
    using dist_self [of "length (g r)" c] assms(1) [of r] by (simp add: mk_kring_def)
  have p: "is_pow_of_two 4" by (simp add: is_pow_of_two_def)
  have "kring_ok (snd r) (mk_kring 4 c (g r))"
    unfolding kring_ok_def mk_kring_entries [OF assms(1)] d
    using assms(1) [of r] assms(2) [of "fst r"] p dist_self [of "length (g r)" c]
    by (cases r) (simp add: mk_kring_def)
  then show "kring_ok (snd r) (k_ring (mk_world g c) r)" by simp
qed

lemma mk_world_window: "length (g r) \<le> 4 \<Longrightarrow> snd (k_window r (mk_world g c)) = 0"
  by (simp add: k_window_def kr_window_def mk_kring_def)

lemma mk_world_held:
  assumes "\<And>r. length (g r) \<le> 4"
  shows "k_held (mk_world g c) = (\<Sum>r \<in> UNIV. mset (map desc_addr (g r)))"
  unfolding k_held_def by (simp add: mk_kring_entries assms)

lemma UNIV_ring_id:
  "(UNIV :: kring_id set) = {(False, Fill), (False, Completion), (False, Rx), (False, Tx),
     (True, Fill), (True, Completion), (True, Rx), (True, Tx)}"
  by (auto intro: ring_kind.exhaust)

end
