(* ===== verification/Mmap_Area.thy ===== *)
theory Mmap_Area
  imports Reference_Kernel
begin

text \<open>
  \<open>src/mmap_area.rs\<close>: the mapped memory that umems share, cut into frames of \<open>buf_len\<close>
  bytes. A buffer covers a frame except its first \<open>AF_XDP_RESERVED\<close> bytes, which the kernel
  keeps for itself. \<open>ma_wf\<close> is the geometry a successful construction establishes, and the
  frame lemmas say that under it buffers on different frames never overlap and stay inside the
  mapping; every later component refers to frames by their \<open>frame_addr\<close>.
\<close>

section \<open>Data\<close>

definition AF_XDP_RESERVED :: u64 where
  "AF_XDP_RESERVED = 256"

record mmap_area =
  buf_num :: usize
  buf_len :: usize
  ma_ptr :: u64

record mmap_area_options =
  huge_tlb :: bool

datatype mmap_error = MmapFailed

text \<open>\<open>ptr.offset(addr as isize)\<close>: two's complement addition to the pointer.\<close>

definition ptr_offset :: "u64 \<Rightarrow> u64 \<Rightarrow> u64" where
  "ptr_offset p a = p + a"

section \<open>Construction and release\<close>

primrec new_bufs :: "profile \<Rightarrow> mmap_area \<Rightarrow> usize \<Rightarrow> 'u \<Rightarrow> nat \<Rightarrow> usize \<Rightarrow> 'u buf_mmap vec
    \<Rightarrow> 'u buf_mmap vec outcome" where
  "new_bufs prof ma avail dflt 0 i bs = Ret bs"
| "new_bufs prof ma avail dflt (Suc k) i bs =
     bnd (usize_mul prof i (buf_len ma)) (\<lambda>start.
     bnd (u64_add prof (of_nat start) AF_XDP_RESERVED) (\<lambda>addr.
       new_bufs prof ma avail dflt k (Suc i)
         (vec_push bs
           \<lparr>bm_addr = addr, bm_len = 0,
            bm_data = \<lparr>sl_ptr = ptr_offset (ma_ptr ma) addr, sl_len = avail\<rparr>,
            bm_user = dflt\<rparr>)))"

definition mmap_area_new :: "'w libc_api \<Rightarrow> profile \<Rightarrow> 'u \<Rightarrow> usize \<Rightarrow> usize \<Rightarrow> mmap_area_options
    \<Rightarrow> 'w \<Rightarrow> ((mmap_area \<times> 'u buf_mmap vec, mmap_error) result \<times> 'w) outcome" where
  "mmap_area_new libc prof dflt num len options w =
     (let flags = MAP_PRIVATE libc OR MAP_ANONYMOUS libc;
          flags = (if huge_tlb options then flags OR MAP_HUGETLB libc else flags) in
      bnd (usize_mul prof num len) (\<lambda>size.
        let (p, w) = c_mmap libc 0 (of_nat size) (PROT_READ libc OR PROT_WRITE libc) flags
                       (-1) 0 w in
        if p = MAP_FAILED libc then Ret (Err MmapFailed, w)
        else
          let ma = \<lparr>buf_num = num, buf_len = len, ma_ptr = p\<rparr> in
          bnd (usize_sub prof len (unat AF_XDP_RESERVED)) (\<lambda>avail.
          bnd (new_bufs prof ma avail dflt num 0 (vec_with_capacity num)) (\<lambda>bs.
            Ret (Ok (ma, bs), w)))))"

text \<open>
  \<open>Drop\<close>. The second component of the result is the errno the code prints when \<open>munmap\<close>
  fails.
\<close>

definition mmap_area_drop :: "'w libc_api \<Rightarrow> profile \<Rightarrow> mmap_area \<Rightarrow> 'w
    \<Rightarrow> (c_int option \<times> 'w) outcome" where
  "mmap_area_drop libc prof ma w =
     (if ma_ptr ma = MAP_FAILED libc then Ret (None, w)
      else bnd (usize_mul prof (buf_num ma) (buf_len ma)) (\<lambda>size.
        let (r, w) = c_munmap libc (ma_ptr ma) (of_nat size) w in
        if r \<noteq> 0 then Ret (Some (c_errno libc w), w) else Ret (None, w)))"

definition get_ptr :: "mmap_area \<Rightarrow> u64" where
  "get_ptr ma = ma_ptr ma"

definition get_buf_num :: "mmap_area \<Rightarrow> usize" where
  "get_buf_num ma = buf_num ma"

definition get_buf_len :: "mmap_area \<Rightarrow> usize" where
  "get_buf_len ma = buf_len ma"

section \<open>Frames\<close>

definition ma_wf :: "mmap_area \<Rightarrow> bool" where
  "ma_wf ma \<longleftrightarrow> unat AF_XDP_RESERVED \<le> buf_len ma \<and> buf_num ma * buf_len ma < 2 ^ 64
             \<and> unat (ma_ptr ma) + buf_num ma * buf_len ma \<le> 2 ^ 64"

definition frame_addr :: "mmap_area \<Rightarrow> nat \<Rightarrow> u64" where
  "frame_addr ma i = of_nat (i * buf_len ma + unat AF_XDP_RESERVED)"

definition frame_addrs :: "mmap_area \<Rightarrow> u64 list" where
  "frame_addrs ma = map (frame_addr ma) [0..<buf_num ma]"

definition frame_slice :: "mmap_area \<Rightarrow> u64 \<Rightarrow> slice" where
  "frame_slice ma a =
     \<lparr>sl_ptr = ptr_offset (ma_ptr ma) a, sl_len = buf_len ma - unat AF_XDP_RESERVED\<rparr>"

text \<open>The buffer that lies on the frame of address \<open>a\<close>.\<close>

definition frame_buf :: "mmap_area \<Rightarrow> u64 \<Rightarrow> u16 \<Rightarrow> 'u \<Rightarrow> 'u buf_mmap" where
  "frame_buf ma a l u = \<lparr>bm_addr = a, bm_len = l, bm_data = frame_slice ma a, bm_user = u\<rparr>"

lemma frame_buf_sel [simp]:
  "bm_addr (frame_buf ma a l u) = a" "bm_len (frame_buf ma a l u) = l"
  "bm_data (frame_buf ma a l u) = frame_slice ma a" "bm_user (frame_buf ma a l u) = u"
  by (simp_all add: frame_buf_def)

lemma reserved_unat [simp]: "unat AF_XDP_RESERVED = 256"
  by (simp add: AF_XDP_RESERVED_def)

lemma frame_le: "i < buf_num ma \<Longrightarrow> i * buf_len ma + buf_len ma \<le> buf_num ma * buf_len ma"
  by (metis Suc_leI add.commute mult_Suc mult_le_mono1)

lemma frame_addr_unat:
  assumes "ma_wf ma" and "i < buf_num ma"
  shows "unat (frame_addr ma i) = i * buf_len ma + 256"
proof -
  have "i * buf_len ma + unat AF_XDP_RESERVED < 2 ^ 64"
    using assms frame_le [OF assms(2)] by (auto simp: ma_wf_def)
  then show ?thesis unfolding frame_addr_def
    using unat_of_nat_u64 [of "i * buf_len ma + unat AF_XDP_RESERVED"] by (simp del: of_nat_add of_nat_mult)
qed

lemma frame_slice_start:
  assumes "ma_wf ma" and "i < buf_num ma" and "256 < buf_len ma"
  shows "unat (sl_ptr (frame_slice ma (frame_addr ma i)))
         = unat (ma_ptr ma) + i * buf_len ma + 256"
proof -
  have "unat (ma_ptr ma) + (i * buf_len ma + 256) < 2 ^ 64"
    using assms frame_le [OF assms(2)] by (auto simp: ma_wf_def)
  then show ?thesis
    using of_nat_u64_unat_add [of "ma_ptr ma" "i * buf_len ma + 256"]
    by (simp add: frame_slice_def ptr_offset_def frame_addr_def algebra_simps)
qed

lemma frame_slice_addrs:
  assumes "ma_wf ma" and "i < buf_num ma"
  shows "slice_addrs (frame_slice ma (frame_addr ma i))
         = {unat (ma_ptr ma) + i * buf_len ma + 256..<unat (ma_ptr ma) + i * buf_len ma + buf_len ma}"
proof (cases "buf_len ma = 256")
  case True
  then show ?thesis by (simp add: slice_addrs_def frame_slice_def)
next
  case False
  with assms have "256 < buf_len ma" by (simp add: ma_wf_def)
  then show ?thesis using frame_slice_start [OF assms]
    by (simp add: slice_addrs_def) (simp add: frame_slice_def add.assoc)
qed

lemma frame_slice_mapped:
  assumes "ma_wf ma" and "i < buf_num ma"
  shows "slice_mapped (frame_slice ma (frame_addr ma i))"
proof (cases "buf_len ma = 256")
  case True
  then show ?thesis
    using unat_u64_lt [of "sl_ptr (frame_slice ma (frame_addr ma i))"]
    by (simp add: slice_mapped_def frame_slice_def)
next
  case False
  then have l: "256 < buf_len ma" using assms(1) by (simp add: ma_wf_def)
  show ?thesis
    using frame_slice_start [OF assms l] frame_le [OF assms(2)] assms(1) l
    by (simp add: slice_mapped_def frame_slice_def ma_wf_def)
qed

lemma frame_slice_mapped_addr:
  "ma_wf ma \<Longrightarrow> a \<in> set (frame_addrs ma) \<Longrightarrow> slice_mapped (frame_slice ma a)"
  by (auto simp: frame_addrs_def intro: frame_slice_mapped)

lemma frame_addr_inj:
  assumes "ma_wf ma" and "i < buf_num ma" and "j < buf_num ma"
    and "frame_addr ma i = frame_addr ma j"
  shows "i = j"
proof -
  have "i * buf_len ma + 256 = j * buf_len ma + 256"
    using frame_addr_unat [OF assms(1,2)] frame_addr_unat [OF assms(1,3)] assms(4) by metis
  then show ?thesis using assms(1) by (auto simp: ma_wf_def)
qed

lemma length_frame_addrs [simp]: "length (frame_addrs ma) = buf_num ma"
  by (simp add: frame_addrs_def)

lemma distinct_frame_addrs: "ma_wf ma \<Longrightarrow> distinct (frame_addrs ma)"
  by (auto simp: frame_addrs_def distinct_map intro!: inj_onI frame_addr_inj)

lemma frame_addrsE:
  assumes "a \<in> set (frame_addrs ma)"
  obtains i where "i < buf_num ma" and "a = frame_addr ma i"
  using assms by (auto simp: frame_addrs_def)

lemma frames_ordered:
  assumes "i < j"
  shows "i * buf_len ma + buf_len ma \<le> j * buf_len ma"
  by (metis Suc_leI add.commute assms mult_Suc mult_le_mono1)

lemma frame_slice_inside:
  assumes wf: "ma_wf ma" and a: "a \<in> set (frame_addrs ma)"
  shows "slice_addrs (frame_slice ma a)
         \<subseteq> {unat (ma_ptr ma)..<unat (ma_ptr ma) + buf_num ma * buf_len ma}"
proof -
  from a obtain i where i: "i < buf_num ma" "a = frame_addr ma i" by (rule frame_addrsE)
  then show ?thesis
    using frame_le [OF i(1)] by (auto simp: i(2) frame_slice_addrs [OF wf i(1)])
qed

lemma frame_slice_disjoint:
  assumes wf: "ma_wf ma" and a: "a \<in> set (frame_addrs ma)" and b: "b \<in> set (frame_addrs ma)"
    and ne: "a \<noteq> b"
  shows "slice_addrs (frame_slice ma a) \<inter> slice_addrs (frame_slice ma b) = {}"
proof -
  from a obtain i where i: "i < buf_num ma" "a = frame_addr ma i" by (rule frame_addrsE)
  from b obtain j where j: "j < buf_num ma" "b = frame_addr ma j" by (rule frame_addrsE)
  have "i < j \<or> j < i" using i(2) j(2) ne by (metis linorder_neqE_nat)
  then show ?thesis
    using frames_ordered [of i j ma] frames_ordered [of j i ma]
    by (auto simp: i(2) j(2) frame_slice_addrs [OF wf i(1)] frame_slice_addrs [OF wf j(1)])
qed

text \<open>
  Buffers on different frames never share a byte, and every buffer lies inside
  the mapping, above the reserved head of its frame.
\<close>

lemma frames_disjoint:
  assumes wf: "ma_wf ma" and a: "a \<in> set (frame_addrs ma)" and b: "b \<in> set (frame_addrs ma)"
  shows "slice_addrs (frame_slice ma a)
           \<subseteq> {unat (ma_ptr ma)..<unat (ma_ptr ma) + buf_num ma * buf_len ma}
         \<and> (a \<noteq> b \<longrightarrow> slice_addrs (frame_slice ma a) \<inter> slice_addrs (frame_slice ma b) = {})"
  using frame_slice_inside [OF wf a] frame_slice_disjoint [OF wf a b] by simp

definition ex_area :: mmap_area where
  "ex_area = \<lparr>buf_num = 8, buf_len = 2048, ma_ptr = 65536\<rparr>"

lemma ex_area_wf: "ma_wf ex_area"
  by (simp add: ma_wf_def ex_area_def)

lemma ex_area_frames:
  "frame_addrs ex_area = [256, 2304, 4352, 6400, 8448, 10496, 12544, 14592]"
  by (simp add: frame_addrs_def ex_area_def frame_addr_def upt_conv_Cons)

lemma frames_disjoint_witness:
  "slice_addrs (frame_slice ex_area 2304) \<subseteq> {65536..<81920}
   \<and> slice_addrs (frame_slice ex_area 2304) \<inter> slice_addrs (frame_slice ex_area 4352) = {}"
  using frames_disjoint [OF ex_area_wf, of 2304 4352]
  by (simp add: ex_area_frames) (simp add: ex_area_def)

section \<open>What construction establishes\<close>

lemma new_bufs_ok:
  assumes "256 \<le> buf_len ma" and "(i + k) * buf_len ma < 2 ^ 64"
    and "length (items bs) + k \<le> capacity bs"
  shows "new_bufs prof ma (buf_len ma - 256) dflt k i bs
         = Ret (bs\<lparr>items := items bs @ map (\<lambda>j. frame_buf ma (frame_addr ma j) 0 dflt) [i..<i + k]\<rparr>)"
  using assms
proof (induction k arbitrary: i bs)
  case (Suc k)
  have le: "i * buf_len ma + buf_len ma \<le> (i + Suc k) * buf_len ma" by (simp add: algebra_simps)
  with Suc.prems have lt: "i * buf_len ma + 256 < 2 ^ 64" by linarith
  then have u: "unat (of_nat (i * buf_len ma) :: u64) = i * buf_len ma"
    by (intro unat_of_nat_u64) simp
  have mul: "usize_mul prof i (buf_len ma) = Ret (i * buf_len ma)"
    using lt by (intro usize_mul_ok) simp
  have add: "u64_add prof (of_nat (i * buf_len ma)) AF_XDP_RESERVED = Ret (frame_addr ma i)"
    unfolding u64_add_def using lt
    by (simp only: u reserved_unat) (simp add: frame_addr_def AF_XDP_RESERVED_def)
  let ?b = "frame_buf ma (frame_addr ma i) 0 dflt"
  have push: "vec_push bs ?b = bs\<lparr>items := items bs @ [?b]\<rparr>"
    using Suc.prems(3) by (intro vec_push_within) simp
  have "new_bufs prof ma (buf_len ma - 256) dflt (Suc k) i bs
      = new_bufs prof ma (buf_len ma - 256) dflt k (Suc i) (bs\<lparr>items := items bs @ [?b]\<rparr>)"
    unfolding new_bufs.simps mul bnd.simps add push [symmetric]
    by (simp add: frame_buf_def frame_slice_def)
  also have "\<dots> = Ret (bs\<lparr>items := items bs
       @ map (\<lambda>j. frame_buf ma (frame_addr ma j) 0 dflt) [i..<i + Suc k]\<rparr>)"
    using Suc.prems by (subst Suc.IH) (simp_all add: upt_conv_Cons del: upt_Suc)
  finally show ?case .
qed simp


lemma new_bufs_sl_len:
  "new_bufs prof ma avail dflt k i vs = Ret us \<Longrightarrow>
   \<forall>b \<in> set (items vs). sl_len (bm_data b) = avail \<Longrightarrow>
   \<forall>b \<in> set (items us). sl_len (bm_data b) = avail"
proof (induction k arbitrary: i vs)
  case (Suc k)
  from Suc.prems(1) obtain addr where
    "new_bufs prof ma avail dflt k (Suc i) (vec_push vs
       \<lparr>bm_addr = addr, bm_len = 0,
        bm_data = \<lparr>sl_ptr = ptr_offset (ma_ptr ma) addr, sl_len = avail\<rparr>,
        bm_user = dflt\<rparr>) = Ret us"
    by (auto simp: bnd_Ret_iff)
  then show ?case by (rule Suc.IH) (use Suc.prems(2) in auto)
qed simp

lemma new_bufs_Release:
  "\<exists>us. new_bufs Release ma avail dflt k i vs = Ret us
        \<and> length (items us) = length (items vs) + k"
proof (induction k arbitrary: i vs)
  case (Suc k)
  have "\<exists>a. usize_mul Release i (buf_len ma) = Ret a" by (simp add: usize_mul_def)
  moreover have "\<exists>c. u64_add Release b AF_XDP_RESERVED = Ret c" for b by (simp add: u64_add_def)
  ultimately obtain a c where "usize_mul Release i (buf_len ma) = Ret a"
    and "u64_add Release (of_nat a) AF_XDP_RESERVED = Ret c" by blast
  then show ?case
    using Suc.IH [of "Suc i" "vec_push vs
       \<lparr>bm_addr = c, bm_len = 0,
        bm_data = \<lparr>sl_ptr = ptr_offset (ma_ptr ma) c, sl_len = avail\<rparr>, bm_user = dflt\<rparr>"]
    by simp
qed simp

lemma mmap_area_new_mapped:
  assumes "num * len < 2 ^ 64"
    and "c_mmap libc 0 (of_nat (num * len)) (PROT_READ libc OR PROT_WRITE libc)
          (if huge_tlb options then (MAP_PRIVATE libc OR MAP_ANONYMOUS libc) OR MAP_HUGETLB libc
           else MAP_PRIVATE libc OR MAP_ANONYMOUS libc) (-1) 0 w = (p, w')"
    and "p \<noteq> MAP_FAILED libc"
  shows "mmap_area_new libc prof dflt num len options w =
     (let ma = \<lparr>buf_num = num, buf_len = len, ma_ptr = p\<rparr> in
      bnd (usize_sub prof len 256) (\<lambda>avail.
      bnd (new_bufs prof ma avail dflt num 0 (vec_with_capacity num)) (\<lambda>bs.
        Ret (Ok (ma, bs), w'))))"
  using assms by (simp add: mmap_area_new_def Let_def usize_mul_ok)

abbreviation mmap_flags :: "'w libc_api \<Rightarrow> mmap_area_options \<Rightarrow> u32" where
  "mmap_flags libc options \<equiv>
     (if huge_tlb options then (MAP_PRIVATE libc OR MAP_ANONYMOUS libc) OR MAP_HUGETLB libc
      else MAP_PRIVATE libc OR MAP_ANONYMOUS libc)"

abbreviation mmap_call :: "'w libc_api \<Rightarrow> usize \<Rightarrow> mmap_area_options \<Rightarrow> 'w \<Rightarrow> u64 \<times> 'w" where
  "mmap_call libc sz options w \<equiv>
     c_mmap libc 0 (of_nat sz) (PROT_READ libc OR PROT_WRITE libc) (mmap_flags libc options)
       (-1) 0 w"

lemma mmap_area_new_result:
  assumes "os_mmap libc" and "256 \<le> len" and "num * len < 2 ^ 64"
    and "mmap_call libc (num * len) options w = (p, w')" and "p \<noteq> MAP_FAILED libc"
  shows "\<exists>ma bs. mmap_area_new libc prof dflt num len options w = Ret (Ok (ma, bs), w')
     \<and> ma = \<lparr>buf_num = num, buf_len = len, ma_ptr = p\<rparr> \<and> ma_wf ma
     \<and> items bs = map (\<lambda>a. frame_buf ma a 0 dflt) (frame_addrs ma) \<and> capacity bs = num"
proof -
  let ?ma = "\<lparr>buf_num = num, buf_len = len, ma_ptr = p\<rparr>"
  have "unat p + unat (of_nat (num * len) :: u64) \<le> 2 ^ 64"
    using os_mmap.mmap_fits [OF assms(1,4,5)] .
  then have wf: "ma_wf ?ma"
    using assms(2,3) unat_of_nat_u64 [OF assms(3)] by (simp add: ma_wf_def del: of_nat_mult)
  have "new_bufs prof ?ma (buf_len ?ma - 256) dflt num 0 (vec_with_capacity num)
     = Ret ((vec_with_capacity num)\<lparr>items := map (\<lambda>a. frame_buf ?ma a 0 dflt) (frame_addrs ?ma)\<rparr>)"
    using assms(2,3)
    by (subst new_bufs_ok) (simp_all add: frame_addrs_def comp_def)
  then show ?thesis
    using wf assms(2) unfolding mmap_area_new_mapped [OF assms(3,4,5)]
    by (simp add: usize_sub_ok vec_with_capacity_def Let_def)
qed

text \<open>
  Property C20. \<open>MmapArea::new\<close> with frames of at least 256 bytes and a mapping that succeeds
  returns, in both build profiles, an area with a sound geometry and exactly one empty buffer
  per frame, in frame order, in a vector of capacity \<open>buf_num\<close>.
\<close>

theorem mmap_area_new_ok:
  assumes "os_mmap libc" and "256 \<le> len" and "num * len < 2 ^ 64"
    and "mmap_call libc (num * len) options w = (p, w')" and "p \<noteq> MAP_FAILED libc"
  shows "\<exists>ma bs. mmap_area_new libc prof dflt num len options w = Ret (Ok (ma, bs), w')
     \<and> ma = \<lparr>buf_num = num, buf_len = len, ma_ptr = p\<rparr> \<and> ma_wf ma
     \<and> items bs = map (\<lambda>a. frame_buf ma a 0 dflt) (frame_addrs ma) \<and> capacity bs = num"
  using assms by (rule mmap_area_new_result)

theorem mmap_area_new_ok_witness:
  "\<exists>bs. mmap_area_new ref_libc Debug () 8 2048 \<lparr>huge_tlb = True\<rparr> (mk_world (\<lambda>_. []) 0)
     = Ret (Ok (ex_area, bs), mk_world (\<lambda>_. []) 0) \<and> map bm_addr (items bs) = frame_addrs ex_area"
  using mmap_area_new_ok [OF refos.os_mmap_axioms, of 2048 8 "\<lparr>huge_tlb = True\<rparr>"
      "mk_world (\<lambda>_. []) 0" 65536 "mk_world (\<lambda>_. []) 0" Debug "()"]
  by (auto simp: ref_libc_def ex_area_def comp_def)

text \<open>
  Property C32. \<open>MmapArea::new\<close> does not check that a frame holds more than the reserved 256
  bytes. With shorter frames a build with overflow checks panics after the mapping was made,
  and a build without them returns buffers whose slices claim almost the whole address space,
  far beyond the mapping.
\<close>

theorem mmap_area_new_short_frames:
  assumes "len < 256" and "0 < num" and "num * len < 2 ^ 63"
    and "mmap_call libc (num * len) options w = (p, w')" and "p \<noteq> MAP_FAILED libc"
  shows "mmap_area_new libc Debug dflt num len options w = Panic Overflow
     \<and> (\<exists>ma bs. mmap_area_new libc Release dflt num len options w = Ret (Ok (ma, bs), w')
          \<and> length (items bs) = num
          \<and> (\<forall>b \<in> set (items bs). num * len < sl_len (bm_data b)
                \<and> 2 ^ 64 - 256 \<le> sl_len (bm_data b)))"
proof
  have lt: "num * len < 2 ^ 64" using assms(3) by simp
  note new = mmap_area_new_mapped [OF lt assms(4,5)]
  show "mmap_area_new libc Debug dflt num len options w = Panic Overflow"
    using assms(1) by (simp add: new Let_def usize_sub_panics)
  let ?ma = "\<lparr>buf_num = num, buf_len = len, ma_ptr = p\<rparr>" and ?avail = "len + 2 ^ 64 - 256"
  obtain bs where bs: "new_bufs Release ?ma ?avail dflt num 0 (vec_with_capacity num) = Ret bs"
    and n: "length (items bs) = num"
    using new_bufs_Release [of ?ma ?avail dflt num 0 "vec_with_capacity num"] by auto
  have "\<forall>b \<in> set (items bs). sl_len (bm_data b) = ?avail"
    by (rule new_bufs_sl_len [OF bs]) simp
  then have "\<forall>b \<in> set (items bs). num * len < sl_len (bm_data b)
                \<and> 2 ^ 64 - 256 \<le> sl_len (bm_data b)"
    using assms(3) by simp
  moreover have "mmap_area_new libc Release dflt num len options w = Ret (Ok (?ma, bs), w')"
    using assms(1) bs by (simp add: new Let_def usize_sub_wraps)
  ultimately show "\<exists>ma bs. mmap_area_new libc Release dflt num len options w = Ret (Ok (ma, bs), w')
          \<and> length (items bs) = num
          \<and> (\<forall>b \<in> set (items bs). num * len < sl_len (bm_data b)
                \<and> 2 ^ 64 - 256 \<le> sl_len (bm_data b))"
    using n by blast
qed

theorem mmap_area_new_short_frames_witness:
  "mmap_area_new ref_libc Debug () 4 128 \<lparr>huge_tlb = False\<rparr> (mk_world (\<lambda>_. []) 0) = Panic Overflow"
  using mmap_area_new_short_frames [of 128 4 ref_libc "\<lparr>huge_tlb = False\<rparr>"
      "mk_world (\<lambda>_. []) 0" 65536 "mk_world (\<lambda>_. []) 0" "()"]
  by (simp add: ref_libc_def)

text \<open>
  The failures of \<open>MmapArea::new\<close>: a size that overflows \<open>usize\<close> panics before
  anything is mapped (with overflow checks), and a failed \<open>mmap\<close> is reported as an error, with
  no buffer made.
\<close>

lemma mmap_area_new_errors:
  "(2 ^ 64 \<le> num * len \<longrightarrow> mmap_area_new libc Debug dflt num len options w = Panic Overflow)
   \<and> (num * len < 2 ^ 64 \<and> mmap_call libc (num * len) options w = (MAP_FAILED libc, w')
       \<longrightarrow> mmap_area_new libc prof dflt num len options w = Ret (Err MmapFailed, w'))"
  by (auto simp: mmap_area_new_def Let_def usize_mul_def)

lemma mmap_area_new_errors_witness:
  "mmap_area_new ref_libc Debug () (2 ^ 54) 2048 \<lparr>huge_tlb = False\<rparr> (mk_world (\<lambda>_. []) 0)
     = Panic Overflow
   \<and> mmap_area_new ref_libc Release () (2 ^ 40) 2048 \<lparr>huge_tlb = False\<rparr> (mk_world (\<lambda>_. []) 0)
     = Ret (Err MmapFailed, mk_world (\<lambda>_. []) 0)"
  using mmap_area_new_errors [of "2 ^ 54" 2048 ref_libc "()" "\<lparr>huge_tlb = False\<rparr>"
      "mk_world (\<lambda>_. []) 0"]
    mmap_area_new_errors [of "2 ^ 40" 2048 ref_libc "()" "\<lparr>huge_tlb = False\<rparr>"
      "mk_world (\<lambda>_. []) 0" "mk_world (\<lambda>_. []) 0" Release]
  by (simp add: ref_libc_def unat_of_nat_u64)

text \<open>
  Property C33. Dropping the area that \<open>new\<close> returned unmaps exactly the region that \<open>new\<close>
  mapped: the same address and the same size, without a panic.
\<close>

theorem mmap_area_drop_new:
  assumes "mmap_area_new libc prof dflt num len options w = Ret (Ok (ma, bs), w')"
    and "num * len < 2 ^ 64"
  shows "fst (mmap_call libc (num * len) options w) = ma_ptr ma
     \<and> mmap_area_drop libc prof' ma v =
         (let (r, v) = c_munmap libc (ma_ptr ma) (of_nat (num * len)) v in
          Ret (if r \<noteq> 0 then Some (c_errno libc v) else None, v))"
proof -
  obtain p w0 where p: "mmap_call libc (num * len) options w = (p, w0)" by fastforce
  with assms have nf: "p \<noteq> MAP_FAILED libc"
    by (auto simp: mmap_area_new_def Let_def usize_mul_ok)
  from assms(1) have "ma = \<lparr>buf_num = num, buf_len = len, ma_ptr = p\<rparr>"
    unfolding mmap_area_new_mapped [OF assms(2) p nf] by (auto simp: Let_def bnd_Ret_iff)
  then show ?thesis
    using nf assms(2) p by (simp add: mmap_area_drop_def usize_mul_ok Let_def split: prod.splits)
qed

theorem mmap_area_drop_new_witness:
  "\<exists>bs. mmap_area_new ref_libc Debug () 8 2048 \<lparr>huge_tlb = True\<rparr> (mk_world (\<lambda>_. []) 0)
     = Ret (Ok (ex_area, bs), mk_world (\<lambda>_. []) 0)
   \<and> mmap_area_drop ref_libc Debug ex_area (mk_world (\<lambda>_. []) 0)
     = Ret (None, mk_world (\<lambda>_. []) 0)"
proof -
  let ?w = "mk_world (\<lambda>_. []) 0"
  obtain bs where bs: "mmap_area_new ref_libc Debug () 8 2048 \<lparr>huge_tlb = True\<rparr> ?w
     = Ret (Ok (ex_area, bs), ?w)"
    using new_bufs_ok [of ex_area 0 8 "vec_with_capacity 8" Debug "()"]
    by (auto simp: mmap_area_new_def ref_libc_def ex_area_def usize_mul_ok usize_sub_ok Let_def)
  then show ?thesis
    using mmap_area_drop_new [OF bs, of Debug ?w] by (simp add: ref_libc_def)
qed

end
