(* ===== verification/Umem.thy ===== *)
theory Umem
  imports Mmap_Area
begin

text \<open>
  \<open>src/umem.rs\<close>: construction of a umem with its two rings, the completion queue's \<open>service\<close>
  and the fill queue's \<open>fill\<close>. Each loop of the code is a structural recursion on its number of
  iterations, which the code fixes before the loop. The lemmas give the result of each operation
  as an equation; the theorems combine them with the laws of the rings.
\<close>

section \<open>Data\<close>

record umem =
  um_area :: mmap_area
  um_ptr :: u64

record 'r umem_completion_queue =
  cq_umem :: umem
  cq_ring :: 'r

record 'r umem_fill_queue =
  fq_umem :: umem
  fq_ring :: 'r

datatype umem_new_error = UmemCreate c_int | UmemRingNotPowerOfTwo

datatype umem_error = UmemFailed

section \<open>Construction\<close>

definition umem_new :: "('r, 'w) xsk_api \<Rightarrow> 'w libc_api \<Rightarrow> profile \<Rightarrow> mmap_area \<Rightarrow> u32 \<Rightarrow> u32 \<Rightarrow> 'w
    \<Rightarrow> ((umem \<times> 'r umem_completion_queue \<times> 'r umem_fill_queue, umem_new_error) result \<times> 'w)
       outcome" where
  "umem_new api libc prof area completion_ring_size fill_ring_size w =
     (if \<not> is_pow_of_two completion_ring_size \<or> \<not> is_pow_of_two fill_ring_size
      then Ret (Err UmemRingNotPowerOfTwo, w)
      else
        let cfg = \<lparr>fill_size = fill_ring_size, comp_size = completion_ring_size,
                   frame_size = of_nat (get_buf_len area),
                   frame_headroom = XSK_UMEM_DEFAULT_FRAME_HEADROOM api, umem_flags = 0\<rparr>;
            (cq, w) = new_ring api w;
            (fq, w) = new_ring api w
        in bnd (usize_mul prof (get_buf_num area) (get_buf_len area)) (\<lambda>sz.
          let (ret, ptr, w) = umem_create api (get_ptr area) (of_nat sz) fq cq cfg w in
          if ret \<noteq> 0 then Ret (Err (UmemCreate (c_errno libc w)), w)
          else
            let um = \<lparr>um_area = area, um_ptr = ptr\<rparr> in
            Ret (Ok (um, \<lparr>cq_umem = um, cq_ring = cq\<rparr>, \<lparr>fq_umem = um, fq_ring = fq\<rparr>), w)))"

definition umem_get_ptr :: "umem \<Rightarrow> u64" where
  "umem_get_ptr um = um_ptr um"

definition umem_drop :: "('r, 'w) xsk_api \<Rightarrow> umem \<Rightarrow> 'w \<Rightarrow> 'w" where
  "umem_drop api um w = umem_delete api (um_ptr um) w"

section \<open>Completion queue\<close>

primrec service_loop :: "('r, 'w) xsk_api \<Rightarrow> profile \<Rightarrow> mmap_area \<Rightarrow> usize \<Rightarrow> 'u \<Rightarrow> 'r \<Rightarrow> 'w
    \<Rightarrow> nat \<Rightarrow> u32 \<Rightarrow> 'u buf_mmap vec \<Rightarrow> 'u buf_mmap vec outcome" where
  "service_loop api prof area avail dflt cq w 0 idx bs = Ret bs"
| "service_loop api prof area avail dflt cq w (Suc k) idx bs =
     (let addr = cons_comp_addr api cq idx w;
          ptr = ptr_offset (get_ptr area) addr in
      bnd (u32_inc prof idx) (\<lambda>idx.
        service_loop api prof area avail dflt cq w k idx
          (vec_push bs
            \<lparr>bm_addr = addr, bm_len = 0,
             bm_data = \<lparr>sl_ptr = ptr, sl_len = avail\<rparr>, bm_user = dflt\<rparr>)))"

definition cq_service :: "('r, 'w) xsk_api \<Rightarrow> profile \<Rightarrow> 'u \<Rightarrow> 'r umem_completion_queue
    \<Rightarrow> 'u buf_mmap vec \<Rightarrow> usize \<Rightarrow> 'w
    \<Rightarrow> ((usize, umem_error) result \<times> 'u buf_mmap vec \<times> 'w) outcome" where
  "cq_service api prof dflt self bs batch_size w =
     bnd (usize_sub prof (capacity bs) (length (items bs))) (\<lambda>space.
       let batch_size = min space batch_size;
           (ready, idx, w) = cons_peek api (cq_ring self) (of_nat batch_size) 0 w;
           ready = unat ready
       in if ready = 0 then Ret (Ok 0, bs, w)
          else
            let area = um_area (cq_umem self) in
            bnd (usize_sub prof (get_buf_len area) (unat AF_XDP_RESERVED)) (\<lambda>avail.
            bnd (service_loop api prof area avail dflt (cq_ring self) w ready idx bs) (\<lambda>bs.
              Ret (Ok ready, bs, cons_release api (cq_ring self) (of_nat ready) w))))"

section \<open>Fill queue\<close>

primrec fill_loop :: "('r, 'w) xsk_api \<Rightarrow> profile \<Rightarrow> 'r \<Rightarrow> nat \<Rightarrow> u32 \<Rightarrow> 'u buf_mmap vec \<Rightarrow> 'w
    \<Rightarrow> ('u buf_mmap vec \<times> 'w) outcome" where
  "fill_loop api prof fq 0 idx bs w = Ret (bs, w)"
| "fill_loop api prof fq (Suc k) idx bs w =
     (case vec_pop bs of
        (Some b, bs) \<Rightarrow>
          bnd (u32_inc prof idx) (\<lambda>idx'.
            fill_loop api prof fq k idx' bs (prod_put_fill api fq idx (bm_addr b) w))
      | (None, bs) \<Rightarrow> Panic Todo)"

definition fq_fill :: "('r, 'w) xsk_api \<Rightarrow> profile \<Rightarrow> 'r umem_fill_queue
    \<Rightarrow> 'u buf_mmap vec \<Rightarrow> usize \<Rightarrow> 'w
    \<Rightarrow> ((usize, umem_error) result \<times> 'u buf_mmap vec \<times> 'w) outcome" where
  "fq_fill api prof self bs batch_size w =
     (let batch_size = min (length (items bs)) batch_size in
      if batch_size = 0 then Ret (Ok 0, bs, w)
      else
        let (ready, idx, w) = prod_reserve api (fq_ring self) (of_nat batch_size) 0 w;
            ready = unat ready
        in bnd (fill_loop api prof (fq_ring self) ready idx bs w) (\<lambda>(bs, w).
             if 0 < ready
             then Ret (Ok ready, bs, prod_submit api (fq_ring self) (of_nat ready) w)
             else Ret (Ok ready, bs, w)))"

definition fq_needs_wakeup :: "('r, 'w) xsk_api \<Rightarrow> 'r umem_fill_queue \<Rightarrow> 'w \<Rightarrow> bool" where
  "fq_needs_wakeup api self w =
     (if prod_needs_wakeup api (fq_ring self) w \<noteq> 0 then True else False)"

section \<open>The loops as equations\<close>

text \<open>The index of the loop does not overflow: the build wraps, or the indices are small enough.\<close>

definition idx_ok :: "profile \<Rightarrow> u32 \<Rightarrow> nat \<Rightarrow> bool" where
  "idx_ok prof i n \<longleftrightarrow> prof = Release \<or> unat i + n < 2 ^ 32"

lemma idx_ok_Release [simp]: "idx_ok Release i n"
  by (simp add: idx_ok_def)

lemma idx_ok_0 [simp]: "idx_ok prof i 0"
  using unat_u32_lt [of i] by (simp add: idx_ok_def)

lemma idx_ok_step:
  assumes "idx_ok prof i (Suc n)"
  shows "u32_inc prof i = Ret (i + 1)" and "idx_ok prof (i + 1) n"
proof -
  have "unat (i + 1) = unat i + 1" if "unat i + Suc n < 2 ^ 32"
    using of_nat_u32_unat_add [of i 1] that by simp
  with assms show "u32_inc prof i = Ret (i + 1)" and "idx_ok prof (i + 1) n"
    by (auto simp: idx_ok_def u32_inc_def split: profile.splits)
qed

lemma service_loop_eq:
  assumes "idx_ok prof i n" and "length (items bs) + n \<le> capacity bs"
  shows "service_loop api prof area (buf_len area - 256) dflt r w n i bs
         = Ret (bs\<lparr>items := items bs @ map (\<lambda>a. frame_buf area a 0 dflt) (comp_entries api r i n w)\<rparr>)"
  using assms
proof (induction n arbitrary: i bs)
  case (Suc n)
  have "frame_buf area a 0 dflt = \<lparr>bm_addr = a, bm_len = 0, bm_data =
      \<lparr>sl_ptr = ptr_offset (get_ptr area) a, sl_len = buf_len area - 256\<rparr>, bm_user = dflt\<rparr>" for a
    by (simp add: frame_buf_def frame_slice_def get_ptr_def)
  then show ?case
    using Suc.IH [OF idx_ok_step(2) [OF Suc.prems(1)]] Suc.prems
    by (simp add: idx_ok_step(1) [OF Suc.prems(1)] vec_push_within comp_entries_Suc Let_def)
qed simp

text \<open>With overflow checks, a loop that reaches the end of the index range panics.\<close>

lemma u32_inc_last:
  assumes "2 ^ 32 \<le> unat i + Suc n" and "u32_inc Debug i = Ret j"
  shows "2 ^ 32 \<le> unat j + n"
  using assms of_nat_u32_unat_add [of i 1]
  by (auto simp: u32_inc_def split: if_splits)

lemma u32_inc_Debug_cases: "u32_inc Debug i = Panic Overflow \<or> (\<exists>j. u32_inc Debug i = Ret j)"
  by (simp add: u32_inc_def)

lemma service_loop_overflow:
  "2 ^ 32 \<le> unat i + n \<Longrightarrow> service_loop api Debug area avail dflt r w n i bs = Panic Overflow"
proof (induction n arbitrary: i bs)
  case 0
  then show ?case using unat_u32_lt [of i] by simp
next
  case (Suc n)
  from u32_inc_Debug_cases [of i] show ?case
    using Suc.IH u32_inc_last [OF Suc.prems] by (auto simp: Let_def)
qed

text \<open>The writes of \<open>fill\<close>: consecutive slots, in the order the buffers leave the vector.\<close>

abbreviation put_fills :: "('r, 'w) xsk_api \<Rightarrow> 'r \<Rightarrow> u32 \<Rightarrow> u64 list \<Rightarrow> 'w \<Rightarrow> 'w" where
  "put_fills api r \<equiv> puts (prod_put_fill api r)"

lemma fill_loop_eq:
  assumes "idx_ok prof i n" and "n \<le> length (items bs)"
  shows "fill_loop api prof r n i bs w
         = Ret (bs\<lparr>items := take (length (items bs) - n) (items bs)\<rparr>,
                put_fills api r i (map bm_addr (take n (rev (items bs)))) w)"
  using assms
proof (induction n arbitrary: i bs w)
  case (Suc n)
  then obtain ys b where ys: "items bs = ys @ [b]"
    by (metis Zero_not_Suc le_zero_eq length_0_conv rev_exhaust)
  then show ?case
    using Suc.IH [OF idx_ok_step(2) [OF Suc.prems(1)], of "bs\<lparr>items := ys\<rparr>"] Suc.prems
    by (simp add: idx_ok_step(1) [OF Suc.prems(1)] vec_pop_def)
qed simp

lemma fill_loop_overflow:
  "2 ^ 32 \<le> unat i + n \<Longrightarrow> n \<le> length (items bs) \<Longrightarrow>
   fill_loop api Debug r n i bs w = Panic Overflow"
proof (induction n arbitrary: i bs w)
  case 0
  then show ?case using unat_u32_lt [of i] by simp
next
  case (Suc n)
  then obtain ys b where ys: "items bs = ys @ [b]"
    by (metis Zero_not_Suc le_zero_eq length_0_conv rev_exhaust)
  from u32_inc_Debug_cases [of i] show ?case
    using Suc.IH u32_inc_last [OF Suc.prems(1)] Suc.prems(2) ys
    by (auto simp: vec_pop_def)
qed

text \<open>The operations as equations over the result of the ring's \<open>peek\<close> or \<open>reserve\<close>.\<close>

lemma cq_service_eq:
  assumes "256 \<le> buf_len (um_area (cq_umem self))" and "vec_wf bs"
    and "cons_peek api (cq_ring self)
           (of_nat (min (capacity bs - length (items bs)) batch)) 0 w = (n, i, w1)"
    and "unat n \<le> capacity bs - length (items bs)" and "idx_ok prof i (unat n)"
  shows "cq_service api prof dflt self bs batch w =
     Ret (Ok (unat n),
          bs\<lparr>items := items bs @ map (\<lambda>a. frame_buf (um_area (cq_umem self)) a 0 dflt)
                (comp_entries api (cq_ring self) i (unat n) w1)\<rparr>,
          if n = 0 then w1 else cons_release api (cq_ring self) n w1)"
proof -
  have "usize_sub prof (capacity bs) (length (items bs)) = Ret (capacity bs - length (items bs))"
    using assms(2) by (intro usize_sub_ok) (simp add: vec_wf_def)
  moreover have "unat n = 0 \<longleftrightarrow> n = 0" by (simp add: unat_eq_zero)
  moreover have "length (items bs) + unat n \<le> capacity bs"
    using assms(2,4) by (simp add: vec_wf_def)
  ultimately show ?thesis
    using assms(1,3,5)
    by (simp add: cq_service_def usize_sub_ok service_loop_eq get_buf_len_def Let_def)
qed

lemma fq_fill_eq:
  assumes "0 < min (length (items bs)) batch"
    and "prod_reserve api (fq_ring self) (of_nat (min (length (items bs)) batch)) 0 w = (n, i, w1)"
    and "unat n \<le> length (items bs)" and "idx_ok prof i (unat n)"
  shows "fq_fill api prof self bs batch w =
     Ret (Ok (unat n),
          bs\<lparr>items := take (length (items bs) - unat n) (items bs)\<rparr>,
          if n = 0 then w1
          else prod_submit api (fq_ring self) n
                 (put_fills api (fq_ring self) i
                    (map bm_addr (take (unat n) (rev (items bs)))) w1))"
proof -
  obtain m where m: "min (length (items bs)) batch = m" by blast
  have "0 < unat n \<longleftrightarrow> n \<noteq> 0" by (simp add: unat_gt_0)
  then show ?thesis
    using assms unfolding m by (simp add: fq_fill_def m fill_loop_eq Let_def)
qed

lemma fq_fill_nothing:
  "min (length (items bs)) batch = 0 \<Longrightarrow> fq_fill api prof self bs batch w = Ret (Ok 0, bs, w)"
  by (simp add: fq_fill_def)


section \<open>The operations under the laws of the rings\<close>

text \<open>The frames a vector of buffers owns.\<close>

abbreviation owned :: "'u buf_mmap list \<Rightarrow> u64 multiset" where
  "owned bs \<equiv> mset (map bm_addr bs)"

context xsk_prod
begin

lemma put_fills_submit:
  assumes "ok w" and "kind r = Fill" and "window r w = (i, unat n)" and "length as = unat n"
  shows "ok (prod_submit api r n (put_fills api r i as w))
     \<and> held (prod_submit api r n (put_fills api r i as w)) = held w + mset as
     \<and> snd (window r (prod_submit api r n (put_fills api r i as w))) = 0
     \<and> (\<forall>q. q \<noteq> r \<longrightarrow> window q (prod_submit api r n (put_fills api r i as w)) = window q w)"
proof -
  have "ok (prod_put_fill api r (i + of_nat k) a w)
      \<and> held (prod_put_fill api r (i + of_nat k) a w) = held w
      \<and> (\<forall>q. window q (prod_put_fill api r (i + of_nat k) a w) = window q w)
      \<and> (\<forall>m<unat n. staged r (i + of_nat m) (prod_put_fill api r (i + of_nat k) a w)
               = (if m = k then a else staged r (i + of_nat m) w))"
    if "ok w" "window r w = (i, unat n)" "k < unat n" for k a w
    using put_fill_keeps [OF that(1) assms(2) that(2,3) refl]
      put_fill_staged [OF that(1) assms(2) that(2,3)] by blast
  from puts_submit [where adr = "\<lambda>a. a", OF this assms(1) _ assms(3,4)] assms(2)
  show ?thesis by simp
qed

lemma fill_correct:
  assumes ok: "ok w" and kd: "kind (fq_ring self) = Fill"
    and closed: "snd (window (fq_ring self) w) = 0" and len: "batch < 2 ^ 64"
    and idx: "\<And>n i w1. prod_reserve api (fq_ring self)
       (of_nat (min (length (items bs)) batch)) 0 w = (n, i, w1) \<Longrightarrow> idx_ok prof i (unat n)"
  shows "\<exists>n w'. fq_fill api prof self bs batch w =
       Ret (Ok n, bs\<lparr>items := take (length (items bs) - n) (items bs)\<rparr>, w')
     \<and> (n = 0 \<or> n = min (length (items bs)) batch)
     \<and> ok w' \<and> held w' = held w + owned (drop (length (items bs) - n) (items bs))
     \<and> snd (window (fq_ring self) w') = 0
     \<and> (\<forall>q. q \<noteq> fq_ring self \<longrightarrow> window q w' = window q w)"
proof (cases "min (length (items bs)) batch = 0")
  case True
  then show ?thesis using ok closed by (simp add: fq_fill_nothing)
next
  case False
  let ?r = "fq_ring self" and ?m = "min (length (items bs)) batch"
  obtain n i w1 where rs: "prod_reserve api ?r (of_nat ?m) 0 w = (n, i, w1)"
    by (cases "prod_reserve api ?r (of_nat ?m) 0 w") auto
  have kd': "kind ?r \<in> {Fill, Tx}" using kd by simp
  note l = reserve_ok [OF ok kd' closed rs] reserve_held [OF ok kd' closed rs]
    reserve_all_or_none [OF ok kd' closed rs] reserve_window [OF ok kd' closed rs]
    reserve_frame [OF ok kd' closed rs]
  have m: "unat (of_nat ?m :: u64) = ?m" using len by (intro unat_of_nat_u64) simp
  then have n: "unat n = 0 \<or> unat n = ?m" using l(3) by auto
  then have le: "unat n \<le> length (items bs)" by auto
  have pos: "0 < ?m" using False by simp
  note eq = fq_fill_eq [OF pos rs le idx [OF rs]]
  have tl: "owned (drop (length (items bs) - unat n) (items bs))
            = mset (map bm_addr (take (unat n) (rev (items bs))))"
    by (simp add: take_rev)
  show ?thesis
  proof (cases "n = 0")
    case True
    have win: "window q w1 = window q w \<or> q = ?r" for q using l(5) by blast
    show ?thesis
      using eq l(1,2,4) win True by (intro exI [of _ 0] exI [of _ w1]) auto
  next
    case False
    then have win: "window ?r w1 = (i, unat n)" using l(4) by (metis prod.collapse)
    have "length (map bm_addr (take (unat n) (rev (items bs)))) = unat n" using le by simp
    note sub = put_fills_submit [OF l(1) kd win this]
    show ?thesis
      using eq False n sub l(2,5) tl
      by (intro exI [of _ "unat n"] exI [of _ "prod_submit api ?r n
            (put_fills api ?r i (map bm_addr (take (unat n) (rev (items bs)))) w1)"]) auto
  qed
qed

end

context xsk_cons
begin

lemma service_correct:
  assumes ok: "ok w" and kd: "kind (cq_ring self) = Completion"
    and closed: "snd (window (cq_ring self) w) = 0"
    and ma: "256 \<le> buf_len (um_area (cq_umem self))"
    and wf: "vec_wf bs" and cap: "batch < 2 ^ 64"
    and idx: "\<And>n i w1. cons_peek api (cq_ring self)
       (of_nat (min (capacity bs - length (items bs)) batch)) 0 w = (n, i, w1)
       \<Longrightarrow> idx_ok prof i (unat n)"
  shows "\<exists>as w'. cq_service api prof dflt self bs batch w =
       Ret (Ok (length as), bs\<lparr>items := items bs
              @ map (\<lambda>a. frame_buf (um_area (cq_umem self)) a 0 dflt) as\<rparr>, w')
     \<and> length as \<le> min (capacity bs - length (items bs)) batch
     \<and> ok w' \<and> held w = held w' + mset as
     \<and> snd (window (cq_ring self) w') = 0
     \<and> (\<forall>q. q \<noteq> cq_ring self \<longrightarrow> window q w' = window q w)"
proof -
  let ?r = "cq_ring self" and ?m = "min (capacity bs - length (items bs)) batch"
  obtain n i w1 where pk: "cons_peek api ?r (of_nat ?m) 0 w = (n, i, w1)"
    by (cases "cons_peek api ?r (of_nat ?m) 0 w") auto
  have kd': "kind ?r \<in> {Completion, Rx}" using kd by simp
  note l = peek_ok [OF ok kd' closed pk] peek_held [OF ok kd' closed pk]
    peek_le [OF ok kd' closed pk] peek_window [OF ok kd' closed pk]
    peek_frame [OF ok kd' closed pk]
  have "unat (of_nat ?m :: u64) = ?m" using cap by (intro unat_of_nat_u64) simp
  then have m: "unat n \<le> ?m" using l(3) by (simp add: word_le_nat_alt)
  then have le: "unat n \<le> capacity bs - length (items bs)" by simp
  note eq = cq_service_eq [OF ma wf pk le idx [OF pk], of dflt]
  show ?thesis
  proof (cases "n = 0")
    case True
    then show ?thesis using eq l by (intro exI [of _ "[]"] exI [of _ w1]) simp
  next
    case False
    then have win: "window ?r w1 = (i, unat n)" using l(4) by (metis prod.collapse)
    note rel = release_ok [OF l(1) kd' win] release_closes [OF l(1) kd' win]
      release_frame [OF l(1) kd' win] release_comp [OF l(1) kd win]
    show ?thesis
      using eq False m l(2,5) rel
      by (intro exI [of _ "comp_entries api ?r i (unat n) w1"] exI [of _ "cons_release api ?r n w1"])
        auto
  qed
qed

end

text \<open>A call that returns with overflow checks returns the same without them.\<close>

lemma extends_service_loop [extends_intros]:
  "extends (service_loop api prof area avail dflt cq w n i bs)
     (service_loop api Release area avail dflt cq w n i bs)"
  by (induction n arbitrary: i bs) (auto simp: Let_def intro!: extends_intros)

lemma extends_fill_loop [extends_intros]:
  "extends (fill_loop api prof fq n i bs w) (fill_loop api Release fq n i bs w)"
proof (induction n arbitrary: i bs w)
  case (Suc n)
  then show ?case by (auto intro!: extends_intros split: option.split prod.split)
qed simp

lemma extends_cq_service [extends_intros]:
  "extends (cq_service api prof dflt self bs batch w) (cq_service api Release dflt self bs batch w)"
  unfolding cq_service_def Let_def by (intro extends_intros)

lemma extends_fq_fill [extends_intros]:
  "extends (fq_fill api prof self bs batch w) (fq_fill api Release self bs batch w)"
  unfolding fq_fill_def Let_def by (intro extends_intros)

section \<open>What the operations guarantee\<close>

text \<open>The example environment of the witnesses: the umem on \<open>ex_area\<close> and its two rings.\<close>

definition ex_umem :: umem where
  "ex_umem = \<lparr>um_area = ex_area, um_ptr = 4096\<rparr>"

definition ex_cq :: "kring_id umem_completion_queue" where
  "ex_cq = \<lparr>cq_umem = ex_umem, cq_ring = (False, Completion)\<rparr>"

definition ex_fq :: "kring_id umem_fill_queue" where
  "ex_fq = \<lparr>fq_umem = ex_umem, fq_ring = (False, Fill)\<rparr>"

definition ex_bufs :: "u64 list \<Rightarrow> unit buf_mmap vec" where
  "ex_bufs as = \<lparr>items = map (\<lambda>a. frame_buf ex_area a 0 ()) as, capacity = 8\<rparr>"

definition ex_comp_world :: "u32 \<Rightarrow> kworld" where
  "ex_comp_world c = mk_world (\<lambda>r. if r = (False, Completion) then [mk_desc 256 0, mk_desc 2304 0]
                                   else []) c"

lemma ex_comp_world_facts:
  "k_ok (ex_comp_world c)" "snd (k_window r (ex_comp_world c)) = 0"
  "k_held (ex_comp_world c) = {#256, 2304#}"
  by (auto simp: ex_comp_world_def mk_world_window mk_world_held UNIV_ring_id mk_desc_def
      intro: mk_world_ok)

text \<open>
  Property C9. \<open>service\<close> never panics when its ring index does not overflow. It appends to the
  vector, within its capacity, one empty buffer per completed frame, on the frame the kernel
  returned, and those frames leave the kernel: no frame is lost or duplicated, and no other
  ring is touched.
\<close>

theorem cq_service_correct:
  assumes "xsk_cons api ok held kind window" and "ok w" and "kind (cq_ring self) = Completion"
    and "snd (window (cq_ring self) w) = 0" and "256 \<le> buf_len (um_area (cq_umem self))"
    and "vec_wf bs" and "batch < 2 ^ 64"
    and "\<And>n i w1. cons_peek api (cq_ring self)
           (of_nat (min (capacity bs - length (items bs)) batch)) 0 w = (n, i, w1)
         \<Longrightarrow> idx_ok prof i (unat n)"
  shows "\<exists>as w'. cq_service api prof dflt self bs batch w =
       Ret (Ok (length as), bs\<lparr>items := items bs
              @ map (\<lambda>a. frame_buf (um_area (cq_umem self)) a 0 dflt) as\<rparr>, w')
     \<and> length as \<le> min (capacity bs - length (items bs)) batch
     \<and> ok w' \<and> held w = held w' + mset as \<and> snd (window (cq_ring self) w') = 0
     \<and> (\<forall>q. q \<noteq> cq_ring self \<longrightarrow> window q w' = window q w)"
  using assms(2-) by (rule xsk_cons.service_correct [OF assms(1)])

theorem cq_service_correct_witness:
  "\<exists>as w'. cq_service ref_api Release () ex_cq (ex_bufs [4352]) 16 (ex_comp_world (2 ^ 32 - 1)) =
       Ret (Ok (length as), (ex_bufs (4352 # as)), w')
     \<and> length as \<le> 7 \<and> {#256, 2304#} = k_held w' + mset as"
proof -
  have "vec_wf (ex_bufs [4352])" by (simp add: vec_wf_def ex_bufs_def)
  from cq_service_correct [OF refk.xsk_cons_axioms ex_comp_world_facts(1) _ _ _ this,
      of ex_cq "2 ^ 32 - 1" 16 Release "()"]
  show ?thesis
    by (auto simp: ex_comp_world_facts ex_cq_def ex_umem_def ex_area_def ex_bufs_def)
qed

text \<open>
  Property C10. \<open>fill\<close> never panics when its ring index does not overflow. It hands the kernel
  either nothing or exactly the last \<open>min len batch_size\<close> buffers of the vector, keeps the
  others in order, and the frames of the buffers that leave the vector arrive at the kernel.
\<close>

theorem fq_fill_correct:
  assumes "xsk_prod api ok held kind window staged" and "ok w" and "kind (fq_ring self) = Fill"
    and "snd (window (fq_ring self) w) = 0" and "batch < 2 ^ 64"
    and "\<And>n i w1. prod_reserve api (fq_ring self)
           (of_nat (min (length (items bs)) batch)) 0 w = (n, i, w1) \<Longrightarrow> idx_ok prof i (unat n)"
  shows "\<exists>n w'. fq_fill api prof self bs batch w =
       Ret (Ok n, bs\<lparr>items := take (length (items bs) - n) (items bs)\<rparr>, w')
     \<and> (n = 0 \<or> n = min (length (items bs)) batch)
     \<and> ok w' \<and> held w' = held w + owned (drop (length (items bs) - n) (items bs))
     \<and> snd (window (fq_ring self) w') = 0
     \<and> (\<forall>q. q \<noteq> fq_ring self \<longrightarrow> window q w' = window q w)"
  using assms(2-) by (rule xsk_prod.fill_correct [OF assms(1)])

theorem fq_fill_correct_witness:
  "\<exists>n w'. fq_fill ref_api Release ex_fq (ex_bufs [4352, 6400, 8448]) 2 (ex_comp_world (2 ^ 32 - 1)) =
       Ret (Ok n, ex_bufs (take (3 - n) [4352, 6400, 8448]), w')
     \<and> (n = 0 \<or> n = 2)
     \<and> k_held w' = {#256, 2304#} + mset (drop (3 - n) [4352, 6400, 8448])"
proof -
  note h = fq_fill_correct [where self = ex_fq and w = "ex_comp_world (2 ^ 32 - 1)"
      and bs = "ex_bufs [4352, 6400, 8448]" and batch = 2 and prof = Release,
      OF refk.xsk_prod_axioms ex_comp_world_facts(1)]
  have "min 3 2 = (2 :: nat)" by simp
  with h show ?thesis
    by (auto simp: ex_comp_world_facts ex_fq_def ex_bufs_def take_map drop_map
        simp del: take_Cons_numeral drop_Cons_numeral)
qed

text \<open>
  Property C29. The ring indices are free-running 32-bit counters, and the loops advance them
  with \<open>idx += 1\<close>. In a build with overflow checks both operations panic as soon as a batch
  reaches the end of the counter's range; the same calls succeed in a release build, where the
  counter wraps as libbpf intends.
\<close>

theorem umem_index_overflow:
  assumes "vec_wf bs" and "256 \<le> buf_len (um_area (cq_umem cq))"
    and "cons_peek api (cq_ring cq)
           (of_nat (min (capacity bs - length (items bs)) batch)) 0 w = (n, i, w1)"
    and "n \<noteq> 0" and "2 ^ 32 \<le> unat i + unat n"
    and "unat n \<le> capacity bs - length (items bs)"
    and "0 < min (length (items bs')) batch'"
    and "prod_reserve api (fq_ring fq) (of_nat (min (length (items bs')) batch')) 0 v = (m, j, v1)"
    and "2 ^ 32 \<le> unat j + unat m" and "unat m \<le> length (items bs')"
  shows "cq_service api Debug dflt cq bs batch w = Panic Overflow
       \<and> (\<exists>vs w'. cq_service api Release dflt cq bs batch w = Ret (Ok (unat n), vs, w'))
       \<and> fq_fill api Debug fq bs' batch' v = Panic Overflow
       \<and> (\<exists>vs v'. fq_fill api Release fq bs' batch' v = Ret (Ok (unat m), vs, v'))"
proof (intro conjI)
  have sub: "usize_sub Debug (capacity bs) (length (items bs)) = Ret (capacity bs - length (items bs))"
    using assms(1) by (intro usize_sub_ok) (simp add: vec_wf_def)
  have n: "unat n \<noteq> 0" using assms(4) by (simp add: unat_eq_zero)
  show "cq_service api Debug dflt cq bs batch w = Panic Overflow"
    using sub n assms(2,3)
    by (simp add: cq_service_def Let_def get_buf_len_def usize_sub_ok
        service_loop_overflow [OF assms(5)])
  show "\<exists>vs w'. cq_service api Release dflt cq bs batch w = Ret (Ok (unat n), vs, w')"
    using cq_service_eq [OF assms(2,1,3,6)] by auto
  obtain l where l: "min (length (items bs')) batch' = l" by blast
  show "fq_fill api Debug fq bs' batch' v = Panic Overflow"
    using assms(7,8) unfolding l
    by (simp add: fq_fill_def l Let_def fill_loop_overflow [OF assms(9,10)])
  show "\<exists>vs v'. fq_fill api Release fq bs' batch' v = Ret (Ok (unat m), vs, v')"
    using fq_fill_eq [OF assms(7,8,10)] by auto
qed

theorem umem_index_overflow_witness:
  "cq_service ref_api Debug () ex_cq (ex_bufs [4352]) 2 (ex_comp_world (2 ^ 32 - 1)) = Panic Overflow
   \<and> fq_fill ref_api Debug ex_fq (ex_bufs [4352]) 1 (ex_comp_world (2 ^ 32 - 1)) = Panic Overflow"
proof -
  let ?w = "ex_comp_world (2 ^ 32 - 1)"
  obtain w1 where w1: "cons_peek ref_api (cq_ring ex_cq) 2 0 ?w = (2, 2 ^ 32 - 1, w1)"
    by (simp add: ref_api_simps ex_cq_def ex_comp_world_def mk_kring_def)
  obtain w2 where w2: "prod_reserve ref_api (fq_ring ex_fq) 1 0 ?w = (1, 2 ^ 32 - 1, w2)"
    by (simp add: ref_api_simps ex_fq_def ex_comp_world_def mk_kring_def)
  have "vec_wf (ex_bufs [4352])" by (simp add: vec_wf_def ex_bufs_def)
  from umem_index_overflow [OF this, of ex_cq ref_api 2 ?w 2 "2 ^ 32 - 1" w1 "ex_bufs [4352]" 1
      ex_fq ?w 1 "2 ^ 32 - 1" w2 "()"] w1 w2
  show ?thesis by (simp add: ex_bufs_def ex_cq_def ex_umem_def ex_area_def)
qed

text \<open>
  Property C34. \<open>Umem::new\<close> rejects, before it calls libbpf or changes any state, exactly the
  ring sizes of which one is not a power of two; with two powers of two it never returns that
  error.
\<close>

theorem umem_new_ring_sizes:
  "umem_new api libc prof area csz fsz w = Ret (Err UmemRingNotPowerOfTwo, w')
   \<longleftrightarrow> w' = w \<and> \<not> ((\<exists>k<32. unat csz = 2 ^ k) \<and> (\<exists>k<32. unat fsz = 2 ^ k))"
proof (cases "is_pow_of_two csz \<and> is_pow_of_two fsz")
  case True
  then have "umem_new api libc prof area csz fsz w \<noteq> Ret (Err UmemRingNotPowerOfTwo, w')"
    by (auto simp: umem_new_def Let_def bnd_Ret_iff case_prod_beta split: if_split_asm)
  with True show ?thesis by (simp add: is_pow_of_two_range)
next
  case False
  then show ?thesis by (auto simp: umem_new_def is_pow_of_two_range)
qed

end
