(* ===== verification/Array_Deque.thy ===== *)
theory Array_Deque
  imports Rust_Prelude
begin

text \<open>
  The bounded queue between receiving and sending: \<open>ArrayDeque<[T; PENDING_LEN], Wrapping>\<close> of
  the crate arraydeque, which is not part of the repository. It is a parameter of the model
  (\<open>deque_api\<close>); the locale \<open>array_deque\<close> states its documentation: the capacity is the
  length of the backing array, \<open>push_back\<close> on a full queue drops the front element and returns
  it, \<open>pop_front\<close> takes the front element. \<open>list_deque\<close> is the queue kept as a list, which
  satisfies these laws.
\<close>

definition PENDING_LEN :: usize where
  "PENDING_LEN = 4096"

record ('b, 'q) deque_api =
  dq_new :: 'q
  dq_capacity :: "'q \<Rightarrow> usize"
  dq_len :: "'q \<Rightarrow> usize"
  dq_is_empty :: "'q \<Rightarrow> bool"
  dq_push_back :: "'b \<Rightarrow> 'q \<Rightarrow> 'b option \<times> 'q"
  dq_pop_front :: "'q \<Rightarrow> 'b option \<times> 'q"
  dq_drain :: "'q \<Rightarrow> 'b list \<times> 'q"
  dq_iter :: "'q \<Rightarrow> 'b list"

locale array_deque =
  fixes dq :: "('b, 'q) deque_api"
    and dq_ok :: "'q \<Rightarrow> bool"
    and queued :: "'q \<Rightarrow> 'b list"
  assumes new_deque: "dq_ok (dq_new dq) \<and> queued (dq_new dq) = []"
    and capacity_deque: "dq_ok q \<Longrightarrow> dq_capacity dq q = PENDING_LEN"
    and len_deque: "dq_ok q \<Longrightarrow> dq_len dq q = length (queued q)"
    and is_empty_deque: "dq_ok q \<Longrightarrow> dq_is_empty dq q \<longleftrightarrow> queued q = []"
    and queued_bound: "dq_ok q \<Longrightarrow> length (queued q) \<le> PENDING_LEN"
    and push_room: "dq_ok q \<Longrightarrow> length (queued q) < PENDING_LEN \<Longrightarrow> dq_push_back dq b q = (r, q') \<Longrightarrow>
          r = None \<and> dq_ok q' \<and> queued q' = queued q @ [b]"
    and push_full: "dq_ok q \<Longrightarrow> length (queued q) = PENDING_LEN \<Longrightarrow> dq_push_back dq b q = (r, q') \<Longrightarrow>
          r = Some (hd (queued q)) \<and> dq_ok q' \<and> queued q' = tl (queued q) @ [b]"
    and pop_front: "dq_ok q \<Longrightarrow> dq_pop_front dq q = (r, q') \<Longrightarrow>
          dq_ok q' \<and> r = (case queued q of [] \<Rightarrow> None | b # bs \<Rightarrow> Some b) \<and> queued q' = tl (queued q)"
    and drain_deque: "dq_ok q \<Longrightarrow> dq_drain dq q = (bs, q') \<Longrightarrow>
          bs = queued q \<and> dq_ok q' \<and> queued q' = []"
    and iter_deque: "dq_ok q \<Longrightarrow> dq_iter dq q = queued q"
begin

lemma pop_front_Cons:
  assumes "dq_ok q" and "queued q = b # bs"
  shows "\<exists>q'. dq_pop_front dq q = (Some b, q') \<and> dq_ok q' \<and> queued q' = bs"
  using pop_front [OF assms(1)] assms(2) by (cases "dq_pop_front dq q") simp

lemma pop_front_Nil:
  assumes "dq_ok q" and "queued q = []"
  shows "\<exists>q'. dq_pop_front dq q = (None, q') \<and> dq_ok q' \<and> queued q' = []"
  using pop_front [OF assms(1)] assms(2) by (cases "dq_pop_front dq q") simp

lemma push_back_room:
  assumes "dq_ok q" and "length (queued q) < PENDING_LEN"
  shows "\<exists>q'. dq_push_back dq b q = (None, q') \<and> dq_ok q' \<and> queued q' = queued q @ [b]"
  using push_room [OF assms] by (cases "dq_push_back dq b q") simp

end

definition list_deque :: "('b, 'b list) deque_api" where
  "list_deque = \<lparr>
     dq_new = [],
     dq_capacity = (\<lambda>q. PENDING_LEN),
     dq_len = length,
     dq_is_empty = (\<lambda>q. q = []),
     dq_push_back = (\<lambda>b q. if length q < PENDING_LEN then (None, q @ [b])
                           else (Some (hd q), tl q @ [b])),
     dq_pop_front = (\<lambda>q. case q of [] \<Rightarrow> (None, []) | b # bs \<Rightarrow> (Some b, bs)),
     dq_drain = (\<lambda>q. (q, [])),
     dq_iter = (\<lambda>q. q)\<rparr>"

interpretation listq: array_deque list_deque "\<lambda>q. length q \<le> PENDING_LEN" "\<lambda>q. q"
  by unfold_locales
    (auto simp: list_deque_def PENDING_LEN_def split: list.splits if_splits)

end
