(* ===== verification/Socket.thy ===== *)
theory Socket
  imports Umem Array_Deque
begin

text \<open>
  \<open>src/socket.rs\<close>: construction of the three kinds of socket, receiving (\<open>try_recv\<close>), sending
  (\<open>try_send\<close>) and the wake-ups of the kernel. As in \<open>Umem\<close>, the loops are recursions on their
  iteration count and the lemmas give every operation as an equation over what the ring call
  returned; the locale \<open>xsk_link\<close> joins the ring laws with those of the pending queue.
\<close>

section \<open>Data\<close>

record socket =
  so_umem :: umem
  so_ptr :: u64
  so_if_name :: string

record 'r socket_rx =
  rx_socket :: socket
  rx_fd :: c_int
  rx_ring :: 'r

record 'r socket_tx =
  tx_socket :: socket
  tx_fd :: c_int
  tx_ring :: 'r

datatype socket_new_error = SocketCreate c_int | SocketRingNotPowerOfTwo

datatype socket_error = SocketFailed

record socket_options =
  zero_copy_mode :: bool
  copy_mode :: bool
  tx_ring_size :: u32
  rx_ring_size :: u32

definition POLL_TIMEOUT :: c_int where
  "POLL_TIMEOUT = 0"

section \<open>Construction\<close>

definition socket_config :: "('r, 'w) xsk_api \<Rightarrow> u32 \<Rightarrow> u32 \<Rightarrow> socket_options \<Rightarrow> xsk_socket_config" where
  "socket_config api rx_sz tx_sz options =
     (let cfg = \<lparr>rx_size = rx_sz, tx_size = tx_sz,
                 xdp_flags = XDP_FLAGS_UPDATE_IF_NOEXIST api,
                 bind_flags = ucast (XDP_USE_NEED_WAKEUP api), libbpf_flags = 0\<rparr>;
          cfg = (if zero_copy_mode options
                 then cfg\<lparr>bind_flags := bind_flags cfg OR ucast (XDP_ZEROCOPY api)\<rparr> else cfg);
          cfg = (if copy_mode options
                 then cfg\<lparr>bind_flags := bind_flags cfg OR ucast (XDP_COPY api)\<rparr> else cfg)
      in cfg)"

text \<open>\<open>CString::new(s).unwrap()\<close> panics on an interior NUL byte.\<close>

definition cstring_new :: "string \<Rightarrow> string outcome" where
  "cstring_new s = (if CHR 0x00 \<in> set s then Panic UnwrapFailed else Ret s)"

definition socket_new :: "('r, 'w) xsk_api \<Rightarrow> 'w libc_api \<Rightarrow> umem \<Rightarrow> string \<Rightarrow> usize \<Rightarrow> u32 \<Rightarrow> u32
    \<Rightarrow> socket_options \<Rightarrow> 'w
    \<Rightarrow> ((socket \<times> 'r socket_rx \<times> 'r socket_tx, socket_new_error) result \<times> 'w) outcome" where
  "socket_new api libc um if_name queue rx_sz tx_sz options w =
     (if \<not> is_pow_of_two rx_sz \<or> \<not> is_pow_of_two tx_sz
      then Ret (Err SocketRingNotPowerOfTwo, w)
      else
        let cfg = socket_config api rx_sz tx_sz options;
            (rx, w) = new_ring api w;
            (tx, w) = new_ring api w
        in bnd (cstring_new if_name) (\<lambda>if_name_c.
          let (ret, ptr, w) = socket_create api if_name_c (of_nat queue) (umem_get_ptr um)
                                (Some rx) (Some tx) cfg w in
          if ret \<noteq> 0 then Ret (Err (SocketCreate (c_errno libc w)), w)
          else
            let s = \<lparr>so_umem = um, so_ptr = ptr, so_if_name = if_name_c\<rparr> in
            Ret (Ok (s, \<lparr>rx_socket = s, rx_fd = socket_fd api ptr w, rx_ring = rx\<rparr>,
                     \<lparr>tx_socket = s, tx_fd = socket_fd api ptr w, tx_ring = tx\<rparr>), w)))"

definition socket_new_rx :: "('r, 'w) xsk_api \<Rightarrow> 'w libc_api \<Rightarrow> umem \<Rightarrow> string \<Rightarrow> usize \<Rightarrow> u32
    \<Rightarrow> socket_options \<Rightarrow> 'w
    \<Rightarrow> ((socket \<times> 'r socket_rx, socket_new_error) result \<times> 'w) outcome" where
  "socket_new_rx api libc um if_name queue rx_sz options w =
     (if \<not> is_pow_of_two rx_sz then Ret (Err SocketRingNotPowerOfTwo, w)
      else
        let cfg = socket_config api rx_sz 0 options;
            (rx, w) = new_ring api w
        in bnd (cstring_new if_name) (\<lambda>if_name_c.
          let (ret, ptr, w) = socket_create api if_name_c (of_nat queue) (umem_get_ptr um)
                                (Some rx) None cfg w in
          if ret \<noteq> 0 then Ret (Err (SocketCreate (c_errno libc w)), w)
          else
            let s = \<lparr>so_umem = um, so_ptr = ptr, so_if_name = if_name_c\<rparr> in
            Ret (Ok (s, \<lparr>rx_socket = s, rx_fd = socket_fd api ptr w, rx_ring = rx\<rparr>), w)))"

definition socket_new_tx :: "('r, 'w) xsk_api \<Rightarrow> 'w libc_api \<Rightarrow> umem \<Rightarrow> string \<Rightarrow> usize \<Rightarrow> u32
    \<Rightarrow> socket_options \<Rightarrow> 'w
    \<Rightarrow> ((socket \<times> 'r socket_tx, socket_new_error) result \<times> 'w) outcome" where
  "socket_new_tx api libc um if_name queue tx_sz options w =
     (if \<not> is_pow_of_two tx_sz then Ret (Err SocketRingNotPowerOfTwo, w)
      else
        let cfg = socket_config api 0 tx_sz options;
            (tx, w) = new_ring api w
        in bnd (cstring_new if_name) (\<lambda>if_name_c.
          let (ret, ptr, w) = socket_create api if_name_c (of_nat queue) (umem_get_ptr um)
                                None (Some tx) cfg w in
          if ret \<noteq> 0 then Ret (Err (SocketCreate (c_errno libc w)), w)
          else
            let s = \<lparr>so_umem = um, so_ptr = ptr, so_if_name = if_name_c\<rparr> in
            Ret (Ok (s, \<lparr>tx_socket = s, tx_fd = socket_fd api ptr w, tx_ring = tx\<rparr>), w)))"

definition socket_drop :: "('r, 'w) xsk_api \<Rightarrow> socket \<Rightarrow> 'w \<Rightarrow> 'w" where
  "socket_drop api s w = socket_delete api (so_ptr s) w"

section \<open>Receiving\<close>

text \<open>The result is the errno that \<open>wake\<close> prints when \<open>poll\<close> fails.\<close>

definition rx_wake :: "'w libc_api \<Rightarrow> 'r socket_rx \<Rightarrow> 'w \<Rightarrow> c_int option \<times> 'w" where
  "rx_wake libc self w =
     (let (ret, w) = c_poll libc (rx_fd self) (POLLIN libc) POLL_TIMEOUT w in
      if ret < 0 then (Some (c_errno libc w), w) else (None, w))"

primrec recv_loop :: "('r, 'w) xsk_api \<Rightarrow> profile \<Rightarrow> ('u buf_mmap, 'q) deque_api \<Rightarrow> mmap_area \<Rightarrow> usize
    \<Rightarrow> 'u \<Rightarrow> 'r \<Rightarrow> 'w \<Rightarrow> nat \<Rightarrow> u32 \<Rightarrow> 'q \<Rightarrow> 'q outcome" where
  "recv_loop api prof dq area avail user rx w 0 idx q = Ret q"
| "recv_loop api prof dq area avail user rx w (Suc k) idx q =
     (let desc = cons_rx_desc api rx idx w;
          addr = desc_addr desc in
      bnd (u16_try_from (unat (desc_len desc))) (\<lambda>l.
        let ptr = ptr_offset (get_ptr area) addr;
            b = \<lparr>bm_addr = addr, bm_len = l, bm_data = \<lparr>sl_ptr = ptr, sl_len = avail\<rparr>,
                 bm_user = user\<rparr>
        in case dq_push_back dq b q of
             (Some _, q) \<Rightarrow> Panic ExplicitPanic
           | (None, q) \<Rightarrow>
               bnd (u32_inc prof idx) (\<lambda>idx.
                 recv_loop api prof dq area avail user rx w k idx q)))"

definition try_recv :: "('r, 'w) xsk_api \<Rightarrow> profile \<Rightarrow> ('u buf_mmap, 'q) deque_api \<Rightarrow> 'r socket_rx
    \<Rightarrow> 'q \<Rightarrow> usize \<Rightarrow> 'u \<Rightarrow> 'w \<Rightarrow> ((usize, socket_error) result \<times> 'q \<times> 'w) outcome" where
  "try_recv api prof dq self q batch_size user w =
     bnd (usize_sub prof (dq_capacity dq q) (dq_len dq q)) (\<lambda>space.
       let batch_size = min space batch_size;
           (rcvd, idx_rx, w) = cons_peek api (rx_ring self) (of_nat batch_size) 0 w;
           rcvd = unat rcvd
       in if rcvd = 0 then Ret (Ok 0, q, w)
          else
            let area = um_area (so_umem (rx_socket self)) in
            bnd (usize_sub prof (get_buf_len area) (unat AF_XDP_RESERVED)) (\<lambda>avail.
            bnd (recv_loop api prof dq area avail user (rx_ring self) w rcvd idx_rx q) (\<lambda>q.
              Ret (Ok rcvd, q, cons_release api (rx_ring self) (of_nat rcvd) w))))"

section \<open>Sending\<close>

text \<open>The two fields of a tx descriptor that the code writes.\<close>

definition tx_fill :: "'u buf_mmap \<Rightarrow> xdp_desc \<Rightarrow> xdp_desc" where
  "tx_fill b d = d\<lparr>desc_addr := bm_addr b, desc_len := ucast (bm_len b)\<rparr>"

primrec send_loop :: "('r, 'w) xsk_api \<Rightarrow> profile \<Rightarrow> ('u buf_mmap, 'q) deque_api \<Rightarrow> 'r \<Rightarrow> nat \<Rightarrow> u32
    \<Rightarrow> 'q \<Rightarrow> 'w \<Rightarrow> ('q \<times> 'w) outcome" where
  "send_loop api prof dq tx 0 idx q w = Ret (q, w)"
| "send_loop api prof dq tx (Suc k) idx q w =
     (case dq_pop_front dq q of
        (None, q) \<Rightarrow> Panic UnwrapFailed
      | (Some b, q) \<Rightarrow>
          let w = prod_put_tx api tx idx (tx_fill b) w in
          bnd (u32_inc prof idx) (\<lambda>idx. send_loop api prof dq tx k idx q w))"

definition tx_needs_wakeup :: "('r, 'w) xsk_api \<Rightarrow> 'r socket_tx \<Rightarrow> 'w \<Rightarrow> bool" where
  "tx_needs_wakeup api self w =
     (if prod_needs_wakeup api (tx_ring self) w \<noteq> 0 then True else False)"

definition wakeup_if_required :: "('r, 'w) xsk_api \<Rightarrow> 'w libc_api \<Rightarrow> 'r socket_tx \<Rightarrow> 'w
    \<Rightarrow> (bool \<times> 'w) outcome" where
  "wakeup_if_required api libc self w =
     (if prod_needs_wakeup api (tx_ring self) w \<noteq> 0
      then let (ret, w) = c_sendto libc (tx_fd self) 0 0 (MSG_DONTWAIT libc) 0 0 w in
           if 0 \<le> ret then Ret (True, w)
           else if c_errno libc w \<in> {ENOBUFS libc, EAGAIN libc, EBUSY libc, ENETDOWN libc}
           then Ret (True, w)
           else Panic ExplicitPanic
      else Ret (False, w))"

definition try_send :: "('r, 'w) xsk_api \<Rightarrow> 'w libc_api \<Rightarrow> profile \<Rightarrow> ('u buf_mmap, 'q) deque_api
    \<Rightarrow> 'r socket_tx \<Rightarrow> 'q \<Rightarrow> usize \<Rightarrow> 'w
    \<Rightarrow> ((usize, socket_error) result \<times> 'q \<times> 'w) outcome" where
  "try_send api libc prof dq self q batch_size w =
     (let batch_size = min (dq_len dq q) batch_size in
      if batch_size = 0 then Ret (Ok 0, q, w)
      else
        let (ready, idx_tx, w) = prod_reserve api (tx_ring self) (of_nat batch_size) 0 w;
            ready = unat ready
        in bnd (send_loop api prof dq (tx_ring self) ready idx_tx q w) (\<lambda>(q, w).
             let w = (if 0 < ready then prod_submit api (tx_ring self) (of_nat ready) w else w) in
             bnd (wakeup_if_required api libc self w) (\<lambda>(_, w).
               Ret (Ok ready, q, w))))"

section \<open>The operations as equations\<close>

text \<open>The buffer that \<open>try_recv\<close> makes of a descriptor.\<close>

abbreviation rx_buf :: "mmap_area \<Rightarrow> 'u \<Rightarrow> xdp_desc \<Rightarrow> 'u buf_mmap" where
  "rx_buf area user d \<equiv> frame_buf area (desc_addr d) (of_nat (unat (desc_len d))) user"

abbreviation put_txs :: "('r, 'w) xsk_api \<Rightarrow> 'r \<Rightarrow> u32 \<Rightarrow> 'u buf_mmap list \<Rightarrow> 'w \<Rightarrow> 'w" where
  "put_txs api r \<equiv> puts (\<lambda>i b. prod_put_tx api r i (tx_fill b))"

lemma desc_addr_tx_fill [simp]: "desc_addr (tx_fill b d) = bm_addr b"
  by (simp add: tx_fill_def)

lemma extends_recv_loop [extends_intros]:
  "extends (recv_loop api prof dq area avail user rx w n i q)
     (recv_loop api Release dq area avail user rx w n i q)"
proof (induction n arbitrary: i q)
  case (Suc n)
  then show ?case by (auto simp: Let_def intro!: extends_intros split: option.split prod.split)
qed simp

lemma extends_send_loop [extends_intros]:
  "extends (send_loop api prof dq tx n i q w) (send_loop api Release dq tx n i q w)"
proof (induction n arbitrary: i q w)
  case (Suc n)
  then show ?case by (auto simp: Let_def intro!: extends_intros split: option.split prod.split)
qed simp

lemma extends_try_recv [extends_intros]:
  "extends (try_recv api prof dq self q batch user w) (try_recv api Release dq self q batch user w)"
  unfolding try_recv_def Let_def by (intro extends_intros)

lemma extends_try_send [extends_intros]:
  "extends (try_send api libc prof dq self q batch w) (try_send api libc Release dq self q batch w)"
  unfolding try_send_def Let_def by (intro extends_intros)

lemma wakeup_outcome:
  "(\<exists>b w'. wakeup_if_required api libc self w = Ret (b, w'))
   \<or> wakeup_if_required api libc self w = Panic ExplicitPanic"
  by (auto simp: wakeup_if_required_def case_prod_beta Let_def)

text \<open>The interface of a socket: the rings, the wake-up calls and the pending queue.\<close>

locale xsk_link =
  xsk_rings api ok held kind window staged libc + array_deque dq dq_ok queued
  for api :: "('r, 'w) xsk_api" and ok held kind window staged and libc :: "'w libc_api"
    and dq :: "('u buf_mmap, 'q) deque_api" and dq_ok queued
begin

lemma recv_loop_eq:
  assumes "dq_ok q" and "length (queued q) + n \<le> PENDING_LEN" and "idx_ok prof i n"
    and "\<forall>d \<in> set (rx_entries api r i n w). unat (desc_len d) < 2 ^ 16"
  shows "\<exists>q'. recv_loop api prof dq area (buf_len area - 256) user r w n i q = Ret q'
       \<and> dq_ok q' \<and> queued q' = queued q @ map (rx_buf area user) (rx_entries api r i n w)"
  using assms
proof (induction n arbitrary: i q)
  case (Suc n)
  let ?d = "cons_rx_desc api r i w"
  have l: "unat (desc_len ?d) < 2 ^ 16" using Suc.prems(4) by (simp add: rx_entries_Suc)
  obtain q' where q': "dq_push_back dq (rx_buf area user ?d) q = (None, q')" "dq_ok q'"
    "queued q' = queued q @ [rx_buf area user ?d]"
    using push_back_room [OF Suc.prems(1)] Suc.prems(2) by force
  have "length (queued q') + n \<le> PENDING_LEN" using Suc.prems(2) q'(3) by simp
  from Suc.IH [OF q'(2) this idx_ok_step(2) [OF Suc.prems(3)]] Suc.prems(4)
  obtain q'' where "recv_loop api prof dq area (buf_len area - 256) user r w n (i + 1) q' = Ret q''"
    "dq_ok q''" "queued q'' = queued q' @ map (rx_buf area user) (rx_entries api r (i + 1) n w)"
    by (auto simp: rx_entries_Suc)
  moreover have "\<lparr>bm_addr = desc_addr ?d, bm_len = of_nat (unat (desc_len ?d)), bm_data =
      \<lparr>sl_ptr = ptr_offset (get_ptr area) (desc_addr ?d), sl_len = buf_len area - 256\<rparr>,
      bm_user = user\<rparr> = rx_buf area user ?d"
    by (simp add: frame_buf_def frame_slice_def get_ptr_def)
  ultimately show ?case
    using q' idx_ok_step(1) [OF Suc.prems(3)]
    by (simp add: u16_try_from_ok [OF l] Let_def rx_entries_Suc)
qed simp

lemma send_loop_eq:
  assumes "dq_ok q" and "n \<le> length (queued q)" and "idx_ok prof i n"
  shows "\<exists>q'. send_loop api prof dq r n i q w = Ret (q', put_txs api r i (take n (queued q)) w)
       \<and> dq_ok q' \<and> queued q' = drop n (queued q)"
  using assms
proof (induction n arbitrary: i q w)
  case (Suc n)
  then obtain b bs where bs: "queued q = b # bs" by (cases "queued q") auto
  obtain q' where q': "dq_pop_front dq q = (Some b, q')" "dq_ok q'" "queued q' = bs"
    using pop_front_Cons [OF Suc.prems(1) bs] by blast
  then show ?case
    using Suc.IH [OF q'(2) _ idx_ok_step(2) [OF Suc.prems(3)]] Suc.prems(2) bs
    by (simp add: idx_ok_step(1) [OF Suc.prems(3)] Let_def)
qed simp

lemma wakeup_keeps:
  assumes "ok w" and "wakeup_if_required api libc self w = Ret (b, w')"
  shows "ok w' \<and> held w' = held w \<and> (\<forall>q. window q w' = window q w)"
proof (cases "prod_needs_wakeup api (tx_ring self) w = 0")
  case True
  then show ?thesis using assms by (simp add: wakeup_if_required_def)
next
  case False
  obtain res v where s: "c_sendto libc (tx_fd self) 0 0 (MSG_DONTWAIT libc) 0 0 w = (res, v)"
    by fastforce
  with False assms(2) have "w' = v"
    by (auto simp: wakeup_if_required_def split: if_splits)
  then show ?thesis using sendto_keeps [OF assms(1) s] by simp
qed

lemma rx_wake_keeps:
  assumes "ok w" and "rx_wake libc self w = (e, w')"
  shows "ok w' \<and> held w' = held w \<and> (\<forall>q. window q w' = window q w)"
  using assms(2) poll_keeps [OF assms(1)]
  by (cases "c_poll libc (rx_fd self) (POLLIN libc) POLL_TIMEOUT w")
    (auto simp: rx_wake_def split: if_splits)

lemma put_txs_submit:
  fixes bs :: "'u buf_mmap list"
  assumes "ok w" and "kind r = Tx" and "window r w = (i, unat n)" and "length bs = unat n"
  shows "ok (prod_submit api r n (put_txs api r i bs w))
     \<and> held (prod_submit api r n (put_txs api r i bs w)) = held w + owned bs
     \<and> snd (window r (prod_submit api r n (put_txs api r i bs w))) = 0
     \<and> (\<forall>q. q \<noteq> r \<longrightarrow> window q (prod_submit api r n (put_txs api r i bs w)) = window q w)"
proof -
  have "ok (prod_put_tx api r (i + of_nat k) (tx_fill b) w)
      \<and> held (prod_put_tx api r (i + of_nat k) (tx_fill b) w) = held w
      \<and> (\<forall>q. window q (prod_put_tx api r (i + of_nat k) (tx_fill b) w) = window q w)
      \<and> (\<forall>m<unat n. staged r (i + of_nat m) (prod_put_tx api r (i + of_nat k) (tx_fill b) w)
               = (if m = k then bm_addr b else staged r (i + of_nat m) w))"
    if "ok w" "window r w = (i, unat n)" "k < unat n" for k and b :: "'u buf_mmap" and w
    using put_tx_keeps [OF that(1) assms(2) that(2,3) refl]
      put_tx_staged [where f = "tx_fill b", OF that(1) assms(2) that(2,3) _ desc_addr_tx_fill]
    by blast
  from puts_submit [where adr = bm_addr and p = "\<lambda>i b. prod_put_tx api r i (tx_fill b)",
      OF this assms(1) _ assms(3,4)] assms(2)
  show ?thesis by simp
qed

text \<open>\<open>try_recv\<close> and \<open>try_send\<close> in terms of the ring functions they call.\<close>

lemma recv_run:
  assumes ok: "ok w" and kd: "kind (rx_ring self) = Rx"
    and closed: "snd (window (rx_ring self) w) = 0"
    and ma: "256 \<le> buf_len (um_area (so_umem (rx_socket self)))" and q: "dq_ok q"
    and idx: "\<forall>n i w1. cons_peek api (rx_ring self)
       (of_nat (min (PENDING_LEN - length (queued q)) batch)) 0 w = (n, i, w1) \<longrightarrow> idx_ok prof i (unat n)"
  shows "\<exists>n i w1 q'. cons_peek api (rx_ring self)
         (of_nat (min (PENDING_LEN - length (queued q)) batch)) 0 w = (n, i, w1)
     \<and> try_recv api prof dq self q batch user w
       = Ret (Ok (unat n), q', if n = 0 then w1 else cons_release api (rx_ring self) n w1)
     \<and> unat n \<le> min (PENDING_LEN - length (queued q)) batch \<and> dq_ok q'
     \<and> queued q' = queued q @ map (rx_buf (um_area (so_umem (rx_socket self))) user)
                                (rx_entries api (rx_ring self) i (unat n) w1)
     \<and> (\<forall>d \<in> set (rx_entries api (rx_ring self) i (unat n) w1). unat (desc_len d) < 2 ^ 16)
     \<and> ok w1 \<and> held w1 = held w \<and> snd (window (rx_ring self) w1) = unat n
     \<and> (n \<noteq> 0 \<longrightarrow> window (rx_ring self) w1 = (i, unat n))
     \<and> (\<forall>p. p \<noteq> rx_ring self \<longrightarrow> window p w1 = window p w)"
proof -
  let ?r = "rx_ring self" and ?m = "min (PENDING_LEN - length (queued q)) batch"
    and ?a = "um_area (so_umem (rx_socket self))"
  obtain n i w1 where pk: "cons_peek api ?r (of_nat ?m) 0 w = (n, i, w1)"
    by (cases "cons_peek api ?r (of_nat ?m) 0 w") auto
  have kd': "kind ?r \<in> {Completion, Rx}" using kd by simp
  note l = peek_ok [OF ok kd' closed pk] peek_held [OF ok kd' closed pk]
    peek_le [OF ok kd' closed pk] peek_window [OF ok kd' closed pk] peek_frame [OF ok kd' closed pk]
  have "unat (of_nat ?m :: u64) = ?m" by (intro unat_of_nat_u64) (simp add: PENDING_LEN_def)
  then have m: "unat n \<le> ?m" using l(3) by (simp add: word_le_nat_alt)
  have sub: "usize_sub prof (dq_capacity dq q) (dq_len dq q) = Ret (PENDING_LEN - length (queued q))"
    using queued_bound [OF q] by (simp add: capacity_deque [OF q] len_deque [OF q] usize_sub_ok)
  have win: "n \<noteq> 0 \<longrightarrow> window ?r w1 = (i, unat n)" using l(4) by (metis prod.collapse)
  let ?ds = "rx_entries api ?r i (unat n) w1"
  have le: "\<forall>d \<in> set ?ds. unat (desc_len d) < 2 ^ 16"
  proof (cases "n = 0")
    case False
    with win show ?thesis using rx_len_fits [OF l(1) kd] by (auto simp: rx_entries_def)
  qed simp
  have "length (queued q) + unat n \<le> PENDING_LEN" using m queued_bound [OF q] by linarith
  moreover have "idx_ok prof i (unat n)" using idx pk by blast
  ultimately obtain q' where q': "dq_ok q'" "queued q' = queued q @ map (rx_buf ?a user) ?ds"
    "recv_loop api prof dq ?a (buf_len ?a - 256) user ?r w1 (unat n) i q = Ret q'"
    using recv_loop_eq [OF q _ _ le] by blast
  have "n = 0 \<longrightarrow> q' = q" using q'(3) by auto
  then have "try_recv api prof dq self q batch user w
      = Ret (Ok (unat n), q', if n = 0 then w1 else cons_release api ?r n w1)"
    using pk ma q'(3) by (simp add: try_recv_def sub get_buf_len_def usize_sub_ok Let_def unat_eq_zero)
  then show ?thesis using pk m q'(1,2) le l(1,2,4,5) win by blast
qed

lemma recv_exact:
  assumes ok: "ok w" and kd: "kind (rx_ring self) = Rx"
    and closed: "snd (window (rx_ring self) w) = 0"
    and ma: "256 \<le> buf_len (um_area (so_umem (rx_socket self)))" and q: "dq_ok q"
    and idx: "\<forall>n i w1. cons_peek api (rx_ring self)
       (of_nat (min (PENDING_LEN - length (queued q)) batch)) 0 w = (n, i, w1) \<longrightarrow> idx_ok prof i (unat n)"
  shows "\<exists>n i w1 ds q' w'. cons_peek api (rx_ring self)
         (of_nat (min (PENDING_LEN - length (queued q)) batch)) 0 w = (n, i, w1)
     \<and> ds = rx_entries api (rx_ring self) i (unat n) w1
     \<and> w' = (if n = 0 then w1 else cons_release api (rx_ring self) n w1)
     \<and> try_recv api prof dq self q batch user w = Ret (Ok (length ds), q', w')
     \<and> length ds \<le> min (PENDING_LEN - length (queued q)) batch \<and> dq_ok q'
     \<and> queued q' = queued q @ map (rx_buf (um_area (so_umem (rx_socket self))) user) ds
     \<and> ok w' \<and> held w = held w' + mset (map desc_addr ds)
     \<and> snd (window (rx_ring self) w') = 0
     \<and> (\<forall>p. p \<noteq> rx_ring self \<longrightarrow> window p w' = window p w)"
proof -
  let ?r = "rx_ring self"
  obtain n i w1 q' where pk: "cons_peek api ?r (of_nat (min (PENDING_LEN - length (queued q)) batch)) 0 w = (n, i, w1)"
    and r: "try_recv api prof dq self q batch user w
       = Ret (Ok (unat n), q', if n = 0 then w1 else cons_release api ?r n w1)"
    "unat n \<le> min (PENDING_LEN - length (queued q)) batch" "dq_ok q'"
    "queued q' = queued q @ map (rx_buf (um_area (so_umem (rx_socket self))) user)
       (rx_entries api ?r i (unat n) w1)"
    "ok w1" "held w1 = held w" "snd (window ?r w1) = unat n"
    "n \<noteq> 0 \<longrightarrow> window ?r w1 = (i, unat n)" "\<forall>p. p \<noteq> ?r \<longrightarrow> window p w1 = window p w"
    using recv_run [where user = user and batch = batch and prof = prof, OF ok kd closed ma q] idx by blast
  have kd': "kind ?r \<in> {Completion, Rx}" using kd by simp
  show ?thesis
  proof (cases "n = 0")
    case True
    then show ?thesis using pk r by (intro exI [of _ n] exI [of _ i] exI [of _ w1] exI [of _ "[]"] exI [of _ q']) simp
  next
    case False
    then have win: "window ?r w1 = (i, unat n)" using r(8) by simp
    show ?thesis
      using False r(1-4,6,9) release_ok [OF r(5) kd' win] release_closes [OF r(5) kd' win]
        release_frame [OF r(5) kd' win] release_rx [OF r(5) kd win]
      by (intro exI [of _ n] exI [of _ i] exI [of _ w1] exI [of _ "rx_entries api ?r i (unat n) w1"] exI [of _ q']
          exI [of _ "cons_release api ?r n w1"]) (auto simp: pk)
  qed
qed

lemma recv_correct:
  assumes "ok w" and "kind (rx_ring self) = Rx" and "snd (window (rx_ring self) w) = 0"
    and "256 \<le> buf_len (um_area (so_umem (rx_socket self)))" and "dq_ok q"
    and "\<And>n i w1. cons_peek api (rx_ring self)
       (of_nat (min (PENDING_LEN - length (queued q)) batch)) 0 w = (n, i, w1) \<Longrightarrow> idx_ok prof i (unat n)"
  shows "\<exists>ds q' w'. try_recv api prof dq self q batch user w = Ret (Ok (length ds), q', w')
     \<and> length ds \<le> min (PENDING_LEN - length (queued q)) batch \<and> dq_ok q'
     \<and> queued q' = queued q @ map (rx_buf (um_area (so_umem (rx_socket self))) user) ds
     \<and> ok w' \<and> held w = held w' + mset (map desc_addr ds)
     \<and> snd (window (rx_ring self) w') = 0
     \<and> (\<forall>p. p \<noteq> rx_ring self \<longrightarrow> window p w' = window p w)"
  using recv_exact [where user = user and batch = batch and prof = prof, OF assms(1-5)] assms(6) by blast

lemma send_run:
  assumes ok: "ok w" and kd: "kind (tx_ring self) = Tx"
    and closed: "snd (window (tx_ring self) w) = 0" and q: "dq_ok q"
    and ne: "min (length (queued q)) batch \<noteq> 0"
    and idx: "\<forall>n i w1. prod_reserve api (tx_ring self)
       (of_nat (min (length (queued q)) batch)) 0 w = (n, i, w1) \<longrightarrow> idx_ok prof i (unat n)"
  shows "\<exists>n i w1 q'. prod_reserve api (tx_ring self)
         (of_nat (min (length (queued q)) batch)) 0 w = (n, i, w1)
     \<and> try_send api libc prof dq self q batch w
       = bnd (wakeup_if_required api libc self (if n = 0 then w1
               else prod_submit api (tx_ring self) n (put_txs api (tx_ring self) i (take (unat n) (queued q)) w1)))
             (\<lambda>(_, w'). Ret (Ok (unat n), q', w'))
     \<and> (unat n = 0 \<or> unat n = min (length (queued q)) batch) \<and> dq_ok q'
     \<and> queued q' = drop (unat n) (queued q)
     \<and> ok w1 \<and> held w1 = held w \<and> snd (window (tx_ring self) w1) = unat n
     \<and> (n \<noteq> 0 \<longrightarrow> window (tx_ring self) w1 = (i, unat n))
     \<and> (\<forall>p. p \<noteq> tx_ring self \<longrightarrow> window p w1 = window p w)"
proof -
  let ?r = "tx_ring self"
  obtain m where m: "min (length (queued q)) batch = m" by blast
  obtain n i w1 where rs: "prod_reserve api ?r (of_nat m) 0 w = (n, i, w1)"
    by (cases "prod_reserve api ?r (of_nat m) 0 w") auto
  have kd': "kind ?r \<in> {Fill, Tx}" using kd by simp
  note l = reserve_ok [OF ok kd' closed rs] reserve_held [OF ok kd' closed rs]
    reserve_all_or_none [OF ok kd' closed rs] reserve_window [OF ok kd' closed rs]
    reserve_frame [OF ok kd' closed rs]
  have "m < 2 ^ 64" using m queued_bound [OF q] by (simp add: PENDING_LEN_def)
  then have n: "unat n = 0 \<or> unat n = m" using l(3) unat_of_nat_u64 by auto
  then have le: "unat n \<le> length (queued q)" using m by auto
  have "idx_ok prof i (unat n)" using idx rs m by blast
  then obtain q' where q': "dq_ok q'" "queued q' = drop (unat n) (queued q)"
    "send_loop api prof dq ?r (unat n) i q w1
       = Ret (q', put_txs api ?r i (take (unat n) (queued q)) w1)"
    using send_loop_eq [OF q le] by blast
  have "0 < unat n \<longleftrightarrow> n \<noteq> 0" by (simp add: unat_gt_0)
  then have "try_send api libc prof dq self q batch w
       = bnd (wakeup_if_required api libc self (if n = 0 then w1
               else prod_submit api ?r n (put_txs api ?r i (take (unat n) (queued q)) w1)))
             (\<lambda>(_, w'). Ret (Ok (unat n), q', w'))"
    using ne q'(3) rs unfolding m by (simp add: try_send_def len_deque [OF q] m Let_def)
  moreover have "n \<noteq> 0 \<longrightarrow> window ?r w1 = (i, unat n)" using l(4) by (metis prod.collapse)
  ultimately show ?thesis using rs n q'(1,2) l(1,2,4,5) unfolding m by blast
qed

lemma send_correct:
  assumes ok: "ok w" and kd: "kind (tx_ring self) = Tx"
    and closed: "snd (window (tx_ring self) w) = 0" and q: "dq_ok q"
    and idx: "\<And>n i w1. prod_reserve api (tx_ring self)
       (of_nat (min (length (queued q)) batch)) 0 w = (n, i, w1) \<Longrightarrow> idx_ok prof i (unat n)"
  shows "\<exists>n q' v. try_send api libc prof dq self q batch w =
       (if min (length (queued q)) batch = 0 then Ret (Ok 0, q, w)
        else bnd (wakeup_if_required api libc self v) (\<lambda>(_, w'). Ret (Ok n, q', w')))
     \<and> (n = 0 \<or> n = min (length (queued q)) batch) \<and> dq_ok q' \<and> queued q' = drop n (queued q)
     \<and> ok v \<and> held v = held w + owned (take n (queued q))
     \<and> snd (window (tx_ring self) v) = 0
     \<and> (\<forall>p. p \<noteq> tx_ring self \<longrightarrow> window p v = window p w)"
proof (cases "min (length (queued q)) batch = 0")
  case True
  then have "try_send api libc prof dq self q batch w = Ret (Ok 0, q, w)"
    by (simp add: try_send_def len_deque [OF q])
  then show ?thesis using True ok closed q by (intro exI [of _ 0] exI [of _ q] exI [of _ w]) simp
next
  case False
  let ?r = "tx_ring self"
  obtain n i w1 q' where s: "try_send api libc prof dq self q batch w
       = bnd (wakeup_if_required api libc self (if n = 0 then w1
               else prod_submit api ?r n (put_txs api ?r i (take (unat n) (queued q)) w1)))
             (\<lambda>(_, w'). Ret (Ok (unat n), q', w'))"
    "unat n = 0 \<or> unat n = min (length (queued q)) batch" "dq_ok q'"
    "queued q' = drop (unat n) (queued q)" "ok w1" "held w1 = held w" "snd (window ?r w1) = unat n"
    "n \<noteq> 0 \<longrightarrow> window ?r w1 = (i, unat n)" "\<forall>p. p \<noteq> ?r \<longrightarrow> window p w1 = window p w"
    using send_run [where prof = prof, OF ok kd closed q False] idx by blast
  let ?v = "if n = 0 then w1 else prod_submit api ?r n (put_txs api ?r i (take (unat n) (queued q)) w1)"
  have "ok ?v \<and> held ?v = held w + owned (take (unat n) (queued q)) \<and> snd (window ?r ?v) = 0
      \<and> (\<forall>p. p \<noteq> ?r \<longrightarrow> window p ?v = window p w)"
  proof (cases "n = 0")
    case True
    then show ?thesis using s(5-7,9) by simp
  next
    case nz: False
    then have win: "window ?r w1 = (i, unat n)" using s(8) by simp
    have "length (take (unat n) (queued q)) = unat n" using s(2) by auto
    from put_txs_submit [OF s(5) kd win this] show ?thesis using nz s(6,9) by simp
  qed
  then show ?thesis
    unfolding if_not_P [OF False] using s(1-4)
    by (intro exI [of _ "unat n"] exI [of _ q'] exI [of _ ?v]) simp
qed

text \<open>The panics of the loops: the ring index at the end of its range.\<close>

lemma recv_loop_overflow:
  assumes "dq_ok q" and "length (queued q) + n \<le> PENDING_LEN" and "2 ^ 32 \<le> unat i + n"
    and "\<forall>d \<in> set (rx_entries api r i n w). unat (desc_len d) < 2 ^ 16"
  shows "recv_loop api Debug dq area avail user r w n i q = Panic Overflow"
  using assms
proof (induction n arbitrary: i q)
  case 0
  then show ?case using unat_u32_lt [of i] by simp
next
  case (Suc n)
  have l: "unat (desc_len (cons_rx_desc api r i w)) < 2 ^ 16"
    using Suc.prems(4) by (simp add: rx_entries_Suc)
  obtain q' where q': "dq_push_back dq \<lparr>bm_addr = desc_addr (cons_rx_desc api r i w),
        bm_len = of_nat (unat (desc_len (cons_rx_desc api r i w))),
        bm_data = \<lparr>sl_ptr = ptr_offset (get_ptr area) (desc_addr (cons_rx_desc api r i w)),
          sl_len = avail\<rparr>, bm_user = user\<rparr> q = (None, q')" "dq_ok q'"
    "length (queued q') = Suc (length (queued q))"
    using push_back_room [OF Suc.prems(1)] Suc.prems(2) by fastforce
  then have "length (queued q') + n \<le> PENDING_LEN" using Suc.prems(2) by simp
  note IH = Suc.IH [OF q'(2) this]
  from u32_inc_Debug_cases [of i] show ?case
  proof
    assume "\<exists>j. u32_inc Debug i = Ret j"
    then obtain j where j: "u32_inc Debug i = Ret j" "j = i + 1" using u32_inc_Ret by blast
    then show ?thesis
      using IH u32_inc_last [OF Suc.prems(3)] Suc.prems(4) q'(1)
      by (simp add: u16_try_from_ok [OF l] Let_def rx_entries_Suc)
  qed (use q'(1) in \<open>simp add: u16_try_from_ok [OF l] Let_def\<close>)
qed

lemma send_loop_overflow:
  assumes "dq_ok q" and "n \<le> length (queued q)" and "2 ^ 32 \<le> unat i + n"
  shows "send_loop api Debug dq r n i q w = Panic Overflow"
  using assms
proof (induction n arbitrary: i q w)
  case 0
  then show ?case using unat_u32_lt [of i] by simp
next
  case (Suc n)
  then obtain b bs where bs: "queued q = b # bs" by (cases "queued q") auto
  obtain q' where q': "dq_pop_front dq q = (Some b, q')" "dq_ok q'" "queued q' = bs"
    using pop_front_Cons [OF Suc.prems(1) bs] by blast
  from u32_inc_Debug_cases [of i] show ?case
    using Suc.IH [OF q'(2)] u32_inc_last [OF Suc.prems(3)] Suc.prems(2) q' bs
    by (auto simp: Let_def)
qed

text \<open>\<open>try_recv\<close> and \<open>try_send\<close> up to their loops.\<close>

lemma try_recv_upto_loop:
  assumes q: "dq_ok q" and "256 \<le> buf_len (um_area (so_umem (rx_socket self)))"
    and "cons_peek api (rx_ring self)
           (of_nat (min (PENDING_LEN - length (queued q)) batch)) 0 w = (n, i, w1)" and "n \<noteq> 0"
  shows "try_recv api prof dq self q batch user w =
     bnd (recv_loop api prof dq (um_area (so_umem (rx_socket self)))
            (buf_len (um_area (so_umem (rx_socket self))) - 256) user (rx_ring self) w1 (unat n) i q)
         (\<lambda>q. Ret (Ok (unat n), q, cons_release api (rx_ring self) n w1))"
  using assms queued_bound [OF q] unat_eq_zero [of n]
  by (simp add: try_recv_def capacity_deque [OF q] len_deque [OF q] usize_sub_ok get_buf_len_def
      Let_def)

lemma try_send_upto_loop:
  assumes q: "dq_ok q" and "0 < min (length (queued q)) batch"
    and "prod_reserve api (tx_ring self) (of_nat (min (length (queued q)) batch)) 0 w = (n, i, w1)"
  shows "try_send api libc prof dq self q batch w =
     bnd (send_loop api prof dq (tx_ring self) (unat n) i q w1) (\<lambda>(q, w).
       bnd (wakeup_if_required api libc self
              (if 0 < unat n then prod_submit api (tx_ring self) n w else w))
           (\<lambda>(_, w). Ret (Ok (unat n), q, w)))"
proof -
  obtain m where m: "min (length (queued q)) batch = m" by blast
  then show ?thesis
    using assms(2,3) unfolding m by (simp add: try_send_def len_deque [OF q] m Let_def cong: if_cong)
qed

end

lemma xsk_link_ref: "xsk_link ref_api k_ok k_held snd k_window k_staged ref_libc
  (list_deque :: (unit buf_mmap, unit buf_mmap list) deque_api) (\<lambda>q. length q \<le> PENDING_LEN) (\<lambda>q. q)"
  by (rule xsk_link.intro [OF refk.xsk_rings_axioms listq.array_deque_axioms])

interpretation reflink: xsk_link ref_api k_ok k_held snd k_window k_staged ref_libc
  "list_deque :: (unit buf_mmap, unit buf_mmap list) deque_api" "\<lambda>q. length q \<le> PENDING_LEN" "\<lambda>q. q"
  by (rule xsk_link_ref)

section \<open>What the operations guarantee\<close>

text \<open>The example environment of the witnesses.\<close>

definition ex_socket :: socket where
  "ex_socket = \<lparr>so_umem = ex_umem, so_ptr = 8192, so_if_name = ''link1''\<rparr>"

definition ex_rx :: "kring_id socket_rx" where
  "ex_rx = \<lparr>rx_socket = ex_socket, rx_fd = 3, rx_ring = (False, Rx)\<rparr>"

definition ex_tx :: "kring_id socket_tx" where
  "ex_tx = \<lparr>tx_socket = ex_socket, tx_fd = 3, tx_ring = (False, Tx)\<rparr>"

definition ex_rx_world :: "u32 \<Rightarrow> kworld" where
  "ex_rx_world c = mk_world (\<lambda>r. if r = (False, Rx) then [mk_desc 256 60, mk_desc 2304 64]
                                 else []) c"

definition ex_queue :: "u64 list \<Rightarrow> unit buf_mmap list" where
  "ex_queue as = map (\<lambda>a. frame_buf ex_area a 60 ()) as"

lemma ex_rx_world_facts:
  "k_ok (ex_rx_world c)" "snd (k_window r (ex_rx_world c)) = 0"
  "k_held (ex_rx_world c) = {#256, 2304#}"
proof -
  show "k_ok (ex_rx_world c)"
    unfolding ex_rx_world_def by (rule mk_world_ok) (auto simp: mk_desc_def)
qed (auto simp: ex_rx_world_def mk_world_window mk_world_held UNIV_ring_id mk_desc_def)

text \<open>
  Property C8. \<open>try_recv\<close> never panics when its ring index does not overflow and the queue is
  sound; in particular the panic \<open>there should be space\<close> is unreachable and the wrapping queue
  never drops a pending buffer. It peeks at the ring for as many descriptors as the batch and the
  space in the queue allow, appends one buffer for each descriptor of the window that \<open>peek\<close> opened,
  in ring order, with the descriptor's address and length and the caller's \<open>user\<close> value, and releases
  exactly that window, so that these frames leave the kernel.
\<close>

theorem try_recv_correct:
  assumes "xsk_link api ok held kind window staged libc dq dq_ok queued"
    and "ok w" and "kind (rx_ring self) = Rx" and "snd (window (rx_ring self) w) = 0"
    and "256 \<le> buf_len (um_area (so_umem (rx_socket self)))" and "dq_ok q"
    and "\<And>n i w1. cons_peek api (rx_ring self)
           (of_nat (min (PENDING_LEN - length (queued q)) batch)) 0 w = (n, i, w1)
         \<Longrightarrow> idx_ok prof i (unat n)"
  shows "\<exists>n i w1 ds q' w'. cons_peek api (rx_ring self)
         (of_nat (min (PENDING_LEN - length (queued q)) batch)) 0 w = (n, i, w1)
     \<and> ds = rx_entries api (rx_ring self) i (unat n) w1
     \<and> w' = (if n = 0 then w1 else cons_release api (rx_ring self) n w1)
     \<and> try_recv api prof dq self q batch user w = Ret (Ok (length ds), q', w')
     \<and> length ds \<le> min (PENDING_LEN - length (queued q)) batch \<and> dq_ok q'
     \<and> queued q' = queued q @ map (rx_buf (um_area (so_umem (rx_socket self))) user) ds
     \<and> ok w' \<and> held w = held w' + mset (map desc_addr ds)
     \<and> snd (window (rx_ring self) w') = 0
     \<and> (\<forall>p. p \<noteq> rx_ring self \<longrightarrow> window p w' = window p w)"
  using xsk_link.recv_exact [where user = user and batch = batch and prof = prof, OF assms(1-6)] assms(7) by blast

theorem try_recv_correct_witness:
  "\<exists>w'. try_recv ref_api Release list_deque ex_rx (ex_queue [4352]) 16 () (ex_rx_world (2 ^ 32 - 1))
       = Ret (Ok 2, ex_queue [4352] @ [frame_buf ex_area 256 60 (), frame_buf ex_area 2304 64 ()], w')
     \<and> k_held w' = {#}"
proof -
  let ?w = "ex_rx_world (2 ^ 32 - 1)"
  obtain w1 where w1: "cons_peek ref_api (rx_ring ex_rx) 16 0 ?w = (2, 2 ^ 32 - 1, w1)"
    and k1: "w1 = set_ring (False, Rx) ((k_ring ?w (False, Rx))\<lparr>kr_ccons := 2 ^ 32 - 1 + 2\<rparr>) ?w"
    by (simp add: ref_api_simps ex_rx_def ex_rx_world_def mk_kring_def)
  have ds: "rx_entries ref_api (rx_ring ex_rx) (2 ^ 32 - 1) 2 w1 = [mk_desc 256 60, mk_desc 2304 64]"
    by (simp add: k1 rx_entries_def upt_conv_Cons ref_api_simps ex_rx_def ex_rx_world_def
        mk_kring_def mk_desc_def kr_slot_def)
  have c: "snd (rx_ring ex_rx) = Rx" "um_area (so_umem (rx_socket ex_rx)) = ex_area"
    "256 \<le> buf_len ex_area" "length (ex_queue [4352]) \<le> PENDING_LEN"
    "min (PENDING_LEN - length (ex_queue [4352])) 16 = 16"
    by (simp_all add: ex_rx_def ex_socket_def ex_umem_def ex_area_def ex_queue_def PENDING_LEN_def)
  show ?thesis
    using try_recv_correct [where self = ex_rx and batch = 16 and prof = Release and user = "()",
        OF xsk_link_ref ex_rx_world_facts(1) c(1) ex_rx_world_facts(2) _ c(4), of "2 ^ 32 - 1"] c(2,3) ds
      w1 ex_rx_world_facts(3) [of "2 ^ 32 - 1"]
    by (simp add: c(5) mk_desc_def)
qed

text \<open>
  Property C11. \<open>try_send\<close> takes from the front of the queue either nothing or exactly
  \<open>min len batch_size\<close> buffers, and their frames arrive at the kernel before it is woken; the rest
  stays in order. Its \<open>unwrap\<close> on \<open>pop_front\<close> cannot fail, so it can only panic where the wake-up
  does, with the frames already submitted.
\<close>

theorem try_send_correct:
  assumes "xsk_link api ok held kind window staged libc dq dq_ok queued"
    and "ok w" and "kind (tx_ring self) = Tx" and "snd (window (tx_ring self) w) = 0" and "dq_ok q"
    and "\<And>n i w1. prod_reserve api (tx_ring self)
           (of_nat (min (length (queued q)) batch)) 0 w = (n, i, w1) \<Longrightarrow> idx_ok prof i (unat n)"
  shows "\<exists>n q' v. try_send api libc prof dq self q batch w =
       (if min (length (queued q)) batch = 0 then Ret (Ok 0, q, w)
        else bnd (wakeup_if_required api libc self v) (\<lambda>(_, w'). Ret (Ok n, q', w')))
     \<and> (n = 0 \<or> n = min (length (queued q)) batch) \<and> dq_ok q' \<and> queued q' = drop n (queued q)
     \<and> ok v \<and> held v = held w + owned (take n (queued q))
     \<and> snd (window (tx_ring self) v) = 0
     \<and> (\<forall>p. p \<noteq> tx_ring self \<longrightarrow> window p v = window p w)"
  using assms(2-) by (rule xsk_link.send_correct [OF assms(1)])

theorem try_send_correct_witness:
  "\<exists>n v. try_send ref_api ref_libc Release list_deque ex_tx (ex_queue [4352, 6400, 8448]) 2
       (ex_rx_world (2 ^ 32 - 1))
     = bnd (wakeup_if_required ref_api ref_libc ex_tx v)
         (\<lambda>(_, w'). Ret (Ok n, drop n (ex_queue [4352, 6400, 8448]), w'))
   \<and> (n = 0 \<or> n = 2)
   \<and> k_held v = {#256, 2304#} + owned (take n (ex_queue [4352, 6400, 8448]))"
proof -
  let ?q = "ex_queue [4352, 6400, 8448]" and ?w = "ex_rx_world (2 ^ 32 - 1)"
  have q: "length ?q = 3" "length ?q \<le> PENDING_LEN" by (simp_all add: ex_queue_def PENDING_LEN_def)
  obtain n q' v where "try_send ref_api ref_libc Release list_deque ex_tx ?q 2 ?w
       = (if min (length ?q) 2 = 0 then Ret (Ok 0, ?q, ?w)
          else bnd (wakeup_if_required ref_api ref_libc ex_tx v) (\<lambda>(_, w'). Ret (Ok n, q', w')))"
    "n = 0 \<or> n = min (length ?q) 2" "q' = drop n ?q" "k_held v = k_held ?w + owned (take n ?q)"
    using try_send_correct [where self = ex_tx and batch = 2 and prof = Release and w = ?w,
        OF xsk_link_ref _ _ _ q(2)] ex_rx_world_facts
    by (fastforce simp: ex_tx_def)
  then show ?thesis
    by (intro exI [of _ n] exI [of _ v]) (simp add: q(1) ex_rx_world_facts)
qed

text \<open>
  Property C39. The free-running ring index again: in a build with overflow checks, receiving or
  sending a batch that reaches the end of the 32-bit range panics, although the ring and the queue
  are sound and every descriptor is well formed; a release build handles the same batches.
\<close>

theorem socket_index_overflow:
  assumes "xsk_link api ok held kind window staged libc dq dq_ok queued" and "dq_ok q"
    and "256 \<le> buf_len (um_area (so_umem (rx_socket rx)))"
    and "cons_peek api (rx_ring rx)
           (of_nat (min (PENDING_LEN - length (queued q)) batch)) 0 w = (n, i, w1)"
    and "n \<noteq> 0" and "2 ^ 32 \<le> unat i + unat n"
    and "length (queued q) + unat n \<le> PENDING_LEN"
    and "\<forall>d \<in> set (rx_entries api (rx_ring rx) i (unat n) w1). unat (desc_len d) < 2 ^ 16"
    and "dq_ok p" and "0 < min (length (queued p)) batch'"
    and "prod_reserve api (tx_ring tx) (of_nat (min (length (queued p)) batch')) 0 v = (m, j, v1)"
    and "2 ^ 32 \<le> unat j + unat m" and "unat m \<le> length (queued p)"
  shows "try_recv api Debug dq rx q batch user w = Panic Overflow
       \<and> try_send api libc Debug dq tx p batch' v = Panic Overflow
       \<and> (\<exists>q'. try_recv api Release dq rx q batch user w = Ret (Ok (unat n), q', cons_release api (rx_ring rx) n w1))
       \<and> try_send api libc Release dq tx p batch' v \<noteq> Panic Overflow"
proof (intro conjI)
  let ?a = "um_area (so_umem (rx_socket rx))"
  obtain q' where "recv_loop api Release dq ?a (buf_len ?a - 256) user (rx_ring rx) w1 (unat n) i q = Ret q'"
    using xsk_link.recv_loop_eq [OF assms(1,2,7) idx_ok_Release assms(8)] by blast
  then show "\<exists>q'. try_recv api Release dq rx q batch user w = Ret (Ok (unat n), q', cons_release api (rx_ring rx) n w1)"
    by (simp add: xsk_link.try_recv_upto_loop [OF assms(1,2-5)])
  obtain p' where "send_loop api Release dq (tx_ring tx) (unat m) j p v1
      = Ret (p', put_txs api (tx_ring tx) j (take (unat m) (queued p)) v1)"
    using xsk_link.send_loop_eq [OF assms(1,9,13) idx_ok_Release] by blast
  then show "try_send api libc Release dq tx p batch' v \<noteq> Panic Overflow"
    using wakeup_outcome [of api libc tx "if 0 < unat m then prod_submit api (tx_ring tx) m
        (put_txs api (tx_ring tx) j (take (unat m) (queued p)) v1) else put_txs api (tx_ring tx) j (take (unat m) (queued p)) v1"]
    by (auto simp: xsk_link.try_send_upto_loop [OF assms(1,9-11)])
  show "try_recv api Debug dq rx q batch user w = Panic Overflow"
    by (simp add: xsk_link.try_recv_upto_loop [OF assms(1,2-5)]
        xsk_link.recv_loop_overflow [OF assms(1,2,7,6,8)])
  show "try_send api libc Debug dq tx p batch' v = Panic Overflow"
    by (simp add: xsk_link.try_send_upto_loop [OF assms(1,9-11)]
        xsk_link.send_loop_overflow [OF assms(1,9,13,12)])
qed

theorem socket_index_overflow_witness:
  "try_recv ref_api Debug list_deque ex_rx [] 2 () (ex_rx_world (2 ^ 32 - 1)) = Panic Overflow
   \<and> try_send ref_api ref_libc Debug list_deque ex_tx (ex_queue [4352]) 1 (ex_rx_world (2 ^ 32 - 1))
     = Panic Overflow"
proof -
  let ?w = "ex_rx_world (2 ^ 32 - 1)"
  obtain w1 where w1: "cons_peek ref_api (rx_ring ex_rx) 2 0 ?w = (2, 2 ^ 32 - 1, w1)"
    and k1: "w1 = set_ring (False, Rx) ((k_ring ?w (False, Rx))\<lparr>kr_ccons := 2 ^ 32 - 1 + 2\<rparr>) ?w"
    by (simp add: ref_api_simps ex_rx_def ex_rx_world_def mk_kring_def)
  obtain w2 where w2: "prod_reserve ref_api (tx_ring ex_tx) 1 0 ?w = (1, 2 ^ 32 - 1, w2)"
    by (simp add: ref_api_simps ex_tx_def ex_rx_world_def mk_kring_def)
  have "\<forall>d \<in> set (rx_entries ref_api (rx_ring ex_rx) (2 ^ 32 - 1) 2 w1). unat (desc_len d) < 2 ^ 16"
    by (simp add: k1 rx_entries_def upt_conv_Cons ref_api_simps ex_rx_def ex_rx_world_def
        mk_kring_def mk_desc_def kr_slot_def)
  then show ?thesis
    using socket_index_overflow [OF xsk_link_ref, of "[]" ex_rx 2 ?w 2 "2 ^ 32 - 1" w1
      "ex_queue [4352]" 1 ex_tx ?w 1 "2 ^ 32 - 1" w2 "()"] w1 w2
    by (simp add: ex_rx_def ex_socket_def ex_umem_def ex_area_def ex_queue_def PENDING_LEN_def)
qed

section \<open>What construction does\<close>

text \<open>
  Property C38. The three constructors reject, before they allocate a ring or call libbpf, exactly
  the sizes that are not powers of two, and only the sizes of the rings they create.
\<close>

theorem socket_new_ring_sizes:
  "(socket_new api libc um ifn queue rsz tsz options w = Ret (Err SocketRingNotPowerOfTwo, w')
     \<longleftrightarrow> w' = w \<and> \<not> ((\<exists>k<32. unat rsz = 2 ^ k) \<and> (\<exists>k<32. unat tsz = 2 ^ k)))
   \<and> (socket_new_rx api libc um ifn queue rsz options w = Ret (Err SocketRingNotPowerOfTwo, w')
     \<longleftrightarrow> w' = w \<and> \<not> (\<exists>k<32. unat rsz = 2 ^ k))
   \<and> (socket_new_tx api libc um ifn queue tsz options w = Ret (Err SocketRingNotPowerOfTwo, w')
     \<longleftrightarrow> w' = w \<and> \<not> (\<exists>k<32. unat tsz = 2 ^ k))"
proof -
  have "is_pow_of_two rsz \<and> is_pow_of_two tsz \<Longrightarrow>
      socket_new api libc um ifn queue rsz tsz options w \<noteq> Ret (Err SocketRingNotPowerOfTwo, w')"
    "is_pow_of_two rsz \<Longrightarrow>
      socket_new_rx api libc um ifn queue rsz options w \<noteq> Ret (Err SocketRingNotPowerOfTwo, w')"
    "is_pow_of_two tsz \<Longrightarrow>
      socket_new_tx api libc um ifn queue tsz options w \<noteq> Ret (Err SocketRingNotPowerOfTwo, w')"
    by (auto simp: socket_new_def socket_new_rx_def socket_new_tx_def Let_def bnd_Ret_iff
        case_prod_beta split: if_split_asm)
  moreover have "\<not> (is_pow_of_two rsz \<and> is_pow_of_two tsz) \<Longrightarrow>
      socket_new api libc um ifn queue rsz tsz options w = Ret (Err SocketRingNotPowerOfTwo, w)"
    "\<not> is_pow_of_two rsz \<Longrightarrow>
      socket_new_rx api libc um ifn queue rsz options w = Ret (Err SocketRingNotPowerOfTwo, w)"
    "\<not> is_pow_of_two tsz \<Longrightarrow>
      socket_new_tx api libc um ifn queue tsz options w = Ret (Err SocketRingNotPowerOfTwo, w)"
    by (auto simp: socket_new_def socket_new_rx_def socket_new_tx_def)
  ultimately show ?thesis
    unfolding is_pow_of_two_range [symmetric] by fastforce
qed

end
