(* ===== verification/Buf_Pool.thy ===== *)
theory Buf_Pool
  imports Buffers
begin

text \<open>
  Buffer pools: the \<open>BufPool\<close> trait (\<open>src/buf_pool.rs\<close>) as the locale \<open>buf_pool\<close>, its
  implementation \<open>BufPoolVec\<close> (\<open>src/buf_pool_vec.rs\<close>), and the benchmark's \<open>getput\<close>
  (\<open>benches/buf_pool.rs\<close>).

  A Rust buffer is moved, never copied, so the law of a pool is conservation: what leaves the
  pool arrives in the caller's \<open>Vec\<close> and the other way round.
\<close>

section \<open>The BufPool trait\<close>

locale buf_pool =
  fixes get :: "'p \<Rightarrow> 'b vec \<Rightarrow> usize \<Rightarrow> (usize \<times> 'p \<times> 'b vec) outcome"
    and put :: "'p \<Rightarrow> 'b vec \<Rightarrow> usize \<Rightarrow> (usize \<times> 'p \<times> 'b vec) outcome"
    and put_buf :: "'p \<Rightarrow> 'b \<Rightarrow> usize \<times> 'p"
    and len :: "'p \<Rightarrow> usize"
    and is_empty :: "'p \<Rightarrow> bool"
    and contents :: "'p \<Rightarrow> 'b multiset"
  assumes get_total: "\<exists>r p' v'. get p v n = Ret (r, p', v')"
    and get_bound: "get p v n = Ret (r, p', v') \<Longrightarrow> r = min n (len p)"
    and get_moves: "get p v n = Ret (r, p', v') \<Longrightarrow>
          contents p' + mset (items v') = contents p + mset (items v)"
    and get_count: "get p v n = Ret (r, p', v') \<Longrightarrow> length (items v') = length (items v) + r"
    and put_total: "\<exists>r p' v'. put p v n = Ret (r, p', v')"
    and put_bound: "put p v n = Ret (r, p', v') \<Longrightarrow> r = min n (length (items v))"
    and put_moves: "put p v n = Ret (r, p', v') \<Longrightarrow>
          contents p' + mset (items v') = contents p + mset (items v)"
    and put_count: "put p v n = Ret (r, p', v') \<Longrightarrow> length (items v) = length (items v') + r"
    and put_buf_moves: "put_buf p b = (r, p') \<Longrightarrow> r = 1 \<and> contents p' = add_mset b (contents p)"
    and len_contents: "len p = size (contents p)"
    and is_empty_len: "is_empty p \<longleftrightarrow> len p = 0"
begin

lemma get_len:
  assumes "get p v n = Ret (r, p', v')"
  shows "len p' = len p - r"
proof -
  have "size (contents p') + length (items v') = size (contents p) + length (items v)"
    using get_moves [OF assms] by (metis size_union size_mset)
  with get_count [OF assms] show ?thesis by (simp add: len_contents)
qed

lemma put_len:
  assumes "put p v n = Ret (r, p', v')"
  shows "len p' = len p + r"
proof -
  have "size (contents p') + length (items v') = size (contents p) + length (items v)"
    using put_moves [OF assms] by (metis size_union size_mset)
  with put_count [OF assms] show ?thesis by (simp add: len_contents)
qed

lemma put_all:
  assumes "put p v (length (items v)) = Ret (r, p', v')"
  shows "items v' = [] \<and> contents p' = contents p + mset (items v) \<and> r = length (items v)"
proof -
  from put_bound [OF assms] have r: "r = length (items v)" by simp
  then have "items v' = []" using put_count [OF assms] by simp
  with put_moves [OF assms] r show ?thesis by simp
qed

lemma get_all:
  assumes "get p v (len p) = Ret (r, p', v')"
  shows "is_empty p' \<and> mset (items v') = contents p + mset (items v)"
proof -
  from get_bound [OF assms] get_len [OF assms] have "len p' = 0" by simp
  with get_moves [OF assms] show ?thesis by (simp add: is_empty_len len_contents)
qed

lemma get_then_put_conserves:
  assumes "get p v n = Ret (r, p', v')" and "put p' v' k = Ret (s, p'', v'')"
  shows "contents p'' + mset (items v'') = contents p + mset (items v)
         \<and> len p'' + r = len p + s"
  using get_moves [OF assms(1)] put_moves [OF assms(2)] get_len [OF assms(1)]
    put_len [OF assms(2)] get_bound [OF assms(1)] by simp

end

section \<open>BufPoolVec\<close>

record 'b buf_pool_vec =
  bufs :: "'b vec"

definition bpv_new :: "usize \<Rightarrow> 'b buf_pool_vec" where
  "bpv_new cap = \<lparr>bufs = vec_with_capacity cap\<rparr>"

definition bpv_get :: "profile \<Rightarrow> 'b buf_pool_vec \<Rightarrow> 'b vec \<Rightarrow> usize
    \<Rightarrow> (usize \<times> 'b buf_pool_vec \<times> 'b vec) outcome" where
  "bpv_get prof self bs num =
     (let ready = min num (length (items (bufs self))) in
      bnd (usize_sub prof (length (items (bufs self))) ready) (\<lambda>start.
      bnd (vec_drain_from start (bufs self)) (\<lambda>(drained, rest).
        Ret (ready, self\<lparr>bufs := rest\<rparr>, vec_extend bs drained))))"

definition bpv_put :: "profile \<Rightarrow> 'b buf_pool_vec \<Rightarrow> 'b vec \<Rightarrow> usize
    \<Rightarrow> (usize \<times> 'b buf_pool_vec \<times> 'b vec) outcome" where
  "bpv_put prof self bs num =
     (let ready = min num (length (items bs)) in
      bnd (usize_sub prof (length (items bs)) ready) (\<lambda>start.
      bnd (vec_drain_from start bs) (\<lambda>(drained, rest).
        Ret (ready, self\<lparr>bufs := vec_extend (bufs self) drained\<rparr>, rest))))"

definition bpv_put_buf :: "'b buf_pool_vec \<Rightarrow> 'b \<Rightarrow> usize \<times> 'b buf_pool_vec" where
  "bpv_put_buf self b = (1, self\<lparr>bufs := vec_push (bufs self) b\<rparr>)"

definition bpv_len :: "'b buf_pool_vec \<Rightarrow> usize" where
  "bpv_len self = length (items (bufs self))"

definition bpv_is_empty :: "'b buf_pool_vec \<Rightarrow> bool" where
  "bpv_is_empty self \<longleftrightarrow> items (bufs self) = []"

abbreviation pool_items :: "'b buf_pool_vec \<Rightarrow> 'b list" where
  "pool_items p \<equiv> items (bufs p)"

lemma bpv_get_eq:
  "bpv_get prof p v n =
     (let r = min n (bpv_len p); k = bpv_len p - r in
      Ret (r, p\<lparr>bufs := (bufs p)\<lparr>items := take k (pool_items p)\<rparr>\<rparr>,
           vec_extend v (drop k (pool_items p))))"
  by (simp add: bpv_get_def bpv_len_def usize_sub_ok vec_drain_from_def Let_def)

lemma bpv_put_eq:
  "bpv_put prof p v n =
     (let r = min n (length (items v)); k = length (items v) - r in
      Ret (r, p\<lparr>bufs := vec_extend (bufs p) (drop k (items v))\<rparr>,
           v\<lparr>items := take k (items v)\<rparr>))"
  by (simp add: bpv_put_def usize_sub_ok vec_drain_from_def Let_def)

interpretation vec_pool: buf_pool "bpv_get prof" "bpv_put prof" bpv_put_buf bpv_len bpv_is_empty
  "\<lambda>p. mset (pool_items p)"
  for prof
proof (unfold_locales, goal_cases)
  case (3 p v n r p' v')
  then show ?case
    by (auto simp: bpv_get_eq Let_def)
next
  case (7 p v n r p' v')
  then show ?case
    by (auto simp: bpv_put_eq Let_def add.assoc)
qed (auto simp: bpv_get_eq bpv_put_eq bpv_put_buf_def bpv_len_def bpv_is_empty_def Let_def)

text \<open>
  \<open>BufPoolVec::get\<close> moves the last \<open>min num len\<close> buffers of the pool, in order,
  to the end of the caller's vector; it neither loses nor duplicates one and cannot panic.
\<close>

lemma bpv_get_moves:
  "\<exists>p' v'. bpv_get prof p v n = Ret (min n (bpv_len p), p', v')
     \<and> pool_items p' @ drop (length (items v)) (items v') = pool_items p
     \<and> take (length (items v)) (items v') = items v
     \<and> bpv_len p' = bpv_len p - min n (bpv_len p)"
  by (simp add: bpv_get_eq Let_def bpv_len_def)

section \<open>The benchmark's getput\<close>

definition getput :: "profile \<Rightarrow> 'b buf_pool_vec \<Rightarrow> 'b vec \<Rightarrow> usize
    \<Rightarrow> ('b buf_pool_vec \<times> 'b vec) outcome" where
  "getput prof bufpool bs num =
     bnd (bpv_get prof bufpool bs num) (\<lambda>(_, bufpool, bs).
     bnd (bpv_put prof bufpool bs num) (\<lambda>(_, bufpool, bs).
       Ret (bufpool, bs)))"

text \<open>
  The round trip of the benchmark: taking \<open>num\<close> buffers and putting \<open>num\<close> back
  leaves the pool and the vector with exactly the buffers they had, in the same order,
  provided the pool held \<open>num\<close>.
\<close>

lemma getput_roundtrip:
  assumes "num \<le> bpv_len p"
  shows "\<exists>p' v'. getput prof p v num = Ret (p', v') \<and> pool_items p' = pool_items p
                 \<and> items v' = items v"
  using assms by (simp add: getput_def bpv_get_eq bpv_put_eq Let_def bpv_len_def)

lemma getput_roundtrip_witness:
  "\<exists>p' v'. getput Debug \<lparr>bufs = \<lparr>items = [1 :: nat, 2, 3], capacity = 3\<rparr>\<rparr>
             \<lparr>items = [7], capacity = 4\<rparr> 2 = Ret (p', v') \<and> items v' = [7]"
  using getput_roundtrip [of 2 "\<lparr>bufs = \<lparr>items = [1 :: nat, 2, 3], capacity = 3\<rparr>\<rparr>" Debug
      "\<lparr>items = [7], capacity = 4\<rparr>"]
  by (auto simp: bpv_len_def)

end
