(* ===== verification/Ownership.thy ===== *)
theory Ownership
  imports Socket Buf_Pool
begin

text \<open>
  The crate as a whole: any program that uses one mapped area through the crate's safe
  interface. Its state is the vectors, the pending queues and the pool that hold its buffers, and
  the kernel's side; a step is one call of the interface. Several umems and sockets may share the
  area, and several threads may interleave their calls: a step picks any ring, vector and queue.

  The invariant \<open>own_inv\<close> says that every frame of the area is in exactly one place: one buffer
  of the program or the kernel. Every step preserves it, so the slices of the live buffers never
  overlap, although the crate creates each of them from a raw pointer.
\<close>

section \<open>State and steps\<close>

record ('u, 'q, 'w) app =
  a_vecs :: "'u buf_mmap vec list"
  a_queues :: "'q list"
  a_pool :: "'u buf_mmap buf_pool_vec"
  a_world :: 'w

record 'r env =
  env_cqs :: "'r umem_completion_queue list"
  env_fqs :: "'r umem_fill_queue list"
  env_rxs :: "'r socket_rx list"
  env_txs :: "'r socket_tx list"

text \<open>The rings have their kinds, and the buffers they make lie on the area.\<close>

definition env_ok :: "('r \<Rightarrow> ring_kind) \<Rightarrow> mmap_area \<Rightarrow> 'r env \<Rightarrow> bool" where
  "env_ok kind area env \<longleftrightarrow>
     list_all (\<lambda>c. kind (cq_ring c) = Completion \<and> um_area (cq_umem c) = area) (env_cqs env)
   \<and> list_all (\<lambda>f. kind (fq_ring f) = Fill) (env_fqs env)
   \<and> list_all (\<lambda>x. kind (rx_ring x) = Rx \<and> um_area (so_umem (rx_socket x)) = area) (env_rxs env)
   \<and> list_all (\<lambda>t. kind (tx_ring t) = Tx) (env_txs env)"

inductive app_step :: "('r, 'w) xsk_api \<Rightarrow> 'w libc_api \<Rightarrow> profile \<Rightarrow> ('u buf_mmap, 'q) deque_api
    \<Rightarrow> 'u \<Rightarrow> 'r env \<Rightarrow> ('u, 'q, 'w) app \<Rightarrow> ('u, 'q, 'w) app \<Rightarrow> bool"
  for api libc prof dq dflt env where
  service: "c \<in> set (env_cqs env) \<Longrightarrow> i < length (a_vecs s) \<Longrightarrow> n < 2 ^ 64 \<Longrightarrow>
     cq_service api prof dflt c (a_vecs s ! i) n (a_world s) = Ret (r, v, w) \<Longrightarrow>
     app_step api libc prof dq dflt env s (s\<lparr>a_vecs := (a_vecs s)[i := v], a_world := w\<rparr>)"
| fill: "f \<in> set (env_fqs env) \<Longrightarrow> i < length (a_vecs s) \<Longrightarrow> n < 2 ^ 64 \<Longrightarrow>
     fq_fill api prof f (a_vecs s ! i) n (a_world s) = Ret (r, v, w) \<Longrightarrow>
     app_step api libc prof dq dflt env s (s\<lparr>a_vecs := (a_vecs s)[i := v], a_world := w\<rparr>)"
| recv: "x \<in> set (env_rxs env) \<Longrightarrow> j < length (a_queues s) \<Longrightarrow>
     try_recv api prof dq x (a_queues s ! j) n user (a_world s) = Ret (r, q, w) \<Longrightarrow>
     app_step api libc prof dq dflt env s (s\<lparr>a_queues := (a_queues s)[j := q], a_world := w\<rparr>)"
| send: "t \<in> set (env_txs env) \<Longrightarrow> j < length (a_queues s) \<Longrightarrow>
     try_send api libc prof dq t (a_queues s ! j) n (a_world s) = Ret (r, q, w) \<Longrightarrow>
     app_step api libc prof dq dflt env s (s\<lparr>a_queues := (a_queues s)[j := q], a_world := w\<rparr>)"
| wake: "x \<in> set (env_rxs env) \<Longrightarrow> rx_wake libc x (a_world s) = (e, w) \<Longrightarrow>
     app_step api libc prof dq dflt env s (s\<lparr>a_world := w\<rparr>)"
| pool_get: "i < length (a_vecs s) \<Longrightarrow>
     bpv_get prof (a_pool s) (a_vecs s ! i) n = Ret (r, p, v) \<Longrightarrow>
     app_step api libc prof dq dflt env s (s\<lparr>a_vecs := (a_vecs s)[i := v], a_pool := p\<rparr>)"
| pool_put: "i < length (a_vecs s) \<Longrightarrow>
     bpv_put prof (a_pool s) (a_vecs s ! i) n = Ret (r, p, v) \<Longrightarrow>
     app_step api libc prof dq dflt env s (s\<lparr>a_vecs := (a_vecs s)[i := v], a_pool := p\<rparr>)"
| set_len: "i < length (a_vecs s) \<Longrightarrow> k < length (items (a_vecs s ! i)) \<Longrightarrow>
     bm_set_len (items (a_vecs s ! i) ! k) l = Ret b \<Longrightarrow>
     app_step api libc prof dq dflt env s
       (s\<lparr>a_vecs := (a_vecs s)[i := (a_vecs s ! i)\<lparr>items := (items (a_vecs s ! i))[k := b]\<rparr>]\<rparr>)"
| set_user: "i < length (a_vecs s) \<Longrightarrow> k < length (items (a_vecs s ! i)) \<Longrightarrow>
     b = bm_set_user (items (a_vecs s ! i) ! k) u \<Longrightarrow>
     app_step api libc prof dq dflt env s
       (s\<lparr>a_vecs := (a_vecs s)[i := (a_vecs s ! i)\<lparr>items := (items (a_vecs s ! i))[k := b]\<rparr>]\<rparr>)"
| enqueue: "i < length (a_vecs s) \<Longrightarrow> j < length (a_queues s) \<Longrightarrow>
     vec_pop (a_vecs s ! i) = (Some b, v) \<Longrightarrow> dq_push_back dq b (a_queues s ! j) = (None, q) \<Longrightarrow>
     app_step api libc prof dq dflt env s
       (s\<lparr>a_vecs := (a_vecs s)[i := v], a_queues := (a_queues s)[j := q]\<rparr>)"
| dequeue: "i < length (a_vecs s) \<Longrightarrow> j < length (a_queues s) \<Longrightarrow>
     dq_pop_front dq (a_queues s ! j) = (Some b, q) \<Longrightarrow>
     app_step api libc prof dq dflt env s
       (s\<lparr>a_vecs := (a_vecs s)[i := vec_push (a_vecs s ! i) b], a_queues := (a_queues s)[j := q]\<rparr>)"
| drain: "i < length (a_vecs s) \<Longrightarrow> j < length (a_queues s) \<Longrightarrow>
     dq_drain dq (a_queues s ! j) = (bs, q) \<Longrightarrow>
     app_step api libc prof dq dflt env s
       (s\<lparr>a_vecs := (a_vecs s)[i := foldl vec_push (a_vecs s ! i) bs],
          a_queues := (a_queues s)[j := q]\<rparr>)"

inductive_cases app_stepE: "app_step api libc prof dq dflt env s s'"

text \<open>The buffers the program holds.\<close>

definition live_bufs :: "('q \<Rightarrow> 'u buf_mmap list) \<Rightarrow> ('u, 'q, 'w) app \<Rightarrow> 'u buf_mmap list" where
  "live_bufs queued s = concat (map items (a_vecs s)) @ concat (map queued (a_queues s))
                        @ pool_items (a_pool s)"

section \<open>The invariant\<close>

definition on_frame :: "mmap_area \<Rightarrow> 'u buf_mmap \<Rightarrow> bool" where
  "on_frame area b \<longleftrightarrow> bm_data b = frame_slice area (bm_addr b)"

definition own_inv :: "('w \<Rightarrow> bool) \<Rightarrow> ('w \<Rightarrow> u64 multiset) \<Rightarrow> ('r \<Rightarrow> 'w \<Rightarrow> u32 \<times> nat)
    \<Rightarrow> ('q \<Rightarrow> bool) \<Rightarrow> ('q \<Rightarrow> 'u buf_mmap list) \<Rightarrow> mmap_area \<Rightarrow> ('u, 'q, 'w) app \<Rightarrow> bool" where
  "own_inv ok held window dq_ok queued area s \<longleftrightarrow>
     ok (a_world s) \<and> (\<forall>r. snd (window r (a_world s)) = 0)
   \<and> (\<forall>v \<in> set (a_vecs s). vec_wf v) \<and> (\<forall>q \<in> set (a_queues s). dq_ok q)
   \<and> (\<forall>b \<in> set (live_bufs queued s). on_frame area b)
   \<and> owned (live_bufs queued s) + held (a_world s) = mset (frame_addrs area)"

lemma on_frame_buf [simp]: "on_frame area (frame_buf area a l u)"
  by (simp add: on_frame_def)

lemma mset_exchange:
  assumes "A' + a = A + a'" and "a' + h' = a + (h :: 'x multiset)"
  shows "A' + h' = A + h"
proof -
  have "(A' + h') + a = (A' + a) + h'" by (simp add: add_ac)
  also have "\<dots> = A + (a' + h')" by (simp add: assms(1) add_ac)
  also have "\<dots> = (A + h) + a" by (simp add: assms(2) add_ac)
  finally show ?thesis by simp
qed

lemma mset_chain:
  assumes "B + c = A + d" and "A + a = L + (b :: 'x multiset)"
  shows "B + (c + a) = L + (b + d)"
proof -
  have "B + (c + a) = (A + d) + a" by (simp add: assms(1) [symmetric] add_ac)
  also have "\<dots> = (A + a) + d" by (simp add: add_ac)
  finally show ?thesis by (simp add: assms(2) add_ac)
qed

text \<open>One entry of a list of containers changes.\<close>

lemma contents_update:
  "i < length xs \<Longrightarrow>
   mset (concat (map f (xs[i := y]))) + mset (f (xs ! i)) = mset (concat (map f xs)) + mset (f y)"
proof (induction xs arbitrary: i)
  case (Cons x xs)
  then show ?case by (cases i) (auto simp: add_ac)
qed simp

lemma live_vec:
  "i < length (a_vecs s) \<Longrightarrow>
   mset (live_bufs queued (s\<lparr>a_vecs := (a_vecs s)[i := v]\<rparr>)) + mset (items (a_vecs s ! i))
   = mset (live_bufs queued s) + mset (items v)"
  using contents_update [of i "a_vecs s" items v] by (simp add: live_bufs_def add_ac)

lemma live_queue:
  "j < length (a_queues s) \<Longrightarrow>
   mset (live_bufs queued (s\<lparr>a_queues := (a_queues s)[j := q]\<rparr>)) + mset (queued (a_queues s ! j))
   = mset (live_bufs queued s) + mset (queued q)"
  using contents_update [of j "a_queues s" queued q] by (simp add: live_bufs_def add_ac)

lemma live_pool:
  "mset (live_bufs queued (s\<lparr>a_pool := p\<rparr>)) + mset (pool_items (a_pool s))
   = mset (live_bufs queued s) + mset (pool_items p)"
  by (simp add: live_bufs_def add_ac)

lemma live_world [simp]: "live_bufs queued (s\<lparr>a_world := w\<rparr>) = live_bufs queued s"
  by (simp add: live_bufs_def)

text \<open>
  Preservation, once for all steps: a step removes the buffers \<open>R\<close> from the program's containers
  and adds \<open>N\<close>, and the frames of both balance with what the kernel holds.
\<close>

lemma own_inv_change:
  assumes inv: "own_inv ok held window dq_ok queued area s"
    and live: "mset (live_bufs queued s') + R = mset (live_bufs queued s) + N"
    and held: "image_mset bm_addr N + held (a_world s') = image_mset bm_addr R + held (a_world s)"
    and fr: "\<forall>b. b \<in># N \<longrightarrow> on_frame area b"
    and wf: "ok (a_world s')" "\<forall>r. snd (window r (a_world s')) = 0"
      "\<forall>v \<in> set (a_vecs s'). vec_wf v" "\<forall>q \<in> set (a_queues s'). dq_ok q"
  shows "own_inv ok held window dq_ok queued area s'"
proof -
  have "on_frame area b" if "b \<in> set (live_bufs queued s')" for b
  proof -
    from that have "b \<in># mset (live_bufs queued s') + R" by simp
    then show ?thesis using inv fr unfolding live by (auto simp: own_inv_def)
  qed
  moreover have "image_mset bm_addr (mset (live_bufs queued s')) + image_mset bm_addr R
      = image_mset bm_addr (mset (live_bufs queued s)) + image_mset bm_addr N"
    using arg_cong [OF live, of "image_mset bm_addr"] by simp
  from mset_exchange [OF this held]
  have "owned (live_bufs queued s') + held (a_world s')
      = owned (live_bufs queued s) + held (a_world s)" by simp
  ultimately show ?thesis using inv wf unfolding own_inv_def by metis
qed

lemma in_set_update: "x \<in> set (xs[i := y]) \<Longrightarrow> x = y \<or> x \<in> set xs"
  using set_update_subset_insert [of xs i y] by blast


section \<open>Every step preserves the invariant\<close>

text \<open>The shapes of a step: a vector and the kernel, a queue and the kernel, two containers.\<close>

lemma own_inv_vec:
  assumes inv: "own_inv ok held window dq_ok queued area s" and i: "i < length (a_vecs s)"
    and "vec_wf v" and "\<forall>b. b \<in># N \<longrightarrow> on_frame area b"
    and eq: "mset (items v) + R = mset (items (a_vecs s ! i)) + N"
    and "ok w" and "\<forall>r. snd (window r w) = 0"
    and "image_mset bm_addr N + held w = image_mset bm_addr R + held (a_world s)"
  shows "own_inv ok held window dq_ok queued area (s\<lparr>a_vecs := (a_vecs s)[i := v], a_world := w\<rparr>)"
proof -
  have "mset (live_bufs queued (s\<lparr>a_vecs := (a_vecs s)[i := v], a_world := w\<rparr>)) + R
      = mset (live_bufs queued s) + N"
    using mset_exchange [OF live_vec [OF i] eq] by simp
  then show ?thesis
    by (rule own_inv_change [OF inv]) (use assms in \<open>auto simp: own_inv_def dest!: in_set_update\<close>)
qed

lemma own_inv_queue:
  assumes inv: "own_inv ok held window dq_ok queued area s" and j: "j < length (a_queues s)"
    and "dq_ok q" and "\<forall>b. b \<in># N \<longrightarrow> on_frame area b"
    and eq: "mset (queued q) + R = mset (queued (a_queues s ! j)) + N"
    and "ok w" and "\<forall>r. snd (window r w) = 0"
    and "image_mset bm_addr N + held w = image_mset bm_addr R + held (a_world s)"
  shows "own_inv ok held window dq_ok queued area (s\<lparr>a_queues := (a_queues s)[j := q], a_world := w\<rparr>)"
proof -
  have "mset (live_bufs queued (s\<lparr>a_queues := (a_queues s)[j := q], a_world := w\<rparr>)) + R
      = mset (live_bufs queued s) + N"
    using mset_exchange [OF live_queue [OF j] eq] by simp
  then show ?thesis
    by (rule own_inv_change [OF inv]) (use assms in \<open>auto simp: own_inv_def dest!: in_set_update\<close>)
qed

lemma own_inv_vec_queue:
  assumes inv: "own_inv ok held window dq_ok queued area s"
    and i: "i < length (a_vecs s)" and j: "j < length (a_queues s)" and "vec_wf v" and "dq_ok q"
    and eq: "mset (items v) + mset (queued q)
             = mset (items (a_vecs s ! i)) + mset (queued (a_queues s ! j))"
  shows "own_inv ok held window dq_ok queued area
           (s\<lparr>a_vecs := (a_vecs s)[i := v], a_queues := (a_queues s)[j := q]\<rparr>)"
proof -
  let ?t = "s\<lparr>a_vecs := (a_vecs s)[i := v]\<rparr>"
  have "mset (live_bufs queued (?t\<lparr>a_queues := (a_queues s)[j := q]\<rparr>)) + mset (queued (a_queues s ! j))
      = mset (live_bufs queued ?t) + mset (queued q)"
    using live_queue [of j ?t queued q] j by simp
  then have "mset (live_bufs queued (?t\<lparr>a_queues := (a_queues s)[j := q]\<rparr>))
      + (mset (queued (a_queues s ! j)) + mset (items (a_vecs s ! i)))
      = mset (live_bufs queued s) + (mset (items v) + mset (queued q))"
    by (rule mset_chain [OF _ live_vec [OF i]])
  then have "mset (live_bufs queued (s\<lparr>a_vecs := (a_vecs s)[i := v], a_queues := (a_queues s)[j := q]\<rparr>))
      + {#} = mset (live_bufs queued s) + {#}"
    using eq by (simp add: add.commute)
  then show ?thesis
    by (rule own_inv_change [OF inv]) (use assms in \<open>auto simp: own_inv_def dest!: in_set_update\<close>)
qed

lemma own_inv_vec_pool:
  assumes inv: "own_inv ok held window dq_ok queued area s"
    and i: "i < length (a_vecs s)" and "vec_wf v"
    and eq: "mset (items v) + mset (pool_items p)
             = mset (items (a_vecs s ! i)) + mset (pool_items (a_pool s))"
  shows "own_inv ok held window dq_ok queued area (s\<lparr>a_vecs := (a_vecs s)[i := v], a_pool := p\<rparr>)"
proof -
  let ?t = "s\<lparr>a_vecs := (a_vecs s)[i := v]\<rparr>"
  have "mset (live_bufs queued (?t\<lparr>a_pool := p\<rparr>)) + mset (pool_items (a_pool s))
      = mset (live_bufs queued ?t) + mset (pool_items p)"
    using live_pool [where s = ?t and p = p and queued = queued] by simp
  then have "mset (live_bufs queued (?t\<lparr>a_pool := p\<rparr>))
      + (mset (pool_items (a_pool s)) + mset (items (a_vecs s ! i)))
      = mset (live_bufs queued s) + (mset (items v) + mset (pool_items p))"
    by (rule mset_chain [OF _ live_vec [OF i]])
  then have "mset (live_bufs queued (s\<lparr>a_vecs := (a_vecs s)[i := v], a_pool := p\<rparr>)) + {#}
      = mset (live_bufs queued s) + {#}"
    using eq by (simp add: add.commute)
  then show ?thesis
    by (rule own_inv_change [OF inv]) (use assms in \<open>auto simp: own_inv_def dest!: in_set_update\<close>)
qed

text \<open>An edit of one buffer in place keeps its frame.\<close>

lemma own_inv_edit:
  assumes inv: "own_inv ok held window dq_ok queued area s" and i: "i < length (a_vecs s)"
    and k: "k < length (items (a_vecs s ! i))"
    and b: "bm_addr b = bm_addr (items (a_vecs s ! i) ! k)" "bm_data b = bm_data (items (a_vecs s ! i) ! k)"
  shows "own_inv ok held window dq_ok queued area
    (s\<lparr>a_vecs := (a_vecs s)[i := (a_vecs s ! i)\<lparr>items := (items (a_vecs s ! i))[k := b]\<rparr>]\<rparr>)"
proof -
  let ?v = "(a_vecs s ! i)\<lparr>items := (items (a_vecs s ! i))[k := b]\<rparr>"
  let ?o = "items (a_vecs s ! i) ! k"
  have "mset (items ?v) + {#?o#} = mset (items (a_vecs s ! i)) + {#b#}"
    using contents_update [OF k, of "\<lambda>b. [b]" b] by (simp add: concat_map_singleton)
  from mset_exchange [OF live_vec [OF i, of queued ?v] this]
  have l: "mset (live_bufs queued (s\<lparr>a_vecs := (a_vecs s)[i := ?v]\<rparr>)) + {#?o#}
      = mset (live_bufs queued s) + {#b#}" .
  have "?o \<in> set (live_bufs queued s)"
    using nth_mem [OF i] nth_mem [OF k] by (auto simp: live_bufs_def)
  then have "on_frame area b" using inv b by (auto simp: own_inv_def on_frame_def)
  moreover have "vec_wf ?v" using inv nth_mem [OF i] by (auto simp: own_inv_def vec_wf_def)
  ultimately show ?thesis
    using inv b by (intro own_inv_change [OF inv l]) (auto simp: own_inv_def dest!: in_set_update)
qed

text \<open>What a call that returned has done, in any build.\<close>

context xsk_link
begin

lemma service_ret:
  assumes "cq_service api prof dflt c bs n w = Ret (r, v, w')" and "ok w"
    and "kind (cq_ring c) = Completion" and "\<forall>p. snd (window p w) = 0"
    and "256 \<le> buf_len (um_area (cq_umem c))" and "vec_wf bs" and "n < 2 ^ 64"
  shows "\<exists>as. r = Ok (length as)
     \<and> v = bs\<lparr>items := items bs @ map (\<lambda>a. frame_buf (um_area (cq_umem c)) a 0 dflt) as\<rparr>
     \<and> length (items bs) + length as \<le> capacity bs
     \<and> ok w' \<and> held w = held w' + mset as \<and> (\<forall>p. snd (window p w') = 0)"
proof -
  have e: "cq_service api Release dflt c bs n w = Ret (r, v, w')"
    using extends_cq_service assms(1) by (rule extendsD)
  obtain as w'' where "cq_service api Release dflt c bs n w = Ret (Ok (length as), bs\<lparr>items :=
        items bs @ map (\<lambda>a. frame_buf (um_area (cq_umem c)) a 0 dflt) as\<rparr>, w'')"
    and f: "length as \<le> min (capacity bs - length (items bs)) n" "ok w''" "held w = held w'' + mset as"
      "snd (window (cq_ring c) w'') = 0" "\<forall>q. q \<noteq> cq_ring c \<longrightarrow> window q w'' = window q w"
    using service_correct [OF assms(2,3) _ assms(5,6,7), of Release dflt] assms(4) by auto
  with e have "v = bs\<lparr>items := items bs @ map (\<lambda>a. frame_buf (um_area (cq_umem c)) a 0 dflt) as\<rparr>"
    "w'' = w'" "r = Ok (length as)" by simp_all
  moreover have "\<forall>p. snd (window p w'') = 0" using f(4,5) assms(4) by metis
  moreover have "length (items bs) + length as \<le> capacity bs"
    using f(1) assms(6) unfolding vec_wf_def by linarith
  ultimately show ?thesis using f by (intro exI [of _ as]) simp
qed

lemma fill_ret:
  assumes "fq_fill api prof f bs n w = Ret (r, v, w')" and "ok w" and "kind (fq_ring f) = Fill"
    and "\<forall>p. snd (window p w) = 0" and "n < 2 ^ 64"
  shows "\<exists>k. r = Ok k \<and> k \<le> min (length (items bs)) n
     \<and> v = bs\<lparr>items := take (length (items bs) - k) (items bs)\<rparr> \<and> ok w'
     \<and> held w' = held w + owned (drop (length (items bs) - k) (items bs))
     \<and> (\<forall>p. snd (window p w') = 0)"
proof -
  have e: "fq_fill api Release f bs n w = Ret (r, v, w')"
    using extends_fq_fill assms(1) by (rule extendsD)
  obtain m w'' where "fq_fill api Release f bs n w
       = Ret (Ok m, bs\<lparr>items := take (length (items bs) - m) (items bs)\<rparr>, w'')"
    and g: "m = 0 \<or> m = min (length (items bs)) n"
      "ok w''" "held w'' = held w + owned (drop (length (items bs) - m) (items bs))"
      "snd (window (fq_ring f) w'') = 0" "\<forall>q. q \<noteq> fq_ring f \<longrightarrow> window q w'' = window q w"
    using fill_correct [OF assms(2,3) _ assms(5), of bs Release] assms(4) by auto
  with e have "v = bs\<lparr>items := take (length (items bs) - m) (items bs)\<rparr>" "w'' = w'" "r = Ok m"
    by simp_all
  moreover have "\<forall>p. snd (window p w'') = 0" using g(4,5) assms(4) by metis
  moreover have "m \<le> min (length (items bs)) n" using g(1) by auto
  ultimately show ?thesis using g by (intro exI [of _ m]) simp
qed

lemma recv_ret:
  assumes "try_recv api prof dq x q n user w = Ret (r, q', w')" and "ok w"
    and "kind (rx_ring x) = Rx" and "\<forall>p. snd (window p w) = 0"
    and "256 \<le> buf_len (um_area (so_umem (rx_socket x)))" and "dq_ok q"
  shows "\<exists>ds. r = Ok (length ds)
     \<and> queued q' = queued q @ map (rx_buf (um_area (so_umem (rx_socket x))) user) ds
     \<and> dq_ok q' \<and> ok w' \<and> held w = held w' + mset (map desc_addr ds)
     \<and> (\<forall>p. snd (window p w') = 0)"
proof -
  have e: "try_recv api Release dq x q n user w = Ret (r, q', w')"
    using extends_try_recv assms(1) by (rule extendsD)
  obtain ds p w'' where "try_recv api Release dq x q n user w = Ret (Ok (length ds), p, w'')"
    and g: "dq_ok p" "queued p = queued q @ map (rx_buf (um_area (so_umem (rx_socket x))) user) ds"
      "ok w''" "held w = held w'' + mset (map desc_addr ds)"
      "snd (window (rx_ring x) w'') = 0" "\<forall>q. q \<noteq> rx_ring x \<longrightarrow> window q w'' = window q w"
    using recv_correct [OF assms(2,3) _ assms(5,6), of n Release user] assms(4) by auto
  with e have "p = q'" "w'' = w'" "r = Ok (length ds)" by simp_all
  moreover have "\<forall>p. snd (window p w'') = 0" using g(5,6) assms(4) by metis
  ultimately show ?thesis using g by (intro exI [of _ ds]) simp
qed

lemma recv_ret_entries:
  assumes "try_recv api prof dq x q k user w = Ret (r, q', w')" and "ok w"
    and "kind (rx_ring x) = Rx" and "\<forall>p. snd (window p w) = 0"
    and "256 \<le> buf_len (um_area (so_umem (rx_socket x)))" and "dq_ok q"
  shows "\<exists>n i w1. cons_peek api (rx_ring x) (of_nat (min (PENDING_LEN - length (queued q)) k)) 0 w = (n, i, w1)
     \<and> r = Ok (unat n) \<and> queued q' = queued q
         @ map (rx_buf (um_area (so_umem (rx_socket x))) user) (rx_entries api (rx_ring x) i (unat n) w1)"
proof -
  have "try_recv api Release dq x q k user w = Ret (r, q', w')"
    using extends_try_recv assms(1) by (rule extendsD)
  then show ?thesis
    using recv_exact [where user = user and batch = k and prof = Release, OF assms(2,3) spec [OF assms(4)] assms(5,6)]
      idx_ok_Release by fastforce
qed

lemma send_ret:
  assumes "try_send api libc prof dq t q n w = Ret (r, q', w')" and "ok w"
    and "kind (tx_ring t) = Tx" and "\<forall>p. snd (window p w) = 0" and "dq_ok q"
  shows "\<exists>k. r = Ok k \<and> k \<le> length (queued q) \<and> queued q' = drop k (queued q)
     \<and> dq_ok q' \<and> ok w'
     \<and> held w' = held w + owned (take k (queued q)) \<and> (\<forall>p. snd (window p w') = 0)"
proof (cases "min (length (queued q)) n = 0")
  case True
  then have "try_send api libc prof dq t q n w = Ret (Ok 0, q, w)"
    by (simp add: try_send_def len_deque [OF assms(5)])
  then show ?thesis using assms by (intro exI [of _ 0]) simp
next
  case nz: False
  have e: "try_send api libc Release dq t q n w = Ret (r, q', w')"
    using extends_try_send assms(1) by (rule extendsD)
  obtain k p v where s: "try_send api libc Release dq t q n w
       = (if min (length (queued q)) n = 0 then Ret (Ok 0, q, w)
          else bnd (wakeup_if_required api libc t v) (\<lambda>(_, w'). Ret (Ok k, p, w')))"
    and k: "k = 0 \<or> k = min (length (queued q)) n"
    and g: "dq_ok p" "queued p = drop k (queued q)" "ok v" "held v = held w + owned (take k (queued q))"
      "snd (window (tx_ring t) v) = 0" "\<forall>q. q \<noteq> tx_ring t \<longrightarrow> window q v = window q w"
    using send_correct [OF assms(2,3) spec [OF assms(4)] assms(5) idx_ok_Release] by blast
  from s have "bnd (wakeup_if_required api libc t v) (\<lambda>(_, w'). Ret (Ok k, p, w')) = Ret (r, q', w')"
    unfolding e if_not_P [OF nz] by (rule sym)
  then obtain b where "wakeup_if_required api libc t v = Ret (b, w')" and p: "p = q'" "r = Ok k"
    by (auto simp: bnd_Ret_iff)
  note kp = wakeup_keeps [OF g(3) this(1)]
  have "\<forall>p. snd (window p w') = 0" using g(5,6) assms(4) kp by metis
  moreover have "k \<le> length (queued q)" using k by auto
  ultimately show ?thesis using g kp p by (intro exI [of _ k]) simp
qed

text \<open>In a release build the calls return.\<close>

lemma service_returns:
  assumes "ok w" and "kind (cq_ring c) = Completion" and "\<forall>p. snd (window p w) = 0"
    and "256 \<le> buf_len (um_area (cq_umem c))" and "vec_wf bs" and "n < 2 ^ 64"
  shows "\<exists>k v w'. cq_service api Release dflt c bs n w = Ret (Ok k, v, w')"
  using service_correct [OF assms(1,2) spec [OF assms(3)] assms(4-6) idx_ok_Release, of dflt] by blast

lemma fill_returns:
  assumes "ok w" and "kind (fq_ring f) = Fill" and "\<forall>p. snd (window p w) = 0" and "n < 2 ^ 64"
  shows "\<exists>k v w'. fq_fill api Release f bs n w = Ret (Ok k, v, w')"
  using fill_correct [OF assms(1,2) spec [OF assms(3)] assms(4) idx_ok_Release, of bs] by blast

lemma recv_returns:
  assumes "ok w" and "kind (rx_ring x) = Rx" and "\<forall>p. snd (window p w) = 0"
    and "256 \<le> buf_len (um_area (so_umem (rx_socket x)))" and "dq_ok q"
  shows "\<exists>k q' w'. try_recv api Release dq x q n user w = Ret (Ok k, q', w')"
  using recv_correct [OF assms(1,2) spec [OF assms(3)] assms(4,5) idx_ok_Release, of n user] by blast

lemma send_returns:
  assumes "ok w" and "kind (tx_ring t) = Tx" and "\<forall>p. snd (window p w) = 0" and "dq_ok q"
  shows "(\<exists>k q' w'. try_send api libc Release dq t q n w = Ret (Ok k, q', w'))
    \<or> try_send api libc Release dq t q n w = Panic ExplicitPanic
      \<and> (\<exists>v. wakeup_if_required api libc t v = Panic ExplicitPanic)"
proof -
  obtain k q' v where e: "try_send api libc Release dq t q n w =
     (if min (length (queued q)) n = 0 then Ret (Ok 0, q, w)
      else bnd (wakeup_if_required api libc t v) (\<lambda>(_, w'). Ret (Ok k, q', w')))"
    using send_correct [OF assms(1,2) spec [OF assms(3)] assms(4) idx_ok_Release] by blast
  from wakeup_outcome [of api libc t v] show ?thesis
    unfolding e by (auto split: if_splits)
qed

lemma step_preserves:
  assumes inv: "own_inv ok held window dq_ok queued area s" and env: "env_ok kind area env"
    and ma: "256 \<le> buf_len area" and st: "app_step api libc prof dq dflt env s s'"
  shows "own_inv ok held window dq_ok queued area s'"
  using st
proof cases
  case (service c i n r v w)
  have c: "kind (cq_ring c) = Completion" "um_area (cq_umem c) = area"
    using env service(2) by (auto simp: env_ok_def list_all_iff)
  have wf: "vec_wf (a_vecs s ! i)" "ok (a_world s)" "\<forall>p. snd (window p (a_world s)) = 0"
    using inv service(3) by (auto simp: own_inv_def)
  obtain as where as: "v = (a_vecs s ! i)\<lparr>items := items (a_vecs s ! i)
        @ map (\<lambda>a. frame_buf area a 0 dflt) as\<rparr>" "length (items (a_vecs s ! i)) + length as
        \<le> capacity (a_vecs s ! i)" "ok w" "held (a_world s) = held w + mset as"
      "\<forall>p. snd (window p w) = 0"
    using service_ret [OF service(5) wf(2) c(1) wf(3) _ wf(1) service(4)] ma c(2) by auto
  show ?thesis unfolding service(1)
    by (rule own_inv_vec [OF inv service(3), where R = "{#}"
          and N = "mset (map (\<lambda>a. frame_buf area a 0 dflt) as)"])
      (use as in \<open>auto simp: vec_wf_def add.commute multiset.map_comp comp_def\<close>)
next
  case (fill f i n r v w)
  have f: "kind (fq_ring f) = Fill" using env fill(2) by (auto simp: env_ok_def list_all_iff)
  have wf: "vec_wf (a_vecs s ! i)" "ok (a_world s)" "\<forall>p. snd (window p (a_world s)) = 0"
    using inv fill(3) by (auto simp: own_inv_def)
  obtain k where k: "v = (a_vecs s ! i)\<lparr>items := take k (items (a_vecs s ! i))\<rparr>" "ok w"
      "held w = held (a_world s) + owned (drop k (items (a_vecs s ! i)))"
      "\<forall>p. snd (window p w) = 0"
    using fill_ret [OF fill(5) wf(2) f wf(3) fill(4)] by blast
  show ?thesis unfolding fill(1)
    by (rule own_inv_vec [OF inv fill(3), where N = "{#}"
          and R = "mset (drop k (items (a_vecs s ! i)))"])
      (use k wf(1) in \<open>auto simp: vec_wf_def mset_take_drop add.commute\<close>)
next
  case (recv x j n user r q w)
  have x: "kind (rx_ring x) = Rx" "um_area (so_umem (rx_socket x)) = area"
    using env recv(2) by (auto simp: env_ok_def list_all_iff)
  have wf: "dq_ok (a_queues s ! j)" "ok (a_world s)" "\<forall>p. snd (window p (a_world s)) = 0"
    using inv recv(3) by (auto simp: own_inv_def)
  obtain ds where ds: "queued q = queued (a_queues s ! j) @ map (rx_buf area user) ds" "dq_ok q" "ok w"
      "held (a_world s) = held w + mset (map desc_addr ds)" "\<forall>p. snd (window p w) = 0"
    using recv_ret [OF recv(4) wf(2) x(1) wf(3) _ wf(1)] ma x(2) by auto
  show ?thesis unfolding recv(1)
    by (rule own_inv_queue [OF inv recv(3), where R = "{#}" and N = "mset (map (rx_buf area user) ds)"])
      (use ds in \<open>auto simp: add.commute multiset.map_comp comp_def\<close>)
next
  case (send t j n r q w)
  have t: "kind (tx_ring t) = Tx" using env send(2) by (auto simp: env_ok_def list_all_iff)
  have wf: "dq_ok (a_queues s ! j)" "ok (a_world s)" "\<forall>p. snd (window p (a_world s)) = 0"
    using inv send(3) by (auto simp: own_inv_def)
  obtain k where k: "queued q = drop k (queued (a_queues s ! j))" "dq_ok q" "ok w"
      "held w = held (a_world s) + owned (take k (queued (a_queues s ! j)))"
      "\<forall>p. snd (window p w) = 0"
    using send_ret [OF send(4) wf(2) t wf(3) wf(1)] by blast
  show ?thesis unfolding send(1)
    by (rule own_inv_queue [OF inv send(3), where N = "{#}"
          and R = "mset (take k (queued (a_queues s ! j)))"])
      (use k in \<open>auto simp: mset_take_drop add.commute\<close>)
next
  case (wake x e w)
  then show ?thesis
    using inv rx_wake_keeps [OF _ wake(3)]
    by (auto intro!: own_inv_change [OF inv, where R = "{#}" and N = "{#}"] simp: own_inv_def)
next
  case (pool_get i n r p v)
  have "vec_wf (a_vecs s ! i)" using inv pool_get(2) by (simp add: own_inv_def)
  then have "vec_wf v" using pool_get(3) by (auto simp: bpv_get_eq Let_def)
  moreover have "mset (items v) + mset (pool_items p)
      = mset (items (a_vecs s ! i)) + mset (pool_items (a_pool s))"
    using vec_pool.get_moves [OF pool_get(3)] by (simp add: add.commute)
  ultimately show ?thesis unfolding pool_get(1) by (rule own_inv_vec_pool [OF inv pool_get(2)])
next
  case (pool_put i n r p v)
  have "vec_wf (a_vecs s ! i)" using inv pool_put(2) by (simp add: own_inv_def)
  then have "vec_wf v" using pool_put(3) by (auto simp: bpv_put_eq Let_def vec_wf_def)
  moreover have "mset (items v) + mset (pool_items p)
      = mset (items (a_vecs s ! i)) + mset (pool_items (a_pool s))"
    using vec_pool.put_moves [OF pool_put(3)] by (simp add: add.commute)
  ultimately show ?thesis unfolding pool_put(1) by (rule own_inv_vec_pool [OF inv pool_put(2)])
next
  case (set_len i k l b)
  show ?thesis unfolding set_len(1)
    by (rule own_inv_edit [OF inv set_len(2,3)]) (use bm_set_len_Ret [OF set_len(4)] in simp_all)
next
  case (set_user i k b u)
  show ?thesis unfolding set_user(1)
    by (rule own_inv_edit [OF inv set_user(2,3)]) (simp_all add: set_user(4) bm_set_user_def)
next
  case (enqueue i j b v q)
  have wf: "dq_ok (a_queues s ! j)" "vec_wf (a_vecs s ! i)"
    using inv enqueue(2,3) by (auto simp: own_inv_def)
  have ne: "items (a_vecs s ! i) \<noteq> []" and b: "b = last (items (a_vecs s ! i))"
    and v: "v = (a_vecs s ! i)\<lparr>items := butlast (items (a_vecs s ! i))\<rparr>"
    using enqueue(4) by (auto simp: vec_pop_def split: if_splits)
  have "length (queued (a_queues s ! j)) \<noteq> PENDING_LEN"
    using push_full [OF wf(1) _ enqueue(5)] by auto
  then have room: "length (queued (a_queues s ! j)) < PENDING_LEN" using queued_bound [OF wf(1)] by simp
  have "mset (items (a_vecs s ! i)) = mset (butlast (items (a_vecs s ! i)) @ [b])"
    using ne b by simp
  then show ?thesis unfolding enqueue(1)
    using push_room [OF wf(1) room enqueue(5)] wf(2) v
    by (intro own_inv_vec_queue [OF inv enqueue(2,3)]) (auto simp: vec_wf_def)
next
  case (dequeue i j b q)
  have wf: "dq_ok (a_queues s ! j)" "vec_wf (a_vecs s ! i)"
    using inv dequeue(2,3) by (auto simp: own_inv_def)
  from pop_front [OF wf(1) dequeue(4)] show ?thesis unfolding dequeue(1)
    using wf(2) by (intro own_inv_vec_queue [OF inv dequeue(2,3)]) (auto split: list.splits)
next
  case (drain i j bs q)
  have wf: "dq_ok (a_queues s ! j)" "vec_wf (a_vecs s ! i)"
    using inv drain(2,3) by (auto simp: own_inv_def)
  have "vec_wf (foldl vec_push v bs) \<and> items (foldl vec_push v bs) = items v @ bs"
    if "vec_wf v" for v and bs :: "'u buf_mmap list"
    using that by (induction bs arbitrary: v) auto
  with drain_deque [OF wf(1) drain(4)] wf(2) show ?thesis unfolding drain(1)
    by (intro own_inv_vec_queue [OF inv drain(2,3)]) auto
qed

lemma steps_preserve:
  assumes "(app_step api libc prof dq dflt env)\<^sup>*\<^sup>* s s'" and "own_inv ok held window dq_ok queued area s"
    and "env_ok kind area env" and "256 \<le> buf_len area"
  shows "own_inv ok held window dq_ok queued area s'"
  using assms by (induction rule: rtranclp_induct) (auto intro: step_preserves)

end

section \<open>What the invariant gives\<close>

lemma own_inv_distinct:
  assumes "own_inv ok held window dq_ok queued area s" and "ma_wf area"
  shows "distinct (map bm_addr (live_bufs queued s))"
    and "set (map bm_addr (live_bufs queued s)) \<subseteq> set (frame_addrs area)"
    and "set_mset (held (a_world s)) \<subseteq> set (frame_addrs area)"
    and "set (map bm_addr (live_bufs queued s)) \<inter> set_mset (held (a_world s)) = {}"
proof -
  let ?l = "map bm_addr (live_bufs queued s)"
  have eq: "mset ?l + held (a_world s) = mset (frame_addrs area)"
    using assms(1) by (simp add: own_inv_def)
  obtain hs where hs: "mset hs = held (a_world s)" using ex_mset by blast
  have m: "mset (?l @ hs) = mset (frame_addrs area)" using eq hs by simp
  have d: "distinct (?l @ hs)"
    using distinct_frame_addrs [OF assms(2)] mset_eq_imp_distinct_iff [OF m] by blast
  have st: "set (?l @ hs) = set (frame_addrs area)" using m by (rule mset_eq_setD)
  have h: "set_mset (held (a_world s)) = set hs" by (simp add: hs [symmetric])
  show "distinct ?l" "set ?l \<subseteq> set (frame_addrs area)" using d st by auto
  show "set_mset (held (a_world s)) \<subseteq> set (frame_addrs area)"
    "set ?l \<inter> set_mset (held (a_world s)) = {}"
    unfolding h using d st by auto
qed

lemma own_inv_slices:
  assumes inv: "own_inv ok held window dq_ok queued area s" and wf: "ma_wf area"
    and i: "i < length (live_bufs queued s)"
  shows "bm_data (live_bufs queued s ! i) = frame_slice area (bm_addr (live_bufs queued s ! i))"
    and "bm_addr (live_bufs queued s ! i) \<in> set (frame_addrs area)"
  using nth_mem [OF i] inv own_inv_distinct(2) [OF inv wf] by (auto simp: own_inv_def on_frame_def)

lemma own_inv_live_disjoint:
  assumes inv: "own_inv ok held window dq_ok queued area s" and wf: "ma_wf area"
    and i: "i < length (live_bufs queued s)" and j: "j < length (live_bufs queued s)" and ne: "i \<noteq> j"
  shows "slice_addrs (bm_data (live_bufs queued s ! i))
         \<inter> slice_addrs (bm_data (live_bufs queued s ! j)) = {}"
proof -
  have "bm_addr (live_bufs queued s ! i) \<noteq> bm_addr (live_bufs queued s ! j)"
    using own_inv_distinct(1) [OF inv wf] i j ne by (auto simp: distinct_conv_nth)
  then show ?thesis
    using own_inv_slices [OF inv wf i] own_inv_slices [OF inv wf j] frame_slice_disjoint [OF wf]
    by simp
qed

lemma own_inv_kernel_disjoint:
  assumes inv: "own_inv ok held window dq_ok queued area s" and wf: "ma_wf area"
    and i: "i < length (live_bufs queued s)" and a: "a \<in># held (a_world s)"
  shows "slice_addrs (bm_data (live_bufs queued s ! i)) \<inter> slice_addrs (frame_slice area a) = {}"
proof -
  have "bm_addr (live_bufs queued s ! i) \<noteq> a"
    using own_inv_distinct(4) [OF inv wf] nth_mem [OF i] a by auto
  moreover have "a \<in> set (frame_addrs area)" using own_inv_distinct(3) [OF inv wf] a by blast
  ultimately show ?thesis
    using own_inv_slices [OF inv wf i] frame_slice_disjoint [OF wf] by simp
qed

text \<open>The example of the witnesses: eight buffers, one of which is about to be received.\<close>

definition ex_env :: "kring_id env" where
  "ex_env = \<lparr>env_cqs = [ex_cq], env_fqs = [ex_fq], env_rxs = [ex_rx], env_txs = [ex_tx]\<rparr>"

definition ex_app :: "(unit, unit buf_mmap list, kworld) app" where
  "ex_app = \<lparr>a_vecs = [ex_bufs [4352, 6400, 8448]], a_queues = [ex_queue [10496]],
             a_pool = \<lparr>bufs = ex_bufs [12544, 14592]\<rparr>, a_world = ex_rx_world (2 ^ 32 - 1)\<rparr>"

lemma ex_env_ok: "env_ok snd ex_area ex_env"
  by (simp add: env_ok_def ex_env_def ex_cq_def ex_fq_def ex_rx_def ex_tx_def ex_umem_def
      ex_socket_def)

lemma ex_app_inv:
  "own_inv k_ok k_held k_window (\<lambda>q. length q \<le> PENDING_LEN) (\<lambda>q. q) ex_area ex_app"
  by (simp add: own_inv_def ex_app_def ex_rx_world_facts live_bufs_def ex_bufs_def ex_queue_def
      vec_wf_def PENDING_LEN_def ex_area_frames del: split_paired_All)

lemma ex_app_step:
  "\<exists>s. app_step ref_api ref_libc Debug list_deque () ex_env ex_app s"
proof -
  have "app_step ref_api ref_libc Debug list_deque () ex_env ex_app
      (ex_app\<lparr>a_vecs := (a_vecs ex_app)[0 := vec_push (a_vecs ex_app ! 0) (frame_buf ex_area 10496 60 ())],
              a_queues := (a_queues ex_app)[0 := []]\<rparr>)"
    by (rule dequeue) (simp_all add: ex_app_def ex_queue_def list_deque_def)
  then show ?thesis by blast
qed

text \<open>
  Property C1. Memory safety of the buffers. Whatever sequence of calls a program makes on one
  area, with any number of rings, vectors, queues and threads taking turns, the slices of two
  different buffers it holds never share a byte, none shares one with a frame the kernel holds,
  and all lie inside the mapping.
\<close>

theorem reachable_bufs_disjoint:
  assumes "xsk_link api ok held kind window staged libc dq dq_ok queued"
    and "env_ok kind area env" and "ma_wf area" and "own_inv ok held window dq_ok queued area s"
    and "(app_step api libc prof dq dflt env)\<^sup>*\<^sup>* s s'"
    and "i < length (live_bufs queued s')"
  shows "slice_addrs (bm_data (live_bufs queued s' ! i))
           \<subseteq> {unat (ma_ptr area)..<unat (ma_ptr area) + buf_num area * buf_len area}
     \<and> (\<forall>j < length (live_bufs queued s'). j \<noteq> i \<longrightarrow>
          slice_addrs (bm_data (live_bufs queued s' ! i))
          \<inter> slice_addrs (bm_data (live_bufs queued s' ! j)) = {})
     \<and> (\<forall>a. a \<in># held (a_world s') \<longrightarrow>
          slice_addrs (bm_data (live_bufs queued s' ! i)) \<inter> slice_addrs (frame_slice area a) = {})"
proof -
  have "256 \<le> buf_len area" using assms(3) by (simp add: ma_wf_def)
  note inv = xsk_link.steps_preserve [OF assms(1,5,4,2) this]
  show ?thesis
    using own_inv_slices [OF inv assms(3,6)] frame_slice_inside [OF assms(3)]
      own_inv_live_disjoint [OF inv assms(3,6)] own_inv_kernel_disjoint [OF inv assms(3,6)]
    by simp
qed

theorem reachable_bufs_disjoint_witness:
  "\<exists>s. app_step ref_api ref_libc Debug list_deque () ex_env ex_app s
     \<and> (\<forall>i < length (live_bufs (\<lambda>q. q) s). slice_addrs (bm_data (live_bufs (\<lambda>q. q) s ! i))
          \<subseteq> {65536..<81920})"
proof -
  obtain s where s: "app_step ref_api ref_libc Debug list_deque () ex_env ex_app s"
    using ex_app_step by blast
  then have "slice_addrs (bm_data (live_bufs (\<lambda>q. q) s ! i)) \<subseteq> {65536..<81920}"
    if "i < length (live_bufs (\<lambda>q. q) s)" for i
    using reachable_bufs_disjoint [OF xsk_link_ref ex_env_ok ex_area_wf ex_app_inv
        r_into_rtranclp [of "app_step ref_api ref_libc Debug list_deque () ex_env"] that]
    by (simp add: ex_area_def)
  with s show ?thesis by blast
qed

text \<open>
  Property C7. Conservation of frames. Every call keeps every frame of the area in exactly one
  place: the addresses in the program's vectors, queues and pool together with those the kernel
  holds are the frames of the area, each once.
\<close>

theorem steps_conserve_frames:
  assumes "xsk_link api ok held kind window staged libc dq dq_ok queued"
    and "env_ok kind area env" and "ma_wf area" and "own_inv ok held window dq_ok queued area s"
    and "(app_step api libc prof dq dflt env)\<^sup>*\<^sup>* s s'"
  shows "own_inv ok held window dq_ok queued area s'
     \<and> owned (live_bufs queued s') + held (a_world s') = mset (frame_addrs area)
     \<and> distinct (map bm_addr (live_bufs queued s'))
     \<and> length (live_bufs queued s') + size (held (a_world s')) = buf_num area"
proof -
  have "256 \<le> buf_len area" using assms(3) by (simp add: ma_wf_def)
  note inv = xsk_link.steps_preserve [OF assms(1,5,4,2) this]
  then have eq: "owned (live_bufs queued s') + held (a_world s') = mset (frame_addrs area)"
    by (simp add: own_inv_def)
  have "size (owned (live_bufs queued s') + held (a_world s')) = buf_num area"
    unfolding eq by simp
  then show ?thesis using inv eq own_inv_distinct(1) [OF inv assms(3)] by simp
qed

theorem steps_conserve_frames_witness:
  "\<exists>s. app_step ref_api ref_libc Debug list_deque () ex_env ex_app s
     \<and> length (live_bufs (\<lambda>q. q) s) + size (k_held (a_world s)) = 8"
proof -
  obtain s where s: "app_step ref_api ref_libc Debug list_deque () ex_env ex_app s"
    using ex_app_step by blast
  with steps_conserve_frames [OF xsk_link_ref ex_env_ok ex_area_wf ex_app_inv
      r_into_rtranclp [of "app_step ref_api ref_libc Debug list_deque () ex_env"]]
  have "length (live_bufs (\<lambda>q. q) s) + size (k_held (a_world s)) = 8"
    by (fastforce simp: ex_area_def)
  with s show ?thesis by blast
qed

text \<open>
  Property C31. Bytes written through one live buffer are read back from it, and no other live
  buffer changes.
\<close>

theorem live_write_isolated:
  assumes "own_inv ok held window dq_ok queued area s" and "ma_wf area"
    and "i < length (live_bufs queued s)"
    and "slice_store m (bm_get_data_mut (live_bufs queued s ! i)) a bs = Ret m'"
  shows "bm_get_data m' (live_bufs queued s ! i) =
           take a (bm_get_data m (live_bufs queued s ! i)) @ bs
           @ drop (a + length bs) (bm_get_data m (live_bufs queued s ! i))
     \<and> (\<forall>j < length (live_bufs queued s). j \<noteq> i \<longrightarrow>
          bm_get_data m' (live_bufs queued s ! j) = bm_get_data m (live_bufs queued s ! j))"
proof -
  have mp: "slice_mapped (bm_data (live_bufs queued s ! j))" if "j < length (live_bufs queued s)" for j
    using own_inv_slices [OF assms(1,2) that] frame_slice_mapped_addr [OF assms(2)] by simp
  note st = assms(4) [unfolded bm_get_data_mut_def]
  show ?thesis
    unfolding bm_get_data_def
    using slice_store_read [OF st mp [OF assms(3)]]
      slice_store_disjoint [OF st mp [OF assms(3)] mp own_inv_live_disjoint [OF assms(1-3)]]
    by auto
qed

theorem live_write_isolated_witness:
  "\<exists>m'. slice_store (\<lambda>_. 0) (bm_data (live_bufs (\<lambda>q. q) ex_app ! 0)) 0 [1, 2] = Ret m'
     \<and> bm_get_data m' (live_bufs (\<lambda>q. q) ex_app ! 1) = replicate 1792 0"
proof -
  let ?l = "live_bufs (\<lambda>q. q) ex_app"
  have b: "?l ! 0 = frame_buf ex_area 4352 0 ()" "?l ! 1 = frame_buf ex_area 6400 0 ()" "length ?l = 6"
    by (simp_all add: live_bufs_def ex_app_def ex_bufs_def ex_queue_def)
  obtain m' where m: "slice_store (\<lambda>_. 0) (bm_get_data_mut (?l ! 0)) 0 [1, 2] = Ret m'"
    by (simp add: bm_get_data_mut_def b slice_store_def frame_slice_def ex_area_def)
  have "bm_get_data m' (?l ! 1) = bm_get_data (\<lambda>_. 0) (?l ! 1)"
    using live_write_isolated [OF ex_app_inv ex_area_wf _ m] b(3) by auto
  also have "\<dots> = replicate 1792 0"
    unfolding b(2)
    by (simp add: bm_get_data_def slice_read_def frame_slice_def ex_area_def map_replicate_const)
  finally show ?thesis using m by (auto simp: bm_get_data_mut_def)
qed

definition app_start :: "('u buf_mmap, 'q) deque_api \<Rightarrow> 'u buf_mmap vec \<Rightarrow> nat \<Rightarrow> usize \<Rightarrow> 'w
    \<Rightarrow> ('u, 'q, 'w) app" where
  "app_start dq bs nq pool_cap w =
     \<lparr>a_vecs = [bs], a_queues = replicate nq (dq_new dq), a_pool = bpv_new pool_cap, a_world = w\<rparr>"

lemma start_inv:
  assumes "array_deque dq dq_ok queued" and "os_mmap libc" and "256 \<le> len" and "num * len < 2 ^ 64"
    and "mmap_area_new libc prof dflt num len options w = Ret (Ok (area, bs), w')"
    and "ok w'" and "held w' = {#}" and "\<forall>r. snd (window r w') = 0"
  shows "ma_wf area \<and> buf_num area = num \<and> buf_len area = len
     \<and> own_inv ok held window dq_ok queued area (app_start dq bs nq pool_cap w')"
proof -
  obtain p w0 where p: "mmap_call libc (num * len) options w = (p, w0)" by fastforce
  with assms(4,5) have nf: "p \<noteq> MAP_FAILED libc"
    by (auto simp: mmap_area_new_def Let_def usize_mul_ok)
  obtain ma vs where "mmap_area_new libc prof dflt num len options w = Ret (Ok (ma, vs), w0)"
    and ma: "ma_wf ma" "items vs = map (\<lambda>a. frame_buf ma a 0 dflt) (frame_addrs ma)"
      "capacity vs = num" "buf_num ma = num" "buf_len ma = len"
    using mmap_area_new_result [OF assms(2-4) p nf, of prof dflt] by auto
  with assms(5) have eq: "ma = area" "vs = bs" by simp_all
  have bs: "on_frame area b" if "b \<in> set (items bs)" for b
    using that ma(2) by (auto simp: eq)
  have q: "dq_ok (dq_new dq)" "queued (dq_new dq) = []"
    using array_deque.new_deque [OF assms(1)] by simp_all
  have l: "live_bufs queued (app_start dq bs nq pool_cap w') = items bs"
    by (simp add: live_bufs_def app_start_def bpv_new_def q(2) map_replicate_const)
  have "vec_wf bs" using ma by (simp add: vec_wf_def eq)
  then show ?thesis
    using ma bs q(1) assms(6-8)
    by (simp add: own_inv_def l eq) (simp add: app_start_def comp_def)
qed

text \<open>
  The invariant holds at the start: after \<open>MmapArea::new\<close> returned the area and its
  buffers, with fresh queues, an empty pool and a kernel that holds no frame of the area yet.
\<close>

lemma app_start_inv:
  assumes "array_deque dq dq_ok queued" and "os_mmap libc" and "256 \<le> len" and "num * len < 2 ^ 64"
    and "mmap_area_new libc prof dflt num len options w = Ret (Ok (area, bs), w')"
    and "ok w'" and "held w' = {#}" and "\<forall>r. snd (window r w') = 0"
  shows "ma_wf area \<and> own_inv ok held window dq_ok queued area (app_start dq bs nq pool_cap w')"
  using start_inv [where ok = ok and held = held and window = window, OF assms] by blast

lemma app_start_inv_witness:
  "\<exists>bs :: unit buf_mmap vec. ma_wf ex_area
     \<and> own_inv k_ok k_held k_window (\<lambda>q. length q \<le> PENDING_LEN) (\<lambda>q. q) ex_area
         (app_start list_deque bs 2 0 (mk_world (\<lambda>_. []) 0))"
proof -
  let ?w = "mk_world (\<lambda>_. []) 0"
  obtain bs :: "unit buf_mmap vec" where bs:
    "mmap_area_new ref_libc Debug () 8 2048 \<lparr>huge_tlb = False\<rparr> ?w = Ret (Ok (ex_area, bs), ?w)"
    using mmap_area_new_result [OF refos.os_mmap_axioms, of 2048 8 "\<lparr>huge_tlb = False\<rparr>" ?w 65536 ?w
        Debug "()"]
    by (auto simp: ref_libc_def ex_area_def)
  have "k_ok ?w" "k_held ?w = {#}" "\<forall>r. snd (k_window r ?w) = 0"
    by (auto simp: mk_world_held mk_world_window intro: mk_world_ok)
  from app_start_inv [where ok = k_ok and held = k_held and window = k_window and nq = 2 and pool_cap = 0,
      OF listq.array_deque_axioms refos.os_mmap_axioms _ _ bs this]
  show ?thesis by auto
qed

text \<open>
  Property C21. No call of the crate can fail in such a state in a release build: \<open>service\<close>,
  \<open>fill\<close> and \<open>try_recv\<close> return \<open>Ok\<close> from every reachable state, with any batch size, and \<open>try_send\<close>
  returns \<open>Ok\<close> unless the kernel refuses the wake-up with an unexpected error, where it panics.
\<close>

theorem calls_return:
  assumes "xsk_link api ok held kind window staged libc dq dq_ok queued"
    and "env_ok kind area env" and "ma_wf area" and "own_inv ok held window dq_ok queued area s"
    and "c \<in> set (env_cqs env)" and "f \<in> set (env_fqs env)" and "x \<in> set (env_rxs env)"
    and "t \<in> set (env_txs env)" and "v \<in> set (a_vecs s)" and "q \<in> set (a_queues s)" and "n < 2 ^ 64"
  shows "(\<exists>k v' w. cq_service api Release dflt c v n (a_world s) = Ret (Ok k, v', w))
     \<and> (\<exists>k v' w. fq_fill api Release f v n (a_world s) = Ret (Ok k, v', w))
     \<and> (\<exists>k q' w. try_recv api Release dq x q n user (a_world s) = Ret (Ok k, q', w))
     \<and> ((\<exists>k q' w. try_send api libc Release dq t q n (a_world s) = Ret (Ok k, q', w))
        \<or> try_send api libc Release dq t q n (a_world s) = Panic ExplicitPanic
          \<and> (\<exists>w. wakeup_if_required api libc t w = Panic ExplicitPanic))"
proof -
  have ma: "256 \<le> buf_len area" using assms(3) by (simp add: ma_wf_def)
  have rings: "kind (cq_ring c) = Completion" "um_area (cq_umem c) = area" "kind (fq_ring f) = Fill"
    "kind (rx_ring x) = Rx" "um_area (so_umem (rx_socket x)) = area" "kind (tx_ring t) = Tx"
    using assms(2,5-8) by (auto simp: env_ok_def list_all_iff)
  have st: "ok (a_world s)" "\<forall>r. snd (window r (a_world s)) = 0" "vec_wf v" "dq_ok q"
    using assms(4,9,10) by (auto simp: own_inv_def)
  show ?thesis
    using xsk_link.service_returns [OF assms(1) st(1) rings(1) st(2) _ st(3) assms(11), of dflt]
      xsk_link.fill_returns [OF assms(1) st(1) rings(3) st(2) assms(11), of v]
      xsk_link.recv_returns [OF assms(1) st(1) rings(4) st(2) _ st(4), of n user]
      xsk_link.send_returns [OF assms(1) st(1) rings(6) st(2) st(4), of n] ma
    unfolding rings(2,5) by blast
qed

theorem calls_return_witness:
  "\<exists>k v w. fq_fill ref_api Release ex_fq (ex_bufs [4352, 6400, 8448]) 2 (a_world ex_app)
     = Ret (Ok k, v, w)"
  using calls_return [OF xsk_link_ref ex_env_ok ex_area_wf ex_app_inv, of ex_cq ex_fq ex_rx ex_tx
      "ex_bufs [4352, 6400, 8448]" "ex_queue [10496]" 2 "()" "()"]
  by (simp add: ex_env_def) (simp add: ex_app_def)

end
