(* ===== verification/Frame_Ownership.thy ===== *)
theory Frame_Ownership
  imports Ownership
begin

text \<open>
  The abstract specification of the crate: two parties, the program and the kernel, that own
  disjoint sets of frames and hand frames to each other. Every call of the crate refines it. The
  second part shows what the safe interface does not rule out: a buffer of one area given to the
  fill queue of a umem on another.
\<close>

section \<open>The abstract specification\<close>

inductive own_step :: "u64 set \<times> u64 set \<Rightarrow> u64 set \<times> u64 set \<Rightarrow> bool" where
  give: "F \<subseteq> P \<Longrightarrow> own_step (P, K) (P - F, K \<union> F)"
| take: "F \<subseteq> K \<Longrightarrow> own_step (P, K) (P \<union> F, K - F)"

definition parties :: "('w \<Rightarrow> u64 multiset) \<Rightarrow> ('q \<Rightarrow> 'u buf_mmap list) \<Rightarrow> ('u, 'q, 'w) app
    \<Rightarrow> u64 set \<times> u64 set" where
  "parties held queued s = (set (map bm_addr (live_bufs queued s)), set_mset (held (a_world s)))"

lemma own_step_preserves:
  "own_step a b \<Longrightarrow> fst a \<inter> snd a = {} \<Longrightarrow> fst b \<inter> snd b = {} \<and> fst b \<union> snd b = fst a \<union> snd a"
  by (induction rule: own_step.induct) auto

section \<open>Refinement\<close>

lemma parties_partition:
  assumes "own_inv ok held window dq_ok queued area s" and "ma_wf area"
  shows "fst (parties held queued s) \<inter> snd (parties held queued s) = {}"
    and "fst (parties held queued s) \<union> snd (parties held queued s) = set (frame_addrs area)"
proof -
  show "fst (parties held queued s) \<inter> snd (parties held queued s) = {}"
    using own_inv_distinct(4) [OF assms] by (simp add: parties_def)
  have "set_mset (owned (live_bufs queued s) + held (a_world s)) = set (frame_addrs area)"
    using assms(1) by (simp add: own_inv_def)
  then show "fst (parties held queued s) \<union> snd (parties held queued s) = set (frame_addrs area)"
    by (simp add: parties_def)
qed

lemma parties_step:
  assumes "own_inv ok held window dq_ok queued area s" and "own_inv ok held window dq_ok queued area s'"
    and "ma_wf area" and "held (a_world s) \<subseteq># held (a_world s') \<or> held (a_world s') \<subseteq># held (a_world s)"
  shows "own_step (parties held queued s) (parties held queued s')"
proof -
  obtain P K P' K' where p: "parties held queued s = (P, K)" "parties held queued s' = (P', K')" by fastforce
  let ?U = "set (frame_addrs area)"
  have d: "P = ?U - K" "K \<subseteq> ?U" "P' = ?U - K'" "K' \<subseteq> ?U"
    using parties_partition [OF assms(1,3)] parties_partition [OF assms(2,3)] by (auto simp: p)
  have "K \<subseteq> K' \<or> K' \<subseteq> K"
    using assms(4) p by (auto simp: parties_def dest: set_mset_mono)
  then show ?thesis
  proof
    assume "K \<subseteq> K'"
    with d have "K' - K \<subseteq> P" "P' = P - (K' - K)" "K' = K \<union> (K' - K)" by auto
    then show ?thesis unfolding p by (metis give)
  next
    assume "K' \<subseteq> K"
    with d have "K - K' \<subseteq> K" "P' = P \<union> (K - K')" "K' = K - (K - K')" by auto
    then show ?thesis unfolding p by (metis take)
  qed
qed

text \<open>A call only gives frames, or only takes frames.\<close>

context xsk_link
begin

lemma step_held:
  assumes inv: "own_inv ok held window dq_ok queued area s" and env: "env_ok kind area env"
    and ma: "256 \<le> buf_len area" and st: "app_step api libc prof dq dflt env s s'"
  shows "held (a_world s) \<subseteq># held (a_world s') \<or> held (a_world s') \<subseteq># held (a_world s)"
  using st
proof cases
  case (service c i n r v w)
  have c: "kind (cq_ring c) = Completion" "um_area (cq_umem c) = area"
    using env service(2) by (auto simp: env_ok_def list_all_iff)
  have wf: "vec_wf (a_vecs s ! i)" "ok (a_world s)" "\<forall>p. snd (window p (a_world s)) = 0"
    using inv service(3) by (auto simp: own_inv_def)
  obtain as where "held (a_world s) = held w + mset (as :: u64 list)"
    using service_ret [OF service(5) wf(2) c(1) wf(3) _ wf(1) service(4)] ma c(2) by auto
  then show ?thesis by (simp add: service(1))
next
  case (fill f i n r v w)
  have "kind (fq_ring f) = Fill" using env fill(2) by (auto simp: env_ok_def list_all_iff)
  moreover have "ok (a_world s)" "\<forall>p. snd (window p (a_world s)) = 0" using inv by (auto simp: own_inv_def)
  ultimately obtain bs where "held w = held (a_world s) + owned (bs :: 'u buf_mmap list)"
    using fill_ret [OF fill(5)] fill(4) by blast
  then show ?thesis by (simp add: fill(1))
next
  case (recv x j n user r q w)
  have x: "kind (rx_ring x) = Rx" "um_area (so_umem (rx_socket x)) = area"
    using env recv(2) by (auto simp: env_ok_def list_all_iff)
  have wf: "dq_ok (a_queues s ! j)" "ok (a_world s)" "\<forall>p. snd (window p (a_world s)) = 0"
    using inv recv(3) by (auto simp: own_inv_def)
  have "256 \<le> buf_len (um_area (so_umem (rx_socket x)))" using ma x(2) by simp
  from recv_ret [OF recv(4) wf(2) x(1) wf(3) this wf(1)]
  obtain ds :: "xdp_desc list" where "held (a_world s) = held w + mset (map desc_addr ds)" by blast
  then show ?thesis by (simp add: recv(1))
next
  case (send t j n r q w)
  have "kind (tx_ring t) = Tx" using env send(2) by (auto simp: env_ok_def list_all_iff)
  moreover have "dq_ok (a_queues s ! j)" "ok (a_world s)" "\<forall>p. snd (window p (a_world s)) = 0"
    using inv send(3) by (auto simp: own_inv_def)
  ultimately obtain bs where "held w = held (a_world s) + owned (bs :: 'u buf_mmap list)"
    using send_ret [OF send(4)] by blast
  then show ?thesis by (simp add: send(1))
next
  case (wake x e w)
  have "ok (a_world s)" using inv by (simp add: own_inv_def)
  from rx_wake_keeps [OF this wake(3)] show ?thesis by (simp add: wake(1))
qed simp_all

lemma step_refines:
  assumes "own_inv ok held window dq_ok queued area s" and "env_ok kind area env" and "ma_wf area"
    and "app_step api libc prof dq dflt env s s'"
  shows "own_step (parties held queued s) (parties held queued s')"
proof -
  have ma: "256 \<le> buf_len area" using assms(3) by (simp add: ma_wf_def)
  show ?thesis
    by (rule parties_step [OF assms(1) step_preserves [OF assms(1,2) ma assms(4)] assms(3)
          step_held [OF assms(1,2) ma assms(4)]])
qed

end

text \<open>
  Property C6. The crate refines the abstract ownership protocol: seen through the frames the
  program's buffers occupy and the frames the kernel holds, every single call that a run makes is one
  step of the specification: it hands a set of frames to the kernel or takes a set of frames from it,
  never both (the empty set for the calls that do not exchange frames), and the two parties still share
  all frames of the area between them.
\<close>

theorem app_refines_ownership:
  assumes "xsk_link api ok held kind window staged libc dq dq_ok queued"
    and "env_ok kind area env" and "ma_wf area" and "own_inv ok held window dq_ok queued area s"
    and "(app_step api libc prof dq dflt env)\<^sup>*\<^sup>* s t" and "app_step api libc prof dq dflt env t t'"
  shows "own_step (parties held queued t) (parties held queued t')
     \<and> fst (parties held queued t') \<inter> snd (parties held queued t') = {}
     \<and> fst (parties held queued t') \<union> snd (parties held queued t') = set (frame_addrs area)"
proof -
  have ma: "256 \<le> buf_len area" using assms(3) by (simp add: ma_wf_def)
  note inv = xsk_link.steps_preserve [OF assms(1,5,4,2) ma]
  show ?thesis
    using xsk_link.step_refines [OF assms(1) inv assms(2,3,6)]
      parties_partition [OF xsk_link.step_preserves [OF assms(1) inv assms(2) ma assms(6)] assms(3)]
    by simp
qed

theorem app_refines_ownership_witness:
  "\<exists>s. app_step ref_api ref_libc Debug list_deque () ex_env ex_app s
     \<and> own_step (parties k_held (\<lambda>q. q) ex_app) (parties k_held (\<lambda>q. q) s)"
proof -
  obtain s where s: "app_step ref_api ref_libc Debug list_deque () ex_env ex_app s"
    using ex_app_step by blast
  with app_refines_ownership [OF xsk_link_ref ex_env_ok ex_area_wf ex_app_inv rtranclp.rtrancl_refl]
  show ?thesis by blast
qed

section \<open>A buffer of another area\<close>

text \<open>
  Property C19. The limit of that guarantee. A buffer carries the offset of its frame, and the fill
  queue of a umem does not check that the buffer it is given lies on the umem's area. In any state of
  a program, let \<open>b\<close> be a buffer it holds on the area, and let the fill queue have room. The program
  fills it with a buffer of \<open>other\<close>, an area that shares no byte with the first, whose frame has the
  same offset as the frame of \<open>b\<close>. Then the call succeeds and the kernel holds the frame of \<open>b\<close>: before,
  no frame of the kernel shared a byte with \<open>b\<close>; now one does, and the kernel may write into the memory
  that \<open>b\<close> exclusively borrows, without any \<open>unsafe\<close> in the program.
\<close>

theorem foreign_fill_aliases:
  assumes "xsk_link api ok held kind window staged libc dq dq_ok queued"
    and "own_inv ok held window dq_ok queued area s" and "ma_wf area" and "256 < buf_len area"
    and "kind (fq_ring fq) = Fill" and "um_area (fq_umem fq) = area" and "b \<in> set (live_bufs queued s)"
    and "ma_wf other" and "bm_addr b \<in> set (frame_addrs other)"
    and "{unat (ma_ptr area)..<unat (ma_ptr area) + buf_num area * buf_len area}
       \<inter> {unat (ma_ptr other)..<unat (ma_ptr other) + buf_num other * buf_len other} = {}"
    and "items bs = [frame_buf other (bm_addr b) l u]"
    and "prod_reserve api (fq_ring fq) 1 0 (a_world s) = (1, i, w1)" and "idx_ok prof i 1"
  shows "\<exists>w'. fq_fill api prof fq bs 1 (a_world s) = Ret (Ok 1, bs\<lparr>items := []\<rparr>, w')
     \<and> held w' = add_mset (bm_addr b) (held (a_world s))
     \<and> (\<forall>a \<in># held (a_world s). slice_addrs (bm_data b) \<inter> slice_addrs (frame_slice area a) = {})
     \<and> (\<exists>a \<in># held w'. slice_addrs (bm_data b) \<inter> slice_addrs (frame_slice area a) \<noteq> {})
     \<and> slice_addrs (bm_data b) \<inter> slice_addrs (bm_data (hd (items bs))) = {}"
proof -
  note rings = xsk_link.axioms(1) [OF assms(1)]
  have prod: "xsk_prod api ok held kind window staged"
    by (rule xsk_rings.axioms(2) [OF rings])
  have w: "ok (a_world s)" "snd (window (fq_ring fq) (a_world s)) = 0"
    using assms(2) by (simp_all add: own_inv_def)
  have min: "min (length (items bs)) 1 = 1" by (simp add: assms(11))
  have idx: "idx_ok prof i' (unat n)" if "prod_reserve api (fq_ring fq) (of_nat (min (length (items bs)) 1)) 0
      (a_world s) = (n, i', v)" for n i' v
    using that [unfolded min] assms(12,13) by simp
  obtain n w' where f: "fq_fill api prof fq bs 1 (a_world s)
       = Ret (Ok n, bs\<lparr>items := take (length (items bs) - n) (items bs)\<rparr>, w')"
    "held w' = held (a_world s) + owned (drop (length (items bs) - n) (items bs))"
    using xsk_prod.fill_correct [OF prod w(1) assms(5) w(2), of 1 bs prof] idx by auto
  have "n = 1"
    using f(1) fq_fill_eq [of bs 1 api fq "a_world s" 1 i w1 prof] assms(11-13) by simp
  then have held: "fq_fill api prof fq bs 1 (a_world s) = Ret (Ok 1, bs\<lparr>items := []\<rparr>, w')"
    "held w' = add_mset (bm_addr b) (held (a_world s))"
    using f assms(11) by simp_all
  obtain k where k: "k < length (live_bufs queued s)" "live_bufs queued s ! k = b"
    using assms(7) by (auto simp: in_set_conv_nth)
  have b: "bm_data b = frame_slice area (bm_addr b)" "bm_addr b \<in> set (frame_addrs area)"
    using assms(2,7) own_inv_distinct(2) [OF assms(2,3)] by (auto simp: own_inv_def on_frame_def)
  then have "slice_addrs (bm_data b) \<noteq> {}"
    using assms(4) by (simp add: slice_addrs_def frame_slice_def)
  moreover have "slice_addrs (bm_data b) \<inter> slice_addrs (frame_slice other (bm_addr b)) = {}"
    using frame_slice_inside [OF assms(3) b(2)] frame_slice_inside [OF assms(8,9)] assms(10) unfolding b(1) by blast
  ultimately show ?thesis
    using held b(1) own_inv_kernel_disjoint [OF assms(2,3) k(1)] k(2) assms(11) by auto
qed

theorem foreign_fill_aliases_witness:
  "\<exists>w'. fq_fill ref_api Release ex_fq \<lparr>items = [frame_buf \<lparr>buf_num = 8, buf_len = 2048, ma_ptr = 2 ^ 20\<rparr> 4352 0 ()],
       capacity = 1\<rparr> 1 (a_world ex_app) = Ret (Ok 1, \<lparr>items = [], capacity = 1\<rparr>, w')
     \<and> k_held w' = add_mset 4352 (k_held (a_world ex_app))
     \<and> hd (live_bufs (\<lambda>q. q) ex_app) = frame_buf ex_area 4352 0 ()"
proof -
  let ?o = "\<lparr>buf_num = 8, buf_len = 2048, ma_ptr = 2 ^ 20\<rparr>"
  let ?bs = "\<lparr>items = [frame_buf ?o 4352 0 ()], capacity = 1\<rparr>"
  obtain i w1 where w1: "prod_reserve ref_api (fq_ring ex_fq) 1 0 (a_world ex_app) = (1, i, w1)"
    by (simp add: ref_api_simps ex_fq_def ex_app_def ex_rx_world_def mk_kring_def)
  have b: "hd (live_bufs (\<lambda>q. q) ex_app) = frame_buf ex_area 4352 0 ()"
    "frame_buf ex_area 4352 0 () \<in> set (live_bufs (\<lambda>q. q) ex_app)"
    by (simp_all add: live_bufs_def ex_app_def ex_bufs_def)
  have f: "256 < buf_len ex_area" "snd (fq_ring ex_fq) = Fill" "um_area (fq_umem ex_fq) = ex_area"
    "ma_wf ?o" "bm_addr (frame_buf ex_area 4352 0 ()) \<in> set (frame_addrs ?o)"
    "{unat (ma_ptr ex_area)..<unat (ma_ptr ex_area) + buf_num ex_area * buf_len ex_area}
       \<inter> {unat (ma_ptr ?o)..<unat (ma_ptr ?o) + buf_num ?o * buf_len ?o} = {}"
    "items ?bs = [frame_buf ?o (bm_addr (frame_buf ex_area 4352 0 ())) 0 ()]"
    by (simp_all add: ma_wf_def ex_area_def ex_fq_def ex_umem_def frame_addrs_def frame_addr_def upt_conv_Cons)
  from foreign_fill_aliases [OF xsk_link_ref ex_app_inv ex_area_wf f(1-3) b(2) f(4-7) w1 idx_ok_Release] b(1)
  show ?thesis by auto
qed

end
