(* ===== verification/Wire_Tap.thy ===== *)
theory Wire_Tap
  imports Externals
begin

text \<open>
  The order and the content of forwarded packets. The theories before count packets; here the
  descriptors are followed. \<open>tap\<close> puts a recorder between the crate and libbpf: it passes every call on
  and writes down, per ring, the descriptors the program consumed from an rx ring and those it handed
  to a tx ring. It is an instance of the interface again, so everything proved for any libbpf holds
  with the recorder in place, and the forwarders can be run on it.
\<close>

section \<open>The recorder\<close>

text \<open>
  \<open>wl_first\<close> is the first index of the window last opened on a ring, \<open>wl_slots\<close> what was written to
  the slots of a producer ring (zero at first), \<open>wl_in\<close> and \<open>wl_out\<close> the descriptors released from and
  submitted to a ring.
\<close>

record 'r wire_log =
  wl_first :: "'r \<Rightarrow> u32"
  wl_slots :: "'r \<Rightarrow> u32 \<Rightarrow> xdp_desc"
  wl_in :: "'r \<Rightarrow> xdp_desc list"
  wl_out :: "'r \<Rightarrow> xdp_desc list"

definition empty_log :: "'r wire_log" where
  "empty_log = \<lparr>wl_first = (\<lambda>_. 0),
     wl_slots = (\<lambda>_ _. \<lparr>desc_addr = 0, desc_len = 0, desc_options = 0\<rparr>),
     wl_in = (\<lambda>_. []), wl_out = (\<lambda>_. [])\<rparr>"

definition log_window :: "'r \<Rightarrow> u32 \<Rightarrow> 'r wire_log \<Rightarrow> 'r wire_log" where
  "log_window r j l = l\<lparr>wl_first := (wl_first l)(r := j)\<rparr>"

definition log_put :: "'r \<Rightarrow> u32 \<Rightarrow> (xdp_desc \<Rightarrow> xdp_desc) \<Rightarrow> 'r wire_log \<Rightarrow> 'r wire_log" where
  "log_put r i f l = l\<lparr>wl_slots := (wl_slots l)(r := (wl_slots l r)(i := f (wl_slots l r i)))\<rparr>"

definition log_release :: "'r \<Rightarrow> xdp_desc list \<Rightarrow> 'r wire_log \<Rightarrow> 'r wire_log" where
  "log_release r ds l = l\<lparr>wl_in := (wl_in l)(r := wl_in l r @ ds)\<rparr>"

definition log_submit :: "'r \<Rightarrow> nat \<Rightarrow> 'r wire_log \<Rightarrow> 'r wire_log" where
  "log_submit r n l = l\<lparr>wl_out := (wl_out l)(r := wl_out l r
     @ map (\<lambda>k. wl_slots l r (wl_first l r + of_nat k)) [0..<n])\<rparr>"

definition tap :: "('r, 'w) xsk_api \<Rightarrow> ('r, 'w \<times> 'r wire_log) xsk_api" where
  "tap api = \<lparr>
     new_ring = (\<lambda>(w, l). let (r, w) = new_ring api w in (r, (w, l))),
     umem_create = (\<lambda>p n f c cfg (w, l). let (e, u, w) = umem_create api p n f c cfg w in (e, u, (w, l))),
     umem_delete = (\<lambda>u (w, l). (umem_delete api u w, l)),
     socket_create = (\<lambda>ifn q u rx tx cfg (w, l).
       let (e, s, w) = socket_create api ifn q u rx tx cfg w in (e, s, (w, l))),
     socket_fd = (\<lambda>s (w, l). socket_fd api s w),
     socket_delete = (\<lambda>s (w, l). (socket_delete api s w, l)),
     cons_peek = (\<lambda>r nb i (w, l). let (n, j, w) = cons_peek api r nb i w in (n, j, (w, log_window r j l))),
     cons_release = (\<lambda>r n (w, l).
       (cons_release api r n w, log_release r (rx_entries api r (wl_first l r) (unat n) w) l)),
     cons_comp_addr = (\<lambda>r i (w, l). cons_comp_addr api r i w),
     cons_rx_desc = (\<lambda>r i (w, l). cons_rx_desc api r i w),
     prod_reserve = (\<lambda>r nb i (w, l).
       let (n, j, w) = prod_reserve api r nb i w in (n, j, (w, log_window r j l))),
     prod_put_fill = (\<lambda>r i a (w, l).
       (prod_put_fill api r i a w, log_put r i (\<lambda>d. d\<lparr>desc_addr := a\<rparr>) l)),
     prod_put_tx = (\<lambda>r i f (w, l). (prod_put_tx api r i f w, log_put r i f l)),
     prod_submit = (\<lambda>r n (w, l). (prod_submit api r n w, log_submit r (unat n) l)),
     prod_needs_wakeup = (\<lambda>r (w, l). prod_needs_wakeup api r w),
     XDP_FLAGS_UPDATE_IF_NOEXIST = XDP_FLAGS_UPDATE_IF_NOEXIST api,
     XDP_USE_NEED_WAKEUP = XDP_USE_NEED_WAKEUP api,
     XDP_ZEROCOPY = XDP_ZEROCOPY api,
     XDP_COPY = XDP_COPY api,
     XSK_UMEM_DEFAULT_FRAME_HEADROOM = XSK_UMEM_DEFAULT_FRAME_HEADROOM api\<rparr>"

definition tap_libc :: "'w libc_api \<Rightarrow> ('w \<times> 'r wire_log) libc_api" where
  "tap_libc libc = \<lparr>
     c_mmap = (\<lambda>a n prot fl fd off (w, l). let (p, w) = c_mmap libc a n prot fl fd off w in (p, (w, l))),
     c_munmap = (\<lambda>a n (w, l). let (e, w) = c_munmap libc a n w in (e, (w, l))),
     c_poll = (\<lambda>fd ev t (w, l). let (e, w) = c_poll libc fd ev t w in (e, (w, l))),
     c_sendto = (\<lambda>fd p n fl sa sl (w, l). let (e, w) = c_sendto libc fd p n fl sa sl w in (e, (w, l))),
     c_errno = (\<lambda>(w, l). c_errno libc w),
     MAP_PRIVATE = MAP_PRIVATE libc, MAP_ANONYMOUS = MAP_ANONYMOUS libc, MAP_HUGETLB = MAP_HUGETLB libc,
     MAP_FAILED = MAP_FAILED libc, PROT_READ = PROT_READ libc, PROT_WRITE = PROT_WRITE libc,
     MSG_DONTWAIT = MSG_DONTWAIT libc, POLLIN = POLLIN libc, ENOBUFS = ENOBUFS libc,
     EAGAIN = EAGAIN libc, EBUSY = EBUSY libc, ENETDOWN = ENETDOWN libc\<rparr>"

lemma tap_sel [simp]:
  "cons_peek (tap api) r nb i (w, l)
   = (case cons_peek api r nb i w of (n, j, w) \<Rightarrow> (n, j, (w, log_window r j l)))"
  "cons_release (tap api) r n (w, l)
   = (cons_release api r n w, log_release r (rx_entries api r (wl_first l r) (unat n) w) l)"
  "cons_comp_addr (tap api) r i (w, l) = cons_comp_addr api r i w"
  "cons_rx_desc (tap api) r i (w, l) = cons_rx_desc api r i w"
  "prod_reserve (tap api) r nb i (w, l)
   = (case prod_reserve api r nb i w of (n, j, w) \<Rightarrow> (n, j, (w, log_window r j l)))"
  "prod_put_fill (tap api) r i a (w, l)
   = (prod_put_fill api r i a w, log_put r i (\<lambda>d. d\<lparr>desc_addr := a\<rparr>) l)"
  "prod_put_tx (tap api) r i f (w, l) = (prod_put_tx api r i f w, log_put r i f l)"
  "prod_submit (tap api) r n (w, l) = (prod_submit api r n w, log_submit r (unat n) l)"
  "prod_needs_wakeup (tap api) r (w, l) = prod_needs_wakeup api r w"
  "new_ring (tap api) (w, l) = (case new_ring api w of (r, w) \<Rightarrow> (r, (w, l)))"
  "umem_create (tap api) p nn f' c ucfg (w, l)
   = (case umem_create api p nn f' c ucfg w of (e, u, w) \<Rightarrow> (e, u, (w, l)))"
  "socket_create (tap api) ifn q um rx tx scfg (w, l)
   = (case socket_create api ifn q um rx tx scfg w of (e, s, w) \<Rightarrow> (e, s, (w, l)))"
  by (simp_all add: tap_def Let_def)

lemma tap_libc_sel [simp]:
  "c_mmap (tap_libc libc) a n prot fl fd off (w, l)
   = (case c_mmap libc a n prot fl fd off w of (p, w) \<Rightarrow> (p, (w, l)))"
  "c_poll (tap_libc libc) fd ev t (w, l) = (case c_poll libc fd ev t w of (e, w) \<Rightarrow> (e, (w, l)))"
  "c_sendto (tap_libc libc) fd p n fl' sa sl (w, l)
   = (case c_sendto libc fd p n fl' sa sl w of (e, w) \<Rightarrow> (e, (w, l)))"
  "MAP_FAILED (tap_libc libc) = MAP_FAILED libc"
  by (simp_all add: tap_libc_def Let_def)

lemma tap_entries [simp]:
  "comp_entries (tap api) r i n (w, l) = comp_entries api r i n w"
  "rx_entries (tap api) r i n (w, l) = rx_entries api r i n w"
  by (simp_all add: comp_entries_def rx_entries_def)

section \<open>The recorder satisfies the laws\<close>

text \<open>Whatever libbpf and the kernel promise, they promise with the recorder in place.\<close>

abbreviation tap_view :: "('w \<Rightarrow> 'a) \<Rightarrow> 'w \<times> 'r wire_log \<Rightarrow> 'a" where
  "tap_view f \<equiv> \<lambda>w. f (fst w)"

lemma tap_cons:
  assumes "xsk_cons api ok held kind window"
  shows "xsk_cons (tap api) (tap_view ok) (tap_view held) kind (\<lambda>r. tap_view (window r))"
proof (unfold_locales, goal_cases)
  case (1 w r nb i n j w')
  then show ?case using xsk_cons.peek_ok [OF assms, of "fst w" r nb i n j]
    by (cases w) (auto split: prod.splits)
next
  case (2 w r nb i n j w')
  then show ?case using xsk_cons.peek_held [OF assms, of "fst w" r nb i n j]
    by (cases w) (auto split: prod.splits)
next
  case (3 w r nb i n j w')
  then show ?case using xsk_cons.peek_le [OF assms, of "fst w" r nb i n j]
    by (cases w) (auto split: prod.splits)
next
  case (4 w r nb i n j w')
  then show ?case using xsk_cons.peek_window [OF assms, of "fst w" r nb i n j]
    by (cases w) (auto split: prod.splits)
next
  case (5 w r nb i n j w' q)
  then show ?case using xsk_cons.peek_frame [OF assms, of "fst w" r nb i n j _ q]
    by (cases w) (auto split: prod.splits)
next
  case (6 w r i cnt k)
  then show ?case using xsk_cons.rx_len_fits [OF assms, of "fst w" r i cnt k]
    by (cases w) (auto split: prod.splits)
next
  case (7 w r i n)
  then show ?case using xsk_cons.release_ok [OF assms, of "fst w" r i n]
    by (cases w) (auto split: prod.splits)
next
  case (8 w r i n)
  then show ?case using xsk_cons.release_closes [OF assms, of "fst w" r i n]
    by (cases w) (auto split: prod.splits)
next
  case (9 w r i n q)
  then show ?case using xsk_cons.release_frame [OF assms, of "fst w" r i n q]
    by (cases w) (auto split: prod.splits)
next
  case (10 w r i n)
  then show ?case using xsk_cons.release_comp [OF assms, of "fst w" r i n]
    by (cases w) (auto split: prod.splits)
next
  case (11 w r i n)
  then show ?case using xsk_cons.release_rx [OF assms, of "fst w" r i n]
    by (cases w) (auto split: prod.splits)
qed

lemma tap_prod:
  assumes "xsk_prod api ok held kind window staged"
  shows "xsk_prod (tap api) (tap_view ok) (tap_view held) kind (\<lambda>r. tap_view (window r))
    (\<lambda>r i. tap_view (staged r i))"
proof (unfold_locales, goal_cases)
  case (1 w r nb i n j w')
  then show ?case using xsk_prod.reserve_ok [OF assms, of "fst w" r nb i n j]
    by (cases w) (auto split: prod.splits)
next
  case (2 w r nb i n j w')
  then show ?case using xsk_prod.reserve_held [OF assms, of "fst w" r nb i n j]
    by (cases w) (auto split: prod.splits)
next
  case (3 w r nb i n j w')
  then show ?case using xsk_prod.reserve_all_or_none [OF assms, of "fst w" r nb i n j]
    by (cases w) (auto split: prod.splits)
next
  case (4 w r nb i n j w')
  then show ?case using xsk_prod.reserve_window [OF assms, of "fst w" r nb i n j]
    by (cases w) (auto split: prod.splits)
next
  case (5 w r nb i n j w' q)
  then show ?case using xsk_prod.reserve_frame [OF assms, of "fst w" r nb i n j _ q]
    by (cases w) (auto split: prod.splits)
next
  case (6 w r i cnt k w' a)
  then show ?case using xsk_prod.put_fill_keeps [OF assms, of "fst w" r i cnt k _ a]
    by (cases w) (auto split: prod.splits)
next
  case (7 w r i cnt k m a)
  then show ?case using xsk_prod.put_fill_staged [OF assms, of "fst w" r i cnt k m a]
    by (cases w) (auto split: prod.splits)
next
  case (8 w r i cnt k w' f)
  then show ?case using xsk_prod.put_tx_keeps [OF assms, of "fst w" r i cnt k _ f]
    by (cases w) (auto split: prod.splits)
next
  case (9 w r i cnt k m f a)
  then show ?case using xsk_prod.put_tx_staged [OF assms, of "fst w" r i cnt k m f a]
    by (cases w) (auto split: prod.splits)
next
  case (10 w r i n)
  then show ?case using xsk_prod.submit_ok [OF assms, of "fst w" r i n]
    by (cases w) (auto split: prod.splits)
next
  case (11 w r i n)
  then show ?case using xsk_prod.submit_closes [OF assms, of "fst w" r i n]
    by (cases w) (auto split: prod.splits)
next
  case (12 w r i n q)
  then show ?case using xsk_prod.submit_frame [OF assms, of "fst w" r i n q]
    by (cases w) (auto split: prod.splits)
next
  case (13 w r i n)
  then show ?case using xsk_prod.submit_held [OF assms, of "fst w" r i n]
    by (cases w) (auto split: prod.splits)
qed

lemma tap_rings:
  assumes "xsk_rings api ok held kind window staged libc"
  shows "xsk_rings (tap api) (tap_view ok) (tap_view held) kind (\<lambda>r. tap_view (window r))
    (\<lambda>r i. tap_view (staged r i)) (tap_libc libc)"
proof (rule xsk_rings.intro)
  show "xsk_cons (tap api) (tap_view ok) (tap_view held) kind (\<lambda>r. tap_view (window r))"
    using assms by (intro tap_cons) (simp add: xsk_rings_def)
  show "xsk_prod (tap api) (tap_view ok) (tap_view held) kind (\<lambda>r. tap_view (window r))
      (\<lambda>r i. tap_view (staged r i))"
    using assms by (intro tap_prod) (simp add: xsk_rings_def)
  show "xsk_rings_axioms (tap_view ok) (tap_view held) (\<lambda>r. tap_view (window r)) (tap_libc libc)"
  proof (unfold_locales, goal_cases)
    case (1 w fd ev t res w')
    then show ?case using xsk_rings.poll_keeps [OF assms, of "fst w" fd ev t]
      by (cases w) (auto split: prod.splits)
  next
    case (2 w fd p n fl sa sl res w')
    then show ?case using xsk_rings.sendto_keeps [OF assms, of "fst w" fd p n fl sa sl]
      by (cases w) (auto split: prod.splits)
  qed
qed

lemma tap_os:
  assumes "os_mmap libc"
  shows "os_mmap (tap_libc libc)"
proof
  fix a n prot fl fd off w p w'
  assume "c_mmap (tap_libc libc) a n prot fl fd off w = (p, w')" and "p \<noteq> MAP_FAILED (tap_libc libc)"
  then show "unat p + unat n \<le> 2 ^ 64"
    using os_mmap.mmap_fits [OF assms, of a n prot fl fd off "fst w"]
    by (cases w) (auto split: prod.splits)
qed

end
