(* ===== verification/Forwarding.thy ===== *)
theory Forwarding
  imports Ownership
begin

text \<open>
  The example programs \<open>examples/l2fwd-1link.rs\<close>, \<open>l2fwd-2link.rs\<close>, \<open>l2fwd-2link-multicore.rs\<close>
  and \<open>rxdrop.rs\<close>: the bodies of their main loops. The loops are built from the same
  phases (service the completion queue, receive or wake, forward, fill), which the programs repeat
  literally; each phase is one definition here, over the index of the port it works on. A program
  with one link has lists of length one. The state keeps the memory of the area, which \<open>swap_macs\<close>
  changes.

  Each phase is a step of \<open>Ownership\<close>, so its invariant holds for these programs; the lemmas below
  add the bookkeeping of their counters.
\<close>

section \<open>State\<close>

record stats =
  cq_bufs :: usize
  fq_bufs :: usize
  rx_packets :: usize
  tx_packets :: usize

record 'r port =
  p_cq :: "'r umem_completion_queue"
  p_fq :: "'r umem_fill_queue"
  p_rx :: "'r socket_rx"
  p_tx :: "'r socket_tx"
  fq_deficit :: usize

record ('r, 'u, 'q, 'w) loop =
  lp_bufs :: "'u buf_mmap vec"
  lp_queues :: "'q list"
  lp_ports :: "'r port list"
  lp_stats :: "stats list"
  lp_mem :: memory
  lp_world :: 'w

section \<open>Swapping the MAC addresses\<close>

fun swap_macs :: "'u buf_mmap list \<Rightarrow> memory \<Rightarrow> memory outcome" where
  "swap_macs [] m = Ret m"
| "swap_macs (b # bs) m =
     (let data = bm_get_data_mut b in
      bnd (slice_range m data 0 12) (\<lambda>tmp1.
      bnd (slice_store m data 0 (drop 6 tmp1)) (\<lambda>m.
      bnd (slice_store m data 6 (take 6 tmp1)) (\<lambda>m.
        swap_macs bs m))))"

section \<open>The phases of the loops\<close>

definition service_phase :: "('r, 'w) xsk_api \<Rightarrow> profile \<Rightarrow> 'u \<Rightarrow> usize \<Rightarrow> nat
    \<Rightarrow> ('r, 'u, 'q, 'w) loop \<Rightarrow> ('r, 'u, 'q, 'w) loop outcome" where
  "service_phase api prof dflt batch pos s =
     bnd (cq_service api prof dflt (p_cq (lp_ports s ! pos)) (lp_bufs s) batch (lp_world s))
       (\<lambda>(r, bs, w). case r of
          Ok n \<Rightarrow>
            let st = lp_stats s ! pos in
            bnd (usize_add prof (cq_bufs st) n) (\<lambda>c.
              Ret (s\<lparr>lp_bufs := bs, lp_world := w, lp_stats := (lp_stats s)[pos := st\<lparr>cq_bufs := c\<rparr>]\<rparr>))
        | Err _ \<Rightarrow> Panic ExplicitPanic)"

text \<open>
  \<open>hook\<close> is what a program does with the queue when packets arrived: \<open>swap_macs\<close> over the whole
  queue in \<open>l2fwd-1link.rs\<close>, nothing in the others.
\<close>

definition recv_phase :: "('r, 'w) xsk_api \<Rightarrow> 'w libc_api \<Rightarrow> profile \<Rightarrow> ('u buf_mmap, 'q) deque_api
    \<Rightarrow> ('u buf_mmap list \<Rightarrow> memory \<Rightarrow> memory outcome) \<Rightarrow> usize \<Rightarrow> 'u \<Rightarrow> nat
    \<Rightarrow> ('r, 'u, 'q, 'w) loop \<Rightarrow> ('r, 'u, 'q, 'w) loop outcome" where
  "recv_phase api libc prof dq hook batch custom pos s =
     (let port = lp_ports s ! pos; st = lp_stats s ! pos in
      bnd (try_recv api prof dq (p_rx port) (lp_queues s ! pos) batch custom (lp_world s))
        (\<lambda>(r, q, w).
          let s = s\<lparr>lp_queues := (lp_queues s)[pos := q], lp_world := w\<rparr> in
          case r of
            Ok n \<Rightarrow>
              if 0 < n then
                bnd (usize_add prof (rx_packets st) n) (\<lambda>rx.
                bnd (hook (dq_iter dq q) (lp_mem s)) (\<lambda>m.
                bnd (usize_add prof (fq_deficit port) n) (\<lambda>d.
                  Ret (s\<lparr>lp_mem := m, lp_stats := (lp_stats s)[pos := st\<lparr>rx_packets := rx\<rparr>],
                         lp_ports := (lp_ports s)[pos := port\<lparr>fq_deficit := d\<rparr>]\<rparr>))))
              else if fq_needs_wakeup api (p_fq port) w
              then Ret (s\<lparr>lp_world := snd (rx_wake libc (p_rx port) w)\<rparr>)
              else Ret s
          | Err _ \<Rightarrow> Panic ExplicitPanic))"

definition forward :: "('r, 'w) xsk_api \<Rightarrow> 'w libc_api \<Rightarrow> profile \<Rightarrow> ('u buf_mmap, 'q) deque_api
    \<Rightarrow> 'r socket_tx \<Rightarrow> 'q \<Rightarrow> usize \<Rightarrow> 'w \<Rightarrow> ((usize, unit) result \<times> 'q \<times> 'w) outcome" where
  "forward api libc prof dq tx q batch_size w =
     (if dq_is_empty dq q then Ret (Ok 0, q, w)
      else bnd (try_send api libc prof dq tx q batch_size w) (\<lambda>(r, q, w).
        case r of Ok n \<Rightarrow> Ret (Ok n, q, w) | Err _ \<Rightarrow> Panic ExplicitPanic))"

definition forward_phase :: "('r, 'w) xsk_api \<Rightarrow> 'w libc_api \<Rightarrow> profile \<Rightarrow> ('u buf_mmap, 'q) deque_api
    \<Rightarrow> usize \<Rightarrow> nat \<Rightarrow> nat \<Rightarrow> ('r, 'u, 'q, 'w) loop \<Rightarrow> ('r, 'u, 'q, 'w) loop outcome" where
  "forward_phase api libc prof dq batch pos other s =
     bnd (forward api libc prof dq (p_tx (lp_ports s ! other)) (lp_queues s ! pos) batch (lp_world s))
       (\<lambda>(r, q, w).
         let s = s\<lparr>lp_queues := (lp_queues s)[pos := q], lp_world := w\<rparr>; st = lp_stats s ! other in
         case r of
           Ok n \<Rightarrow> bnd (usize_add prof (tx_packets st) n) (\<lambda>t.
             Ret (s\<lparr>lp_stats := (lp_stats s)[other := st\<lparr>tx_packets := t\<rparr>]\<rparr>))
         | Err _ \<Rightarrow> Ret s)"

definition fill_phase :: "('r, 'w) xsk_api \<Rightarrow> profile \<Rightarrow> usize \<Rightarrow> nat
    \<Rightarrow> ('r, 'u, 'q, 'w) loop \<Rightarrow> ('r, 'u, 'q, 'w) loop outcome" where
  "fill_phase api prof threshold pos s =
     (let port = lp_ports s ! pos; st = lp_stats s ! pos in
      if threshold \<le> fq_deficit port then
        bnd (fq_fill api prof (p_fq port) (lp_bufs s) (fq_deficit port) (lp_world s))
          (\<lambda>(r, bs, w). case r of
             Ok n \<Rightarrow>
               bnd (usize_add prof (fq_bufs st) n) (\<lambda>f.
               bnd (usize_sub prof (fq_deficit port) n) (\<lambda>d.
                 Ret (s\<lparr>lp_bufs := bs, lp_world := w,
                        lp_stats := (lp_stats s)[pos := st\<lparr>fq_bufs := f\<rparr>],
                        lp_ports := (lp_ports s)[pos := port\<lparr>fq_deficit := d\<rparr>]\<rparr>)))
           | Err _ \<Rightarrow> Panic ExplicitPanic)
      else Ret s)"

section \<open>The loop bodies\<close>

text \<open>\<open>l2fwd-1link.rs\<close>: one port; the deficit is filled as soon as it is positive.\<close>

definition l1_body :: "('r, 'w) xsk_api \<Rightarrow> 'w libc_api \<Rightarrow> profile \<Rightarrow> ('u buf_mmap, 'q) deque_api
    \<Rightarrow> 'u \<Rightarrow> usize \<Rightarrow> ('r, 'u, 'q, 'w) loop \<Rightarrow> ('r, 'u, 'q, 'w) loop outcome" where
  "l1_body api libc prof dq custom batch s =
     bnd (service_phase api prof custom batch 0 s) (\<lambda>s.
     bnd (recv_phase api libc prof dq swap_macs batch custom 0 s) (\<lambda>s.
     bnd (forward_phase api libc prof dq batch 0 0 s) (\<lambda>s.
       fill_phase api prof 1 0 s)))"

text \<open>
  \<open>l2fwd-2link.rs\<close> and \<open>l2fwd-2link-multicore.rs\<close>: two ports, the packets of one leave on the
  other, and the deficit is filled from \<open>FILL_THRESHOLD\<close> on.
\<close>

definition FILL_THRESHOLD :: usize where
  "FILL_THRESHOLD = 64"

definition SOCKET_BATCH_SIZE :: usize where
  "SOCKET_BATCH_SIZE = 64"

definition SERVICE_BATCH_SIZE :: usize where
  "SERVICE_BATCH_SIZE = 64"

definition l2_body :: "('r, 'w) xsk_api \<Rightarrow> 'w libc_api \<Rightarrow> profile \<Rightarrow> ('u buf_mmap, 'q) deque_api
    \<Rightarrow> 'u \<Rightarrow> nat \<times> ('r, 'u, 'q, 'w) loop \<Rightarrow> (nat \<times> ('r, 'u, 'q, 'w) loop) outcome" where
  "l2_body api libc prof dq bc = (\<lambda>(pos, s).
     let other = (pos + 1) mod 2 in
     bnd (service_phase api prof bc SERVICE_BATCH_SIZE pos s) (\<lambda>s.
     bnd (recv_phase api libc prof dq (\<lambda>_. Ret) SOCKET_BATCH_SIZE bc pos s) (\<lambda>s.
     bnd (forward_phase api libc prof dq SOCKET_BATCH_SIZE pos other s) (\<lambda>s.
     bnd (fill_phase api prof FILL_THRESHOLD pos s) (\<lambda>s.
       Ret ((pos + 1) mod 2, s))))))"

text \<open>\<open>rxdrop.rs\<close>: the received buffers go straight back to the vector.\<close>

definition drop_phase :: "('u buf_mmap, 'q) deque_api \<Rightarrow> nat \<Rightarrow> ('r, 'u, 'q, 'w) loop
    \<Rightarrow> ('r, 'u, 'q, 'w) loop" where
  "drop_phase dq pos s =
     (let (bs, q) = dq_drain dq (lp_queues s ! pos) in
      s\<lparr>lp_bufs := foldl vec_push (lp_bufs s) bs, lp_queues := (lp_queues s)[pos := q]\<rparr>)"

definition rxdrop_body :: "('r, 'w) xsk_api \<Rightarrow> 'w libc_api \<Rightarrow> profile \<Rightarrow> ('u buf_mmap, 'q) deque_api
    \<Rightarrow> 'u \<Rightarrow> ('r, 'u, 'q, 'w) loop \<Rightarrow> ('r, 'u, 'q, 'w) loop outcome" where
  "rxdrop_body api libc prof dq bc s =
     bnd (recv_phase api libc prof dq (\<lambda>_. Ret) SOCKET_BATCH_SIZE bc 0 s) (\<lambda>s.
       fill_phase api prof FILL_THRESHOLD 0 (drop_phase dq 0 s))"

section \<open>What \<open>swap_macs\<close> does\<close>

definition swap12 :: "u8 list \<Rightarrow> u8 list" where
  "swap12 xs = take 6 (drop 6 xs) @ take 6 xs @ drop 12 xs"

lemma length_swap12 [simp]: "12 \<le> length xs \<Longrightarrow> length (swap12 xs) = length xs"
  by (simp add: swap12_def)

lemma swap12_swap12 [simp]: "12 \<le> length xs \<Longrightarrow> swap12 (swap12 xs) = xs"
  by (simp add: swap12_def) (metis append_take_drop_id drop_drop numeral_plus_numeral add_num_simps)

abbreviation apart :: "'u buf_mmap list \<Rightarrow> bool" where
  "apart bs \<equiv> sorted_wrt (\<lambda>b c. slice_addrs (bm_data b) \<inter> slice_addrs (bm_data c) = {}) bs"

lemma slice_range_read:
  "b \<le> sl_len s \<Longrightarrow> slice_range m s 0 b = Ret (take b (slice_read m s))"
  by (simp add: slice_range_def slice_read_def take_map)

lemma swap_macs_one:
  assumes mp: "slice_mapped (bm_data b)" and l: "12 \<le> sl_len (bm_data b)"
  shows "\<exists>m'. swap_macs [b] m = Ret m' \<and> bm_get_data m' b = swap12 (bm_get_data m b)
     \<and> (\<forall>t. slice_mapped t \<longrightarrow> slice_addrs (bm_data b) \<inter> slice_addrs t = {} \<longrightarrow>
            slice_read m' t = slice_read m t)"
proof -
  let ?s = "bm_data b" and ?r = "slice_read m (bm_data b)"
  have rg: "slice_range m ?s 0 12 = Ret (take 12 ?r)" using l by (rule slice_range_read)
  obtain m1 where m1: "slice_store m ?s 0 (drop 6 (take 12 ?r)) = Ret m1"
    using l by (simp add: slice_store_def)
  obtain m2 where m2: "slice_store m1 ?s 6 (take 6 (take 12 ?r)) = Ret m2"
    using l by (simp add: slice_store_def)
  have r1: "slice_read m1 ?s = drop 6 (take 12 ?r) @ drop 6 ?r"
    using slice_store_read [OF m1 mp] l by simp
  have "slice_read m2 ?s = swap12 ?r"
    using slice_store_read [OF m2 mp] l unfolding r1
    by (simp add: swap12_def take_drop min_def)
  moreover have "slice_read m2 t = slice_read m t"
    if "slice_mapped t" "slice_addrs ?s \<inter> slice_addrs t = {}" for t
    using slice_store_disjoint [OF m2 mp that] slice_store_disjoint [OF m1 mp that] by simp
  ultimately show ?thesis
    using rg m1 m2 by (auto simp: bm_get_data_mut_def bm_get_data_def)
qed

lemma swap_macs_Cons: "swap_macs (b # bs) m = bnd (swap_macs [b] m) (swap_macs bs)"
  by (simp add: Let_def bnd_assoc)

lemma swap_macs_list:
  assumes "apart bs" and "\<forall>b \<in> set bs. slice_mapped (bm_data b) \<and> 12 \<le> sl_len (bm_data b)"
  shows "\<exists>m'. swap_macs bs m = Ret m'
     \<and> (\<forall>b \<in> set bs. bm_get_data m' b = swap12 (bm_get_data m b))
     \<and> (\<forall>t. slice_mapped t \<longrightarrow> (\<forall>b \<in> set bs. slice_addrs (bm_data b) \<inter> slice_addrs t = {}) \<longrightarrow>
            slice_read m' t = slice_read m t)"
  using assms
proof (induction bs arbitrary: m)
  case (Cons b bs)
  have b: "slice_mapped (bm_data b)" "12 \<le> sl_len (bm_data b)" using Cons.prems(2) by auto
  obtain m1 where m1: "swap_macs [b] m = Ret m1" "bm_get_data m1 b = swap12 (bm_get_data m b)"
    "\<And>t. slice_mapped t \<Longrightarrow> slice_addrs (bm_data b) \<inter> slice_addrs t = {} \<Longrightarrow>
         slice_read m1 t = slice_read m t"
    using swap_macs_one [OF b, of m] by auto
  obtain m2 where m2: "swap_macs bs m1 = Ret m2"
    "\<And>c. c \<in> set bs \<Longrightarrow> bm_get_data m2 c = swap12 (bm_get_data m1 c)"
    "\<And>t. slice_mapped t \<Longrightarrow> \<forall>c \<in> set bs. slice_addrs (bm_data c) \<inter> slice_addrs t = {} \<Longrightarrow>
         slice_read m2 t = slice_read m1 t"
    using Cons.IH [of m1] Cons.prems by fastforce
  have "bm_get_data m1 c = bm_get_data m c" if "c \<in> set bs" for c
    using m1(3) [of "bm_data c"] that Cons.prems by (simp add: bm_get_data_def)
  moreover have "bm_get_data m2 b = bm_get_data m1 b"
    using m2(3) [OF b(1)] Cons.prems(1) by (auto simp: bm_get_data_def Int_commute)
  ultimately have "\<forall>c \<in> set (b # bs). bm_get_data m2 c = swap12 (bm_get_data m c)"
    using m1(2) m2(2) by simp
  moreover have "swap_macs (b # bs) m = Ret m2"
    unfolding swap_macs_Cons [of b bs] m1(1) using m2(1) by simp
  ultimately show ?case using m1(3) m2(3) by (intro exI [of _ m2]) simp
qed simp

section \<open>The phases are steps\<close>

text \<open>The program of a loop state, in the terms of \<open>Ownership\<close>: one vector and its queues.\<close>

definition loop_app :: "('r, 'u, 'q, 'w) loop \<Rightarrow> ('u, 'q, 'w) app" where
  "loop_app s = \<lparr>a_vecs = [lp_bufs s], a_queues = lp_queues s, a_pool = bpv_new 0,
                 a_world = lp_world s\<rparr>"

definition loop_env :: "('r, 'u, 'q, 'w) loop \<Rightarrow> 'r env" where
  "loop_env s = \<lparr>env_cqs = map p_cq (lp_ports s), env_fqs = map p_fq (lp_ports s),
                 env_rxs = map p_rx (lp_ports s), env_txs = map p_tx (lp_ports s)\<rparr>"

text \<open>Each phase changes counters, and otherwise takes at most one step.\<close>

lemma map_port_update:
  "i < length ps \<Longrightarrow> f (ps ! i) = f p \<Longrightarrow> map f (ps[i := p]) = map f ps"
  by (metis list_update_id map_update nth_map)

lemma service_phase_step:
  assumes "service_phase api prof dflt n pos s = Ret s'" and "pos < length (lp_ports s)" and "n < 2 ^ 64"
  shows "app_step api libc prof dq dflt (loop_env s) (loop_app s) (loop_app s')
     \<and> loop_env s' = loop_env s"
proof -
  obtain r bs w where c: "cq_service api prof dflt (p_cq (lp_ports s ! pos)) (lp_bufs s) n (lp_world s)
      = Ret (r, bs, w)" and s': "lp_bufs s' = bs" "lp_world s' = w" "lp_queues s' = lp_queues s"
      "lp_ports s' = lp_ports s"
    using assms(1) by (auto simp: service_phase_def bnd_Ret_iff case_result_Ret_iff Let_def)
  have "app_step api libc prof dq dflt (loop_env s) (loop_app s)
      ((loop_app s)\<lparr>a_vecs := (a_vecs (loop_app s))[0 := bs], a_world := w\<rparr>)"
    by (rule service [where c = "p_cq (lp_ports s ! pos)" and n = n and r = r])
      (use c assms(2,3) in \<open>simp_all add: loop_app_def loop_env_def\<close>)
  then show ?thesis by (simp add: loop_app_def loop_env_def s')
qed

lemma forward_phase_step:
  assumes "forward_phase api libc prof dq n pos other s = Ret s'"
    and "pos < length (lp_queues s)" and "other < length (lp_ports s)"
  shows "(app_step api libc prof dq dflt (loop_env s))\<^sup>=\<^sup>= (loop_app s) (loop_app s')
     \<and> loop_env s' = loop_env s"
proof (cases "dq_is_empty dq (lp_queues s ! pos)")
  case True
  then have "lp_bufs s' = lp_bufs s" "lp_world s' = lp_world s" "lp_queues s' = lp_queues s"
    "lp_ports s' = lp_ports s"
    using assms(1)
    by (auto simp: forward_phase_def forward_def bnd_Ret_iff case_result_Ret_iff Let_def)
  then show ?thesis by (simp add: loop_app_def loop_env_def)
next
  case False
  then obtain r q w where c: "try_send api libc prof dq (p_tx (lp_ports s ! other)) (lp_queues s ! pos)
      n (lp_world s) = Ret (r, q, w)" and s': "lp_bufs s' = lp_bufs s" "lp_world s' = w"
      "lp_queues s' = (lp_queues s)[pos := q]" "lp_ports s' = lp_ports s"
    using assms(1)
    by (auto simp: forward_phase_def forward_def bnd_Ret_iff case_result_Ret_iff Let_def)
  have "app_step api libc prof dq dflt (loop_env s) (loop_app s)
      ((loop_app s)\<lparr>a_queues := (a_queues (loop_app s))[pos := q], a_world := w\<rparr>)"
    by (rule send [where t = "p_tx (lp_ports s ! other)" and n = n and r = r])
      (use c assms(2,3) in \<open>simp_all add: loop_app_def loop_env_def\<close>)
  then show ?thesis by (simp add: loop_app_def loop_env_def s')
qed

lemma recv_phase_steps:
  assumes "recv_phase api libc prof dq hook n custom pos s = Ret s'"
    and "pos < length (lp_ports s)" and "length (lp_queues s) = length (lp_ports s)"
  shows "(app_step api libc prof dq dflt (loop_env s))\<^sup>*\<^sup>* (loop_app s) (loop_app s')
     \<and> loop_env s' = loop_env s"
proof -
  let ?p = "lp_ports s ! pos"
  obtain r q w where c: "try_recv api prof dq (p_rx ?p) (lp_queues s ! pos) n custom (lp_world s)
      = Ret (r, q, w)" and s': "lp_bufs s' = lp_bufs s" "lp_queues s' = (lp_queues s)[pos := q]"
      "lp_world s' = w \<or> lp_world s' = snd (rx_wake libc (p_rx ?p) w)"
      "lp_ports s' = lp_ports s \<or> (\<exists>d. lp_ports s' = (lp_ports s)[pos := ?p\<lparr>fq_deficit := d\<rparr>])"
    using assms(1)
    by (fastforce simp: recv_phase_def bnd_Ret_iff case_result_Ret_iff Let_def split: if_split_asm)
  let ?t = "(loop_app s)\<lparr>a_queues := (a_queues (loop_app s))[pos := q], a_world := w\<rparr>"
  have "app_step api libc prof dq dflt (loop_env s) (loop_app s) ?t"
    by (rule recv [where x = "p_rx ?p" and n = n and r = r and user = custom])
      (use c assms(2,3) in \<open>simp_all add: loop_app_def loop_env_def\<close>)
  moreover have "app_step api libc prof dq dflt (loop_env s) ?t
      (?t\<lparr>a_world := snd (rx_wake libc (p_rx ?p) w)\<rparr>)"
    by (rule wake [where x = "p_rx ?p" and e = "fst (rx_wake libc (p_rx ?p) w)"])
      (use assms(2) in \<open>simp_all add: loop_env_def\<close>)
  moreover have "loop_app s' = ?t \<or> loop_app s' = ?t\<lparr>a_world := snd (rx_wake libc (p_rx ?p) w)\<rparr>"
    using s'(3) by (auto simp: loop_app_def s'(1,2))
  moreover have "loop_env s' = loop_env s"
    using s'(4) assms(2) by (auto simp: loop_env_def map_port_update)
  ultimately show ?thesis by (auto intro: converse_rtranclp_into_rtranclp)
qed

lemma fill_phase_step:
  assumes "fill_phase api prof threshold pos s = Ret s'" and "pos < length (lp_ports s)"
    and "fq_deficit (lp_ports s ! pos) < 2 ^ 64"
  shows "(app_step api libc prof dq dflt (loop_env s))\<^sup>*\<^sup>* (loop_app s) (loop_app s')
     \<and> loop_env s' = loop_env s"
proof (cases "threshold \<le> fq_deficit (lp_ports s ! pos)")
  case False
  then show ?thesis using assms(1) by (simp add: fill_phase_def Let_def)
next
  case True
  let ?p = "lp_ports s ! pos"
  from True obtain r bs w where c: "fq_fill api prof (p_fq ?p) (lp_bufs s) (fq_deficit ?p) (lp_world s)
      = Ret (r, bs, w)" and s': "lp_bufs s' = bs" "lp_world s' = w" "lp_queues s' = lp_queues s"
      "\<exists>d. lp_ports s' = (lp_ports s)[pos := ?p\<lparr>fq_deficit := d\<rparr>]"
    using assms(1) by (fastforce simp: fill_phase_def bnd_Ret_iff case_result_Ret_iff Let_def)
  have "app_step api libc prof dq dflt (loop_env s) (loop_app s)
      ((loop_app s)\<lparr>a_vecs := (a_vecs (loop_app s))[0 := bs], a_world := w\<rparr>)"
    by (rule fill [where f = "p_fq ?p" and n = "fq_deficit ?p" and r = r])
      (use c assms(2,3) in \<open>simp_all add: loop_app_def loop_env_def\<close>)
  moreover have "loop_env s' = loop_env s"
    using s'(4) assms(2) by (auto simp: loop_env_def map_port_update)
  ultimately show ?thesis by (auto simp: loop_app_def s'(1-3))
qed

lemma drop_phase_step:
  assumes "pos < length (lp_queues s)"
  shows "app_step api libc prof dq dflt (loop_env s) (loop_app s) (loop_app (drop_phase dq pos s))
     \<and> loop_env (drop_phase dq pos s) = loop_env s"
proof -
  obtain bs q where d: "dq_drain dq (lp_queues s ! pos) = (bs, q)" by fastforce
  have "app_step api libc prof dq dflt (loop_env s) (loop_app s)
      ((loop_app s)\<lparr>a_vecs := (a_vecs (loop_app s))[0 := foldl vec_push (a_vecs (loop_app s) ! 0) bs],
         a_queues := (a_queues (loop_app s))[pos := q]\<rparr>)"
    by (rule drain [where bs = bs]) (use assms d in \<open>simp_all add: loop_app_def\<close>)
  then show ?thesis by (simp add: drop_phase_def d loop_app_def loop_env_def)
qed

section \<open>The counters\<close>

text \<open>
  \<open>deficit_ok\<close>: what was received has been filled again or is still owed. \<open>flow_ok\<close>: what was
  received on a port has been sent on its peer or is pending.
\<close>

definition deficit_ok :: "('r, 'u, 'q, 'w) loop \<Rightarrow> bool" where
  "deficit_ok s \<longleftrightarrow> length (lp_stats s) = length (lp_ports s) \<and>
     length (lp_queues s) = length (lp_ports s) \<and>
     (\<forall>pos < length (lp_ports s). rx_packets (lp_stats s ! pos) < 2 ^ 64 \<and>
        rx_packets (lp_stats s ! pos) = fq_bufs (lp_stats s ! pos) + fq_deficit (lp_ports s ! pos))"

definition flow_ok :: "('q \<Rightarrow> 'u buf_mmap list) \<Rightarrow> (nat \<Rightarrow> nat) \<Rightarrow> ('r, 'u, 'q, 'w) loop \<Rightarrow> bool" where
  "flow_ok queued out s \<longleftrightarrow> (\<forall>pos < length (lp_ports s). out pos < length (lp_ports s) \<and>
     rx_packets (lp_stats s ! pos)
     = tx_packets (lp_stats s ! out pos) + length (queued (lp_queues s ! pos)))"

lemma deficit_lt: "deficit_ok s \<Longrightarrow> pos < length (lp_ports s) \<Longrightarrow> fq_deficit (lp_ports s ! pos) < 2 ^ 64"
  unfolding deficit_ok_def by fastforce

lemma service_phase_effect:
  assumes "service_phase api prof dflt n pos s = Ret s'"
  shows "\<exists>c. lp_ports s' = lp_ports s \<and> lp_queues s' = lp_queues s \<and> lp_mem s' = lp_mem s
     \<and> lp_stats s' = (lp_stats s)[pos := (lp_stats s ! pos)\<lparr>cq_bufs := c\<rparr>]"
  using assms by (fastforce simp: service_phase_def bnd_Ret_iff case_result_Ret_iff Let_def)

lemma service_phase_counts:
  assumes "service_phase api prof dflt n pos s = Ret s'" and "pos < length (lp_ports s)"
  shows "(deficit_ok s \<longrightarrow> deficit_ok s') \<and> (flow_ok queued out s \<and> deficit_ok s \<longrightarrow> flow_ok queued out s')"
  using service_phase_effect [OF assms(1)] assms(2)
  by (auto simp: deficit_ok_def flow_ok_def nth_list_update)

context xsk_link
begin

lemma recv_phase_effect:
  assumes rc: "recv_phase api libc prof dq hook n custom pos s = Ret s'"
    and inv: "own_inv ok held window dq_ok queued area (loop_app s)"
    and env: "env_ok kind area (loop_env s)" and ma: "256 \<le> buf_len area"
    and def: "deficit_ok s" and pos: "pos < length (lp_ports s)"
    and room: "rx_packets (lp_stats s ! pos) + PENDING_LEN < 2 ^ 64"
  shows "\<exists>k q. lp_queues s' = (lp_queues s)[pos := q]
     \<and> length (queued q) = length (queued (lp_queues s ! pos)) + k
     \<and> lp_stats s' = (lp_stats s)[pos := (lp_stats s ! pos)
          \<lparr>rx_packets := rx_packets (lp_stats s ! pos) + k\<rparr>]
     \<and> lp_ports s' = (lp_ports s)[pos := (lp_ports s ! pos)
          \<lparr>fq_deficit := fq_deficit (lp_ports s ! pos) + k\<rparr>]
     \<and> rx_packets (lp_stats s ! pos) + k < 2 ^ 64"
proof -
  let ?p = "lp_ports s ! pos" and ?st = "lp_stats s ! pos"
  have x: "kind (rx_ring (p_rx ?p)) = Rx" "um_area (so_umem (rx_socket (p_rx ?p))) = area"
    using env pos by (auto simp: env_ok_def loop_env_def list_all_iff)
  have wf: "dq_ok (lp_queues s ! pos)" "ok (lp_world s)" "\<forall>p. snd (window p (lp_world s)) = 0"
    using inv def pos by (auto simp: own_inv_def loop_app_def deficit_ok_def)
  have le: "fq_deficit ?p \<le> rx_packets ?st" using def pos by (auto simp: deficit_ok_def)
  from rc obtain r q w where c: "try_recv api prof dq (p_rx ?p) (lp_queues s ! pos) n custom (lp_world s)
      = Ret (r, q, w)" by (auto simp: recv_phase_def bnd_Ret_iff Let_def)
  obtain ds where ds': "r = Ok (length ds)" "dq_ok q"
      "queued q = queued (lp_queues s ! pos) @ map (rx_buf area custom) ds"
    using recv_ret [OF c wf(2) x(1) wf(3) _ wf(1)] ma unfolding x(2) by blast
  then have ds: "r = Ok (length ds)" "dq_ok q"
      "length (queued q) = length (queued (lp_queues s ! pos)) + length ds" by simp_all
  have k: "length ds \<le> PENDING_LEN" using queued_bound [OF ds(2)] ds(3) by simp
  have add: "usize_add prof (rx_packets ?st) (length ds) = Ret (rx_packets ?st + length ds)"
    "usize_add prof (fq_deficit ?p) (length ds) = Ret (fq_deficit ?p + length ds)"
    using k room le by (auto intro!: usize_add_ok)
  show ?thesis
  proof (cases "ds = []")
    case True
    then have "lp_queues s' = (lp_queues s)[pos := q]" "lp_stats s' = lp_stats s" "lp_ports s' = lp_ports s"
      using rc c ds(1) by (auto simp: recv_phase_def Let_def split: if_split_asm)
    then show ?thesis using True ds(3) room by (intro exI [of _ 0] exI [of _ q]) simp
  next
    case False
    then show ?thesis
      using rc c ds add k room
      by (intro exI [of _ "length ds"] exI [of _ q])
        (auto simp: recv_phase_def bnd_Ret_iff Let_def)
  qed
qed

lemma recv_phase_counts:
  assumes rc: "recv_phase api libc prof dq hook n custom pos s = Ret s'"
    and inv: "own_inv ok held window dq_ok queued area (loop_app s)"
    and env: "env_ok kind area (loop_env s)" and ma: "256 \<le> buf_len area"
    and def: "deficit_ok s" and pos: "pos < length (lp_ports s)"
    and room: "rx_packets (lp_stats s ! pos) + PENDING_LEN < 2 ^ 64"
  shows "deficit_ok s' \<and> (flow_ok queued out s \<longrightarrow> flow_ok queued out s')"
  using recv_phase_effect [OF assms] def pos
  by (auto simp: deficit_ok_def flow_ok_def nth_list_update)

lemma forward_phase_counts:
  assumes fw: "forward_phase api libc prof dq n pos (out pos) s = Ret s'"
    and inv: "own_inv ok held window dq_ok queued area (loop_app s)"
    and env: "env_ok kind area (loop_env s)"
    and def: "deficit_ok s" and pos: "pos < length (lp_ports s)"
    and inj: "inj_on out {..<length (lp_ports s)}" and flow: "flow_ok queued out s"
  shows "deficit_ok s' \<and> flow_ok queued out s' \<and> lp_ports s' = lp_ports s
     \<and> (\<forall>i. rx_packets (lp_stats s' ! i) = rx_packets (lp_stats s ! i))"
proof -
  let ?t = "p_tx (lp_ports s ! out pos)" and ?q = "lp_queues s ! pos" and ?st = "lp_stats s ! out pos"
  have o: "out pos < length (lp_ports s)"
    and fl: "rx_packets (lp_stats s ! pos) = tx_packets ?st + length (queued ?q)"
    and lt: "rx_packets (lp_stats s ! pos) < 2 ^ 64"
    using flow def pos by (auto simp: flow_ok_def deficit_ok_def)
  have t: "kind (tx_ring ?t) = Tx" using env o by (auto simp: env_ok_def loop_env_def list_all_iff)
  have wf: "dq_ok ?q" "ok (lp_world s)" "\<forall>p. snd (window p (lp_world s)) = 0"
    using inv def pos by (auto simp: own_inv_def loop_app_def deficit_ok_def)
  have "\<exists>k q w. forward api libc prof dq ?t ?q n (lp_world s) = Ret (Ok k, q, w)
      \<and> k \<le> length (queued ?q) \<and> queued q = drop k (queued ?q)"
  proof (cases "dq_is_empty dq ?q")
    case True
    then show ?thesis by (simp add: forward_def)
  next
    case False
    with fw obtain r q w where c: "try_send api libc prof dq ?t ?q n (lp_world s) = Ret (r, q, w)"
      by (auto simp: forward_phase_def forward_def bnd_Ret_iff Let_def)
    obtain k where "r = Ok k" "k \<le> length (queued ?q)" "queued q = drop k (queued ?q)"
      using send_ret [OF c wf(2) t wf(3) wf(1)] by blast
    with c False show ?thesis by (simp add: forward_def)
  qed
  then obtain k q w where k: "forward api libc prof dq ?t ?q n (lp_world s) = Ret (Ok k, q, w)"
      "k \<le> length (queued ?q)" "queued q = drop k (queued ?q)" by blast
  have "usize_add prof (tx_packets ?st) k = Ret (tx_packets ?st + k)"
    using k(2) fl lt by (intro usize_add_ok) simp
  with fw k(1) have s': "lp_ports s' = lp_ports s" "lp_queues s' = (lp_queues s)[pos := q]"
    "lp_stats s' = (lp_stats s)[out pos := ?st\<lparr>tx_packets := tx_packets ?st + k\<rparr>]"
    by (auto simp: forward_phase_def Let_def)
  have rx: "rx_packets (lp_stats s' ! i) = rx_packets (lp_stats s ! i)" for i
    using o def by (simp add: s' nth_list_update deficit_ok_def)
  have "flow_ok queued out s'"
    unfolding flow_ok_def
  proof (intro allI impI)
    fix p assume p: "p < length (lp_ports s')"
    have ne: "out p = out pos \<longleftrightarrow> p = pos"
      using inj p pos by (auto simp: s' inj_on_def)
    from flow p have "out p < length (lp_ports s)"
      "rx_packets (lp_stats s ! p) = tx_packets (lp_stats s ! out p) + length (queued (lp_queues s ! p))"
      by (auto simp: flow_ok_def s')
    then show "out p < length (lp_ports s') \<and> rx_packets (lp_stats s' ! p)
        = tx_packets (lp_stats s' ! out p) + length (queued (lp_queues s' ! p))"
      using ne k(2,3) def pos o p unfolding rx by (auto simp: s' nth_list_update deficit_ok_def)
  qed
  moreover have "deficit_ok s'"
    using def o by (auto simp: deficit_ok_def s' nth_list_update)
  ultimately show ?thesis using rx s'(1) by blast
qed

lemma fill_phase_counts:
  assumes fl: "fill_phase api prof threshold pos s = Ret s'"
    and inv: "own_inv ok held window dq_ok queued area (loop_app s)"
    and env: "env_ok kind area (loop_env s)"
    and def: "deficit_ok s" and pos: "pos < length (lp_ports s)"
  shows "deficit_ok s' \<and> (flow_ok queued out s \<longrightarrow> flow_ok queued out s')
     \<and> (fq_deficit (lp_ports s' ! pos) \<le> fq_deficit (lp_ports s ! pos))"
proof (cases "threshold \<le> fq_deficit (lp_ports s ! pos)")
  case False
  then show ?thesis using fl def by (simp add: fill_phase_def Let_def)
next
  case True
  let ?p = "lp_ports s ! pos" and ?st = "lp_stats s ! pos"
  have f: "kind (fq_ring (p_fq ?p)) = Fill"
    using env pos by (auto simp: env_ok_def loop_env_def list_all_iff)
  have wf: "ok (lp_world s)" "\<forall>p. snd (window p (lp_world s)) = 0"
    using inv by (auto simp: own_inv_def loop_app_def)
  from True fl obtain r bs w where c: "fq_fill api prof (p_fq ?p) (lp_bufs s) (fq_deficit ?p) (lp_world s)
      = Ret (r, bs, w)" by (auto simp: fill_phase_def bnd_Ret_iff Let_def)
  obtain k where k: "r = Ok k" "k \<le> fq_deficit ?p"
    using fill_ret [OF c wf(1) f wf(2) deficit_lt [OF def pos]] by auto
  have d: "rx_packets ?st = fq_bufs ?st + fq_deficit ?p" "rx_packets ?st < 2 ^ 64"
    using def pos by (auto simp: deficit_ok_def)
  then have "usize_add prof (fq_bufs ?st) k = Ret (fq_bufs ?st + k)"
    "usize_sub prof (fq_deficit ?p) k = Ret (fq_deficit ?p - k)"
    using k(2) by (auto intro!: usize_add_ok usize_sub_ok)
  with True fl c k(1) have "lp_queues s' = lp_queues s"
    "lp_stats s' = (lp_stats s)[pos := ?st\<lparr>fq_bufs := fq_bufs ?st + k\<rparr>]"
    "lp_ports s' = (lp_ports s)[pos := ?p\<lparr>fq_deficit := fq_deficit ?p - k\<rparr>]"
    by (auto simp: fill_phase_def Let_def)
  then show ?thesis
    using def pos k(2) d by (auto simp: deficit_ok_def flow_ok_def nth_list_update)
qed

end

section \<open>The bodies\<close>

text \<open>The state of a loop between two iterations.\<close>

definition loop_inv :: "('w \<Rightarrow> bool) \<Rightarrow> ('w \<Rightarrow> u64 multiset) \<Rightarrow> ('r \<Rightarrow> ring_kind)
    \<Rightarrow> ('r \<Rightarrow> 'w \<Rightarrow> u32 \<times> nat) \<Rightarrow> ('q \<Rightarrow> bool) \<Rightarrow> ('q \<Rightarrow> 'u buf_mmap list) \<Rightarrow> mmap_area
    \<Rightarrow> ('r, 'u, 'q, 'w) loop \<Rightarrow> bool" where
  "loop_inv ok held kind window dq_ok queued area s \<longleftrightarrow>
     own_inv ok held window dq_ok queued area (loop_app s) \<and> env_ok kind area (loop_env s)
     \<and> deficit_ok s"

context xsk_link
begin

lemma loop_inv_steps:
  assumes "loop_inv ok held kind window dq_ok queued area s" and "256 \<le> buf_len area"
    and "(app_step api libc prof dq dflt (loop_env s))\<^sup>*\<^sup>* (loop_app s) (loop_app s')"
    and "loop_env s' = loop_env s" and "deficit_ok s'"
  shows "loop_inv ok held kind window dq_ok queued area s'"
  using assms steps_preserve [OF assms(3)] by (simp add: loop_inv_def)

lemma service_phase_inv:
  assumes "service_phase api prof dflt n pos s = Ret s'"
    and inv: "loop_inv ok held kind window dq_ok queued area s" and ma: "256 \<le> buf_len area"
    and pos: "pos < length (lp_ports s)" and n: "n < 2 ^ 64"
  shows "loop_inv ok held kind window dq_ok queued area s'
     \<and> (flow_ok queued out s \<longrightarrow> flow_ok queued out s')
     \<and> length (lp_ports s') = length (lp_ports s)
     \<and> rx_packets (lp_stats s' ! pos) = rx_packets (lp_stats s ! pos)"
proof -
  have def: "deficit_ok s" using inv by (simp add: loop_inv_def)
  note cnt = service_phase_counts [OF assms(1) pos, of queued out]
  note st = service_phase_step [OF assms(1) pos n, of libc dq]
  have "loop_inv ok held kind window dq_ok queued area s'"
    using st cnt def by (intro loop_inv_steps [OF inv ma, where dflt = dflt and prof = prof]) auto
  moreover have "length (lp_ports s') = length (lp_ports s)
      \<and> rx_packets (lp_stats s' ! pos) = rx_packets (lp_stats s ! pos)"
    using service_phase_effect [OF assms(1)] pos def by (auto simp: deficit_ok_def)
  ultimately show ?thesis using cnt def by blast
qed

lemma recv_phase_inv:
  assumes "recv_phase api libc prof dq hook n custom pos s = Ret s'"
    and inv: "loop_inv ok held kind window dq_ok queued area s" and ma: "256 \<le> buf_len area"
    and pos: "pos < length (lp_ports s)"
    and room: "rx_packets (lp_stats s ! pos) + PENDING_LEN < 2 ^ 64"
  shows "loop_inv ok held kind window dq_ok queued area s'
     \<and> (flow_ok queued out s \<longrightarrow> flow_ok queued out s')
     \<and> length (lp_ports s') = length (lp_ports s)"
proof -
  have i: "own_inv ok held window dq_ok queued area (loop_app s)" "env_ok kind area (loop_env s)"
    "deficit_ok s" using inv by (simp_all add: loop_inv_def)
  note cnt = recv_phase_counts [OF assms(1) i(1,2) ma i(3) pos room, of out]
  have "length (lp_queues s) = length (lp_ports s)" using i(3) by (simp add: deficit_ok_def)
  note st = recv_phase_steps [OF assms(1) pos this, of custom]
  have "loop_inv ok held kind window dq_ok queued area s'"
    using st cnt by (intro loop_inv_steps [OF inv ma, where dflt = custom and prof = prof]) auto
  moreover have "length (lp_ports s') = length (lp_ports s)"
    using recv_phase_effect [OF assms(1) i(1,2) ma i(3) pos room] by auto
  ultimately show ?thesis using cnt by blast
qed

lemma forward_phase_inv:
  assumes "forward_phase api libc prof dq n pos (out pos) s = Ret s'"
    and inv: "loop_inv ok held kind window dq_ok queued area s" and ma: "256 \<le> buf_len area"
    and pos: "pos < length (lp_ports s)" and inj: "inj_on out {..<length (lp_ports s)}"
    and flow: "flow_ok queued out s"
  shows "loop_inv ok held kind window dq_ok queued area s' \<and> flow_ok queued out s'
     \<and> length (lp_ports s') = length (lp_ports s)"
proof -
  have i: "own_inv ok held window dq_ok queued area (loop_app s)" "env_ok kind area (loop_env s)"
    "deficit_ok s" using inv by (simp_all add: loop_inv_def)
  note cnt = forward_phase_counts [OF assms(1) i pos inj flow]
  have l: "pos < length (lp_queues s)" "out pos < length (lp_ports s)"
    using i(3) flow pos by (auto simp: deficit_ok_def flow_ok_def)
  note st = forward_phase_step [OF assms(1) l]
  have "(app_step api libc prof dq undefined (loop_env s))\<^sup>*\<^sup>* (loop_app s) (loop_app s')"
    "loop_env s' = loop_env s"
    using st [of undefined] by auto
  then show ?thesis using cnt loop_inv_steps [OF inv ma] by auto
qed

lemma fill_phase_inv:
  assumes "fill_phase api prof threshold pos s = Ret s'"
    and inv: "loop_inv ok held kind window dq_ok queued area s" and ma: "256 \<le> buf_len area"
    and pos: "pos < length (lp_ports s)"
  shows "loop_inv ok held kind window dq_ok queued area s'
     \<and> (flow_ok queued out s \<longrightarrow> flow_ok queued out s')"
proof -
  have i: "own_inv ok held window dq_ok queued area (loop_app s)" "env_ok kind area (loop_env s)"
    "deficit_ok s" using inv by (simp_all add: loop_inv_def)
  note cnt = fill_phase_counts [OF assms(1) i pos, of out]
  note st = fill_phase_step [OF assms(1) pos deficit_lt [OF i(3) pos]]
  have "loop_inv ok held kind window dq_ok queued area s'"
    using st [of libc dq undefined] cnt by (intro loop_inv_steps [OF inv ma]) auto
  then show ?thesis using cnt by blast
qed

lemma drop_phase_inv:
  assumes inv: "loop_inv ok held kind window dq_ok queued area s" and ma: "256 \<le> buf_len area"
    and pos: "pos < length (lp_ports s)"
  shows "loop_inv ok held kind window dq_ok queued area (drop_phase dq pos s)
     \<and> lp_ports (drop_phase dq pos s) = lp_ports s"
proof -
  have d: "deficit_ok s" using inv by (simp add: loop_inv_def)
  then have l: "pos < length (lp_queues s)" using pos by (simp add: deficit_ok_def)
  have c: "lp_ports (drop_phase dq pos s) = lp_ports s" "deficit_ok (drop_phase dq pos s)"
    using d by (auto simp: drop_phase_def deficit_ok_def case_prod_beta Let_def)
  have "loop_inv ok held kind window dq_ok queued area (drop_phase dq pos s)"
    using drop_phase_step [OF l, of api libc Release dq undefined] c(2)
    by (intro loop_inv_steps [OF inv ma]) auto
  then show ?thesis using c(1) by simp
qed

end

lemma fill_phase_ports:
  "fill_phase api prof threshold pos s = Ret s' \<Longrightarrow>
   length (lp_ports s') = length (lp_ports s) \<and> lp_queues s' = lp_queues s"
  by (auto simp: fill_phase_def Let_def bnd_Ret_iff case_result_Ret_iff split: if_split_asm)

text \<open>Buffers in one queue never overlap, so the hook of \<open>l2fwd-1link\<close> works on all of them.\<close>

lemma queue_apart:
  assumes inv: "own_inv ok held window dq_ok queued area s" and wf: "ma_wf area"
    and j: "j < length (a_queues s)"
  shows "apart (queued (a_queues s ! j))"
    and "b \<in> set (queued (a_queues s ! j)) \<Longrightarrow>
         slice_mapped (bm_data b) \<and> sl_len (bm_data b) = buf_len area - 256"
proof -
  let ?q = "queued (a_queues s ! j)" and ?l = "live_bufs queued s"
  have "a_queues s = take j (a_queues s) @ a_queues s ! j # drop (Suc j) (a_queues s)"
    using j by (rule id_take_nth_drop)
  from arg_cong [OF this, of "\<lambda>qs. concat (map queued qs)"]
  have split: "concat (map queued (a_queues s))
      = concat (map queued (take j (a_queues s))) @ ?q @ concat (map queued (drop (Suc j) (a_queues s)))"
    by simp
  have dist: "distinct (map bm_addr ?q)"
    using own_inv_distinct(1) [OF inv wf] unfolding live_bufs_def split by simp
  have sub: "set ?q \<subseteq> set ?l" unfolding live_bufs_def split by auto
  have fr: "bm_data b = frame_slice area (bm_addr b) \<and> bm_addr b \<in> set (frame_addrs area)"
    if "b \<in> set ?q" for b
    using that sub inv own_inv_distinct(2) [OF inv wf] by (auto simp: own_inv_def on_frame_def)
  show "b \<in> set ?q \<Longrightarrow> slice_mapped (bm_data b) \<and> sl_len (bm_data b) = buf_len area - 256"
    using fr [of b] frame_slice_mapped_addr [OF wf] by (auto simp: frame_slice_def)
  have "slice_addrs (bm_data (?q ! m)) \<inter> slice_addrs (bm_data (?q ! n)) = {}"
    if "m < n" "n < length ?q" for m n
  proof -
    have "bm_addr (?q ! m) \<noteq> bm_addr (?q ! n)"
      using dist that by (auto simp: distinct_conv_nth)
    then show ?thesis
      using fr [of "?q ! m"] fr [of "?q ! n"] that frame_slice_disjoint [OF wf] by simp
  qed
  then show "apart ?q" by (simp add: sorted_wrt_iff_nth_less)
qed

lemma swap_macs_queue:
  assumes "own_inv ok held window dq_ok queued area s" and "ma_wf area"
    and "j < length (a_queues s)" and "268 \<le> buf_len area"
  shows "\<exists>m'. swap_macs (queued (a_queues s ! j)) m = Ret m'
     \<and> (\<forall>b \<in> set (queued (a_queues s ! j)). bm_get_data m' b = swap12 (bm_get_data m b))"
proof -
  have "\<forall>b \<in> set (queued (a_queues s ! j)). slice_mapped (bm_data b) \<and> 12 \<le> sl_len (bm_data b)"
    using queue_apart(2) [OF assms(1-3)] assms(4) by auto
  from swap_macs_list [OF queue_apart(1) [OF assms(1-3)] this, of m] show ?thesis by blast
qed

context xsk_link
begin

text \<open>The state after \<open>try_recv\<close>, before the hook runs.\<close>

lemma recv_mid_inv:
  assumes inv: "loop_inv ok held kind window dq_ok queued area s" and ma: "256 \<le> buf_len area"
    and pos: "pos < length (lp_ports s)"
    and c: "try_recv api prof dq (p_rx (lp_ports s ! pos)) (lp_queues s ! pos) n custom (lp_world s)
            = Ret (r, q, w)"
  shows "own_inv ok held window dq_ok queued area
     ((loop_app s)\<lparr>a_queues := (lp_queues s)[pos := q], a_world := w\<rparr>)"
    and "\<exists>ds. r = Ok (length ds) \<and> dq_ok q
          \<and> queued q = queued (lp_queues s ! pos) @ map (rx_buf area custom) ds"
proof -
  have i: "own_inv ok held window dq_ok queued area (loop_app s)" "env_ok kind area (loop_env s)"
    and l: "pos < length (lp_queues s)"
    using inv pos by (auto simp: loop_inv_def deficit_ok_def)
  have "app_step api libc prof dq custom (loop_env s) (loop_app s)
      ((loop_app s)\<lparr>a_queues := (a_queues (loop_app s))[pos := q], a_world := w\<rparr>)"
    by (rule recv [where x = "p_rx (lp_ports s ! pos)" and n = n and r = r and user = custom])
      (use c pos l in \<open>simp_all add: loop_app_def loop_env_def\<close>)
  from step_preserves [OF i ma this] show "own_inv ok held window dq_ok queued area
     ((loop_app s)\<lparr>a_queues := (lp_queues s)[pos := q], a_world := w\<rparr>)"
    by (simp add: loop_app_def)
  have x: "kind (rx_ring (p_rx (lp_ports s ! pos))) = Rx"
    "um_area (so_umem (rx_socket (p_rx (lp_ports s ! pos)))) = area"
    using i(2) pos by (auto simp: env_ok_def loop_env_def list_all_iff)
  have wf: "dq_ok (lp_queues s ! pos)" "ok (lp_world s)" "\<forall>p. snd (window p (lp_world s)) = 0"
    using i(1) l by (auto simp: own_inv_def loop_app_def)
  show "\<exists>ds. r = Ok (length ds) \<and> dq_ok q
      \<and> queued q = queued (lp_queues s ! pos) @ map (rx_buf area custom) ds"
    using recv_ret [OF c wf(2) x(1) wf(3) _ wf(1)] ma unfolding x(2) by blast
qed

lemma recv_phase_returns:
  assumes inv: "loop_inv ok held kind window dq_ok queued area s" and wf: "ma_wf area"
    and len: "268 \<le> buf_len area" and pos: "pos < length (lp_ports s)"
    and hook: "hook = swap_macs \<or> hook = (\<lambda>_. Ret)"
  shows "\<exists>s'. recv_phase api libc Release dq hook n custom pos s = Ret s'"
proof -
  let ?p = "lp_ports s ! pos"
  have ma: "256 \<le> buf_len area" using len by simp
  have i: "own_inv ok held window dq_ok queued area (loop_app s)" "env_ok kind area (loop_env s)"
    and l: "pos < length (lp_queues s)"
    using inv pos by (auto simp: loop_inv_def deficit_ok_def)
  have x: "kind (rx_ring (p_rx ?p)) = Rx" "um_area (so_umem (rx_socket (p_rx ?p))) = area"
    using i(2) pos by (auto simp: env_ok_def loop_env_def list_all_iff)
  have st: "dq_ok (lp_queues s ! pos)" "ok (lp_world s)" "\<forall>p. snd (window p (lp_world s)) = 0"
    using i(1) l by (auto simp: own_inv_def loop_app_def)
  obtain k q w where c: "try_recv api Release dq (p_rx ?p) (lp_queues s ! pos) n custom (lp_world s)
      = Ret (Ok k, q, w)"
    using recv_returns [OF st(2) x(1) st(3) _ st(1)] ma unfolding x(2) by blast
  note mid = recv_mid_inv [OF inv ma pos c]
  have "\<exists>m. swap_macs (queued q) (lp_mem s) = Ret m"
    using swap_macs_queue [OF mid(1) wf _ len, of pos "lp_mem s"] l by auto
  then have "\<exists>m. hook (dq_iter dq q) (lp_mem s) = Ret m"
    using hook iter_deque mid(2) by auto
  then obtain m where "hook (dq_iter dq q) (lp_mem s) = Ret m" ..
  then show ?thesis
    using c by (simp add: recv_phase_def Let_def usize_add_Release)
qed

lemma service_phase_returns:
  assumes inv: "loop_inv ok held kind window dq_ok queued area s" and ma: "256 \<le> buf_len area"
    and pos: "pos < length (lp_ports s)" and n: "n < 2 ^ 64"
  shows "\<exists>s'. service_phase api Release dflt n pos s = Ret s'"
proof -
  let ?c = "p_cq (lp_ports s ! pos)"
  have i: "own_inv ok held window dq_ok queued area (loop_app s)" "env_ok kind area (loop_env s)"
    using inv by (simp_all add: loop_inv_def)
  have x: "kind (cq_ring ?c) = Completion" "um_area (cq_umem ?c) = area"
    using i(2) pos by (auto simp: env_ok_def loop_env_def list_all_iff)
  have st: "vec_wf (lp_bufs s)" "ok (lp_world s)" "\<forall>p. snd (window p (lp_world s)) = 0"
    using i(1) by (auto simp: own_inv_def loop_app_def)
  obtain k v w where "cq_service api Release dflt ?c (lp_bufs s) n (lp_world s) = Ret (Ok k, v, w)"
    using service_returns [OF st(2) x(1) st(3) _ st(1) n] ma unfolding x(2) by blast
  then show ?thesis by (simp add: service_phase_def Let_def usize_add_Release)
qed

lemma fill_phase_returns:
  assumes inv: "loop_inv ok held kind window dq_ok queued area s" and pos: "pos < length (lp_ports s)"
  shows "\<exists>s'. fill_phase api Release threshold pos s = Ret s'"
proof -
  let ?f = "p_fq (lp_ports s ! pos)"
  have i: "own_inv ok held window dq_ok queued area (loop_app s)" "env_ok kind area (loop_env s)"
    "deficit_ok s" using inv by (simp_all add: loop_inv_def)
  have x: "kind (fq_ring ?f) = Fill"
    using i(2) pos by (auto simp: env_ok_def loop_env_def list_all_iff)
  have st: "ok (lp_world s)" "\<forall>p. snd (window p (lp_world s)) = 0"
    using i(1) by (auto simp: own_inv_def loop_app_def)
  obtain k v w where "fq_fill api Release ?f (lp_bufs s) (fq_deficit (lp_ports s ! pos)) (lp_world s)
      = Ret (Ok k, v, w)"
    using fill_returns [OF st(1) x st(2) deficit_lt [OF i(3) pos]] by blast
  then show ?thesis by (simp add: fill_phase_def Let_def usize_add_Release usize_sub_Release)
qed

lemma forward_phase_returns:
  assumes inv: "loop_inv ok held kind window dq_ok queued area s"
    and pos: "pos < length (lp_ports s)" and other: "other < length (lp_ports s)"
  shows "(\<exists>s'. forward_phase api libc Release dq n pos other s = Ret s')
     \<or> forward_phase api libc Release dq n pos other s = Panic ExplicitPanic
       \<and> (\<exists>v. wakeup_if_required api libc (p_tx (lp_ports s ! other)) v = Panic ExplicitPanic)"
proof (cases "dq_is_empty dq (lp_queues s ! pos)")
  case True
  then show ?thesis by (simp add: forward_phase_def forward_def usize_add_def Let_def)
next
  case False
  let ?t = "p_tx (lp_ports s ! other)"
  have i: "own_inv ok held window dq_ok queued area (loop_app s)" "env_ok kind area (loop_env s)"
    and l: "pos < length (lp_queues s)"
    using inv pos by (auto simp: loop_inv_def deficit_ok_def)
  have x: "kind (tx_ring ?t) = Tx"
    using i(2) other by (auto simp: env_ok_def loop_env_def list_all_iff)
  have st: "dq_ok (lp_queues s ! pos)" "ok (lp_world s)" "\<forall>p. snd (window p (lp_world s)) = 0"
    using i(1) l by (auto simp: own_inv_def loop_app_def)
  from send_returns [OF st(2) x st(3) st(1), of n] False show ?thesis
    by (auto simp: forward_phase_def forward_def Let_def usize_add_Release)
qed

end

section \<open>What the loops guarantee\<close>

text \<open>
  The example state of the witnesses: one received packet is pending, its frame is owed to the
  fill queue, and two frames are on their way back from the kernel.
\<close>

definition ex_port :: "kring_id port" where
  "ex_port = \<lparr>p_cq = ex_cq, p_fq = ex_fq, p_rx = ex_rx, p_tx = ex_tx, fq_deficit = 1\<rparr>"

definition ex_loop :: "kworld \<Rightarrow> (kring_id, unit, unit buf_mmap list, kworld) loop" where
  "ex_loop w = \<lparr>lp_bufs = ex_bufs [4352, 6400, 8448, 12544, 14592], lp_queues = [ex_queue [10496]],
     lp_ports = [ex_port], lp_stats = [\<lparr>cq_bufs = 0, fq_bufs = 0, rx_packets = 1, tx_packets = 0\<rparr>],
     lp_mem = (\<lambda>_. 0), lp_world = w\<rparr>"

abbreviation list_loop_inv :: "(kring_id, unit, unit buf_mmap list, kworld) loop \<Rightarrow> bool" where
  "list_loop_inv \<equiv>
     loop_inv k_ok k_held snd k_window (\<lambda>q. length q \<le> PENDING_LEN) (\<lambda>q. q) ex_area"

lemma ex_loop_inv:
  assumes "k_ok w" and "\<And>r. snd (k_window r w) = 0" and "k_held w = {#256, 2304#}"
  shows "list_loop_inv (ex_loop w)" and "flow_ok (\<lambda>q. q) (\<lambda>p. p) (ex_loop w)"
proof -
  have "own_inv k_ok k_held k_window (\<lambda>q. length q \<le> PENDING_LEN) (\<lambda>q. q) ex_area (loop_app (ex_loop w))"
    using assms
    by (simp add: own_inv_def loop_app_def ex_loop_def live_bufs_def ex_bufs_def ex_queue_def bpv_new_def
        vec_wf_def PENDING_LEN_def ex_area_frames del: split_paired_All)
  moreover have "env_ok snd ex_area (loop_env (ex_loop w))"
    by (simp add: env_ok_def loop_env_def ex_loop_def ex_port_def ex_cq_def ex_fq_def ex_rx_def
        ex_tx_def ex_umem_def ex_socket_def)
  ultimately show "list_loop_inv (ex_loop w)"
    by (simp add: loop_inv_def deficit_ok_def ex_loop_def ex_port_def)
  show "flow_ok (\<lambda>q. q) (\<lambda>p. p) (ex_loop w)"
    by (simp add: flow_ok_def ex_loop_def ex_queue_def)
qed

text \<open>A kernel whose wake-up never fails.\<close>

definition quiet_libc :: "kworld libc_api" where
  "quiet_libc = ref_libc\<lparr>c_sendto := (\<lambda>fd p n fl sa sl w. (0, w))\<rparr>"

lemma quiet_wakeup: "wakeup_if_required api quiet_libc t w \<noteq> Panic p"
  by (simp add: wakeup_if_required_def quiet_libc_def)

lemma xsk_link_quiet: "xsk_link ref_api k_ok k_held snd k_window k_staged quiet_libc
  (list_deque :: (unit buf_mmap, unit buf_mmap list) deque_api) (\<lambda>q. length q \<le> PENDING_LEN) (\<lambda>q. q)"
proof (rule xsk_link.intro [OF _ listq.array_deque_axioms])
  show "xsk_rings ref_api k_ok k_held snd k_window k_staged quiet_libc"
    by (rule xsk_rings.intro [OF refk.xsk_cons_axioms refk.xsk_prod_axioms])
      (unfold_locales; simp add: quiet_libc_def ref_libc_def)
qed

interpretation quietlink: xsk_link ref_api k_ok k_held snd k_window k_staged quiet_libc
  "list_deque :: (unit buf_mmap, unit buf_mmap list) deque_api" "\<lambda>q. length q \<le> PENDING_LEN" "\<lambda>q. q"
  by (rule xsk_link_quiet)

text \<open>The four phases in a row, as both forwarding programs have them.\<close>

abbreviation phases :: "('r, 'w) xsk_api \<Rightarrow> 'w libc_api \<Rightarrow> profile \<Rightarrow> ('u buf_mmap, 'q) deque_api \<Rightarrow> 'u
    \<Rightarrow> ('u buf_mmap list \<Rightarrow> memory \<Rightarrow> memory outcome) \<Rightarrow> usize \<Rightarrow> usize \<Rightarrow> usize \<Rightarrow> nat \<Rightarrow> nat
    \<Rightarrow> ('r, 'u, 'q, 'w) loop \<Rightarrow> ('r, 'u, 'q, 'w) loop outcome" where
  "phases api libc prof dq custom hook n1 n2 threshold pos other s \<equiv>
     bnd (service_phase api prof custom n1 pos s) (\<lambda>s.
     bnd (recv_phase api libc prof dq hook n2 custom pos s) (\<lambda>s.
     bnd (forward_phase api libc prof dq n2 pos other s) (\<lambda>s.
       fill_phase api prof threshold pos s)))"

lemma l1_body_phases:
  "l1_body api libc prof dq custom n s = phases api libc prof dq custom swap_macs n n 1 0 0 s"
  by (simp add: l1_body_def)

lemma l2_body_phases:
  "l2_body api libc prof dq bc (pos, s) =
   bnd (phases api libc prof dq bc (\<lambda>_. Ret) SERVICE_BATCH_SIZE SOCKET_BATCH_SIZE FILL_THRESHOLD pos
          ((pos + 1) mod 2) s) (\<lambda>s. Ret ((pos + 1) mod 2, s))"
  by (simp add: l2_body_def Let_def bnd_assoc)

context xsk_link
begin

lemma phases_outcome:
  assumes inv: "loop_inv ok held kind window dq_ok queued area s" and flow: "flow_ok queued out s"
    and wf: "ma_wf area" and len: "268 \<le> buf_len area" and pos: "pos < length (lp_ports s)"
    and inj: "inj_on out {..<length (lp_ports s)}"
    and room: "rx_packets (lp_stats s ! pos) + PENDING_LEN < 2 ^ 64" and n: "n1 < 2 ^ 64"
    and hook: "hook = swap_macs \<or> hook = (\<lambda>_. Ret)"
  shows "(\<exists>s'. phases api libc Release dq custom hook n1 n2 threshold pos (out pos) s = Ret s')
     \<or> phases api libc Release dq custom hook n1 n2 threshold pos (out pos) s = Panic ExplicitPanic
       \<and> (\<exists>t v. wakeup_if_required api libc t v = Panic ExplicitPanic)"
proof -
  have ma: "256 \<le> buf_len area" using len by simp
  obtain s1 where s1: "service_phase api Release custom n1 pos s = Ret s1"
    using service_phase_returns [OF inv ma pos n] by blast
  have i1: "loop_inv ok held kind window dq_ok queued area s1" "flow_ok queued out s1"
    "pos < length (lp_ports s1)" "rx_packets (lp_stats s1 ! pos) + PENDING_LEN < 2 ^ 64"
    "length (lp_ports s1) = length (lp_ports s)"
    using service_phase_inv [OF s1 inv ma pos n, of out] flow pos room by auto
  obtain s2 where s2: "recv_phase api libc Release dq hook n2 custom pos s1 = Ret s2"
    using recv_phase_returns [OF i1(1) wf len i1(3) hook] by blast
  have i2: "loop_inv ok held kind window dq_ok queued area s2" "flow_ok queued out s2"
    "pos < length (lp_ports s2)" "inj_on out {..<length (lp_ports s2)}"
    using recv_phase_inv [OF s2 i1(1) ma i1(3,4), of out] i1(2,3,5) inj by auto
  have o: "out pos < length (lp_ports s2)" using i2(2,3) by (simp add: flow_ok_def)
  show ?thesis
  proof (cases "\<exists>s3. forward_phase api libc Release dq n2 pos (out pos) s2 = Ret s3")
    case True
    then obtain s3 where s3: "forward_phase api libc Release dq n2 pos (out pos) s2 = Ret s3" ..
    have "loop_inv ok held kind window dq_ok queued area s3" "pos < length (lp_ports s3)"
      using forward_phase_inv [where out = out, OF s3 i2(1) ma i2(3,4,2)] i2(3) by auto
    from fill_phase_returns [OF this, of threshold] show ?thesis using s1 s2 s3 by auto
  next
    case False
    then show ?thesis using forward_phase_returns [OF i2(1,3) o, of n2] s1 s2 by auto
  qed
qed

lemma phases_inv:
  assumes inv: "loop_inv ok held kind window dq_ok queued area s" and flow: "flow_ok queued out s"
    and ma: "256 \<le> buf_len area" and pos: "pos < length (lp_ports s)"
    and inj: "inj_on out {..<length (lp_ports s)}"
    and room: "rx_packets (lp_stats s ! pos) + PENDING_LEN < 2 ^ 64" and n: "n1 < 2 ^ 64"
    and body: "phases api libc prof dq custom hook n1 n2 threshold pos (out pos) s = Ret s'"
  shows "loop_inv ok held kind window dq_ok queued area s' \<and> flow_ok queued out s'
     \<and> length (lp_ports s') = length (lp_ports s)"
proof -
  from body obtain s1 s2 s3 where s: "service_phase api prof custom n1 pos s = Ret s1"
    "recv_phase api libc prof dq hook n2 custom pos s1 = Ret s2"
    "forward_phase api libc prof dq n2 pos (out pos) s2 = Ret s3"
    "fill_phase api prof threshold pos s3 = Ret s'"
    by (auto simp: bnd_Ret_iff)
  have i1: "loop_inv ok held kind window dq_ok queued area s1" "flow_ok queued out s1"
    "pos < length (lp_ports s1)" "rx_packets (lp_stats s1 ! pos) + PENDING_LEN < 2 ^ 64"
    "length (lp_ports s1) = length (lp_ports s)"
    using service_phase_inv [OF s(1) inv ma pos n, of out] flow pos room by auto
  have i2: "loop_inv ok held kind window dq_ok queued area s2" "flow_ok queued out s2"
    "pos < length (lp_ports s2)" "length (lp_ports s2) = length (lp_ports s)"
    using recv_phase_inv [OF s(2) i1(1) ma i1(3,4), of out] i1(2,3,5) by auto
  then have i3: "loop_inv ok held kind window dq_ok queued area s3" "flow_ok queued out s3"
    "pos < length (lp_ports s3)" "length (lp_ports s3) = length (lp_ports s)"
    using forward_phase_inv [where out = out, OF s(3) i2(1) ma i2(3) _ i2(2)] inj by auto
  show ?thesis
    using fill_phase_inv [OF s(4) i3(1) ma i3(3), of out] i3 fill_phase_ports [OF s(4)] by simp
qed

end

text \<open>
  The loop of \<open>l2fwd-1link\<close> keeps its books: every iteration that completes keeps
  every frame in one place, never lets \<open>fq_deficit\<close> underflow, and maintains
  \<open>rx_packets = fq_bufs + fq_deficit\<close> and \<open>rx_packets = tx_packets + pending\<close>.
\<close>

lemma l1_body_keeps:
  assumes "xsk_link api ok held kind window staged libc dq dq_ok queued" and "256 \<le> buf_len area"
    and "loop_inv ok held kind window dq_ok queued area s" and "flow_ok queued (\<lambda>p. p) s"
    and "length (lp_ports s) = 1" and "rx_packets (lp_stats s ! 0) + PENDING_LEN < 2 ^ 64"
    and "batch < 2 ^ 64" and "l1_body api libc prof dq custom batch s = Ret s'"
  shows "loop_inv ok held kind window dq_ok queued area s'
     \<and> rx_packets (lp_stats s' ! 0) = fq_bufs (lp_stats s' ! 0) + fq_deficit (lp_ports s' ! 0)
     \<and> rx_packets (lp_stats s' ! 0) = tx_packets (lp_stats s' ! 0) + length (queued (lp_queues s' ! 0))"
  using xsk_link.phases_inv [where out = "\<lambda>p. p", OF assms(1,3,4,2) _ _ assms(6,7)
      assms(8) [unfolded l1_body_phases]] assms(5)
  by (auto simp: loop_inv_def deficit_ok_def flow_ok_def)

lemma l1_body_keeps_witness:
  "\<exists>s'. l1_body ref_api quiet_libc Release list_deque () 2 (ex_loop (ex_rx_world 0)) = Ret s'
     \<and> rx_packets (lp_stats s' ! 0) = fq_bufs (lp_stats s' ! 0) + fq_deficit (lp_ports s' ! 0)
     \<and> rx_packets (lp_stats s' ! 0) = tx_packets (lp_stats s' ! 0) + length (lp_queues s' ! 0)"
proof -
  note i = ex_loop_inv [OF ex_rx_world_facts(1) ex_rx_world_facts(2) ex_rx_world_facts(3), of 0]
  have c: "length (lp_ports (ex_loop (ex_rx_world 0))) = 1" "268 \<le> buf_len ex_area" "256 \<le> buf_len ex_area"
    "rx_packets (lp_stats (ex_loop (ex_rx_world 0)) ! 0) + PENDING_LEN < 2 ^ 64"
    "0 < length (lp_ports (ex_loop (ex_rx_world 0)))"
    "inj_on (\<lambda>p. p) {..<length (lp_ports (ex_loop (ex_rx_world 0)))}"
    by (simp_all add: ex_loop_def ex_area_def PENDING_LEN_def)
  have b: "(2 :: nat) < 2 ^ 64" by simp
  obtain s' where s': "l1_body ref_api quiet_libc Release list_deque () 2 (ex_loop (ex_rx_world 0)) = Ret s'"
    using quietlink.phases_outcome [where out = "\<lambda>p. p", OF i ex_area_wf c(2,5,6,4) b disjI1 [OF refl]]
      quiet_wakeup
    unfolding l1_body_phases by blast
  from l1_body_keeps [OF xsk_link_quiet c(3) i c(1,4) b s'] s' show ?thesis by blast
qed

text \<open>
  In a release build an iteration of \<open>l2fwd-1link\<close> cannot fail on frames of at least
  268 bytes, except in the wake-up of the kernel: its slice accesses stay in bounds, its counters
  do not underflow and its \<open>panic!\<close> branches are unreachable.
\<close>

lemma l1_body_returns:
  assumes "xsk_link api ok held kind window staged libc dq dq_ok queued"
    and "loop_inv ok held kind window dq_ok queued area s" and "flow_ok queued (\<lambda>p. p) s"
    and "ma_wf area" and "268 \<le> buf_len area" and "length (lp_ports s) = 1"
    and "rx_packets (lp_stats s ! 0) + PENDING_LEN < 2 ^ 64" and "batch < 2 ^ 64"
  shows "(\<exists>s'. l1_body api libc Release dq custom batch s = Ret s')
     \<or> l1_body api libc Release dq custom batch s = Panic ExplicitPanic
       \<and> (\<exists>t v. wakeup_if_required api libc t v = Panic ExplicitPanic)"
  unfolding l1_body_phases
  using xsk_link.phases_outcome [where out = "\<lambda>p. p", OF assms(1-5) _ _ assms(7,8)] assms(6) by simp

lemma l1_body_returns_witness:
  "\<exists>s'. l1_body ref_api quiet_libc Release list_deque () 2 (ex_loop (ex_rx_world 5)) = Ret s'"
proof -
  note i = ex_loop_inv [OF ex_rx_world_facts(1) ex_rx_world_facts(2) ex_rx_world_facts(3), of 5]
  have "length (lp_ports (ex_loop (ex_rx_world 5))) = 1" "268 \<le> buf_len ex_area"
    "rx_packets (lp_stats (ex_loop (ex_rx_world 5)) ! 0) + PENDING_LEN < 2 ^ 64" "(2 :: nat) < 2 ^ 64"
    by (simp_all add: ex_loop_def ex_area_def PENDING_LEN_def)
  from l1_body_returns [OF xsk_link_quiet i ex_area_wf this(2,1,3,4)] quiet_wakeup
  show ?thesis by blast
qed

text \<open>
  Property C22. \<open>swap_macs\<close> on a queue of buffers that do not overlap and hold at least 12 bytes
  returns, and exchanges bytes 0 to 5 with bytes 6 to 11 of every packet; everything else in
  memory, the rest of the packets included, stays as it was.
\<close>

theorem swap_macs_correct:
  assumes "apart bs" and "\<forall>b \<in> set bs. slice_mapped (bm_data b) \<and> 12 \<le> sl_len (bm_data b)"
  shows "\<exists>m'. swap_macs bs m = Ret m'
     \<and> (\<forall>b \<in> set bs. bm_get_data m' b = take 6 (drop 6 (bm_get_data m b)) @ take 6 (bm_get_data m b)
                                          @ drop 12 (bm_get_data m b))
     \<and> (\<forall>t. slice_mapped t \<longrightarrow> (\<forall>b \<in> set bs. slice_addrs (bm_data b) \<inter> slice_addrs t = {}) \<longrightarrow>
            slice_read m' t = slice_read m t)"
  using swap_macs_list [OF assms, of m] by (simp add: swap12_def)

theorem swap_macs_correct_witness:
  "\<exists>m'. swap_macs [frame_buf ex_area 256 60 (), frame_buf ex_area 2304 60 ()] (\<lambda>a. ucast a) = Ret m'
     \<and> bm_get_data m' (frame_buf ex_area 256 60 ()) ! 0 = 6"
proof -
  let ?b = "frame_buf ex_area 256 60 ()" and ?c = "frame_buf ex_area 2304 60 ()"
  have d: "slice_addrs (frame_slice ex_area 256) \<inter> slice_addrs (frame_slice ex_area 2304) = {}"
    by (rule frame_slice_disjoint [OF ex_area_wf]) (simp_all add: ex_area_frames)
  have m: "slice_mapped (frame_slice ex_area 256)" "slice_mapped (frame_slice ex_area 2304)"
    by (rule frame_slice_mapped_addr [OF ex_area_wf]; simp add: ex_area_frames)+
  have l: "sl_len (frame_slice ex_area a) = 1792" for a by (simp add: frame_slice_def ex_area_def)
  have "\<exists>m'. swap_macs [?b, ?c] (\<lambda>a. ucast a) = Ret m'
     \<and> bm_get_data m' ?b = take 6 (drop 6 (bm_get_data (\<lambda>a. ucast a) ?b))
         @ take 6 (bm_get_data (\<lambda>a. ucast a) ?b) @ drop 12 (bm_get_data (\<lambda>a. ucast a) ?b)"
    using swap_macs_correct [of "[?b, ?c]" "\<lambda>a. ucast a"] d m l by auto
  then obtain m' where m': "swap_macs [?b, ?c] (\<lambda>a. ucast a) = Ret m'"
    "bm_get_data m' ?b = take 6 (drop 6 (bm_get_data (\<lambda>a. ucast a) ?b))
         @ take 6 (bm_get_data (\<lambda>a. ucast a) ?b) @ drop 12 (bm_get_data (\<lambda>a. ucast a) ?b)"
    by blast
  have "bm_get_data (\<lambda>a. ucast a) ?b ! 6 = 6"
    by (simp add: bm_get_data_def slice_read_def l del: upt_rec_numeral)
      (simp add: frame_slice_def ptr_offset_def ex_area_def)
  then have "bm_get_data m' ?b ! 0 = 6" unfolding m'(2) by (simp add: bm_get_data_def l nth_append)
  with m'(1) show ?thesis by blast
qed

text \<open>
  Property C26. \<open>l2fwd-1link\<close> calls \<open>swap_macs\<close> on the whole pending queue whenever packets arrive, so
  packets that are still waiting to be sent are swapped again: a receive that finds packets
  changes the MAC addresses of every packet that was already pending, and a packet that waits
  through one such receive leaves with its addresses as they came.
\<close>

theorem l1_recv_reswaps:
  assumes "xsk_link api ok held kind window staged libc dq dq_ok queued"
    and "loop_inv ok held kind window dq_ok queued area s" and "ma_wf area" and "268 \<le> buf_len area"
    and "pos < length (lp_ports s)"
    and "try_recv api prof dq (p_rx (lp_ports s ! pos)) (lp_queues s ! pos) n custom (lp_world s)
         = Ret (Ok k, q, w)" and "0 < k"
    and "recv_phase api libc prof dq swap_macs n custom pos s = Ret s'"
  shows "(\<forall>b \<in> set (queued (lp_queues s ! pos)). b \<in> set (queued (lp_queues s' ! pos))
            \<and> bm_get_data (lp_mem s') b = swap12 (bm_get_data (lp_mem s) b))
       \<and> (\<forall>m0. \<forall>b \<in> set (queued (lp_queues s ! pos)).
            bm_get_data (lp_mem s) b = swap12 (bm_get_data m0 b)
            \<longrightarrow> bm_get_data (lp_mem s') b = bm_get_data m0 b)"
proof -
  have ma: "256 \<le> buf_len area" using assms(4) by simp
  have l: "pos < length (lp_queues s)" using assms(2,5) by (auto simp: loop_inv_def deficit_ok_def)
  note mid = xsk_link.recv_mid_inv [OF assms(1,2) ma assms(5,6)]
  obtain m where m: "swap_macs (queued q) (lp_mem s) = Ret m"
    "\<forall>b \<in> set (queued q). bm_get_data m b = swap12 (bm_get_data (lp_mem s) b)"
    using swap_macs_queue [OF mid(1) assms(3) _ assms(4), of pos "lp_mem s"] l by auto
  have q: "dq_ok q" "set (queued (lp_queues s ! pos)) \<subseteq> set (queued q)" using mid(2) by auto
  have it: "dq_iter dq q = queued q"
    using array_deque.iter_deque [OF xsk_link.axioms(2) [OF assms(1)] q(1)] .
  have "lp_mem s' = m" "lp_queues s' = (lp_queues s)[pos := q]"
    using assms(6-8) m(1) by (auto simp: recv_phase_def Let_def bnd_Ret_iff it)
  moreover have "12 \<le> length (bm_get_data m0 b)" if "b \<in> set (queued (lp_queues s ! pos))" for m0 b
    using queue_apart(2) [of ok held window dq_ok queued area "loop_app s" pos b] that assms(2,3,4) l
    by (simp add: bm_get_data_def loop_inv_def loop_app_def)
  ultimately show ?thesis using m(2) q(2) l by auto
qed

theorem l1_recv_reswaps_witness:
  "\<exists>s'. recv_phase ref_api ref_libc Release list_deque swap_macs 2 () 0 (ex_loop (ex_rx_world 0)) = Ret s'
     \<and> bm_get_data (lp_mem s') (frame_buf ex_area 10496 60 ())
       = swap12 (bm_get_data (\<lambda>_. 0) (frame_buf ex_area 10496 60 ()))"
proof -
  let ?s = "ex_loop (ex_rx_world 0)"
  note i = ex_loop_inv(1) [OF ex_rx_world_facts(1) ex_rx_world_facts(2) ex_rx_world_facts(3), of 0]
  have c: "268 \<le> buf_len ex_area" "0 < length (lp_ports ?s)" by (simp_all add: ex_loop_def ex_area_def)
  obtain s' where s': "recv_phase ref_api ref_libc Release list_deque swap_macs 2 () 0 ?s = Ret s'"
    using reflink.recv_phase_returns [OF i ex_area_wf c, of swap_macs 2 "()"] by blast
  have q: "lp_queues ?s ! 0 = ex_queue [10496]" "p_rx (lp_ports ?s ! 0) = ex_rx"
    "lp_world ?s = ex_rx_world 0" "lp_mem ?s = (\<lambda>_. 0)"
    by (simp_all add: ex_loop_def ex_port_def)
  obtain w1 where w1: "cons_peek ref_api (rx_ring ex_rx)
      (of_nat (min (PENDING_LEN - length (ex_queue [10496])) 2)) 0 (ex_rx_world 0) = (2, 0, w1)"
    by (simp add: ref_api_simps ex_rx_def ex_rx_world_def mk_kring_def PENDING_LEN_def ex_queue_def)
  have "length (ex_queue [10496]) \<le> PENDING_LEN" "256 \<le> buf_len (um_area (so_umem (rx_socket ex_rx)))"
    by (simp_all add: ex_queue_def PENDING_LEN_def ex_rx_def ex_socket_def ex_umem_def ex_area_def)
  note up = reflink.try_recv_upto_loop [OF this w1, of Release "()"]
  have "k_ok (ex_rx_world 0)" "snd (rx_ring ex_rx) = Rx" "\<forall>p. snd (k_window p (ex_rx_world 0)) = 0"
    "256 \<le> buf_len (um_area (so_umem (rx_socket ex_rx)))" "length (ex_queue [10496]) \<le> PENDING_LEN"
    by (simp_all add: ex_rx_world_facts ex_rx_def ex_socket_def ex_umem_def ex_area_def ex_queue_def
        PENDING_LEN_def del: split_paired_All)
  from reflink.recv_returns [OF this, of 2 "()"] up
  obtain q' w' where r: "try_recv ref_api Release list_deque ex_rx (ex_queue [10496]) 2 () (ex_rx_world 0)
      = Ret (Ok 2, q', w')" by (auto simp: bnd_Ret_iff)
  have "frame_buf ex_area 10496 60 () \<in> set (lp_queues ?s ! 0)" by (simp add: q(1) ex_queue_def)
  then show ?thesis
    using l1_recv_reswaps [OF xsk_link_ref i ex_area_wf c _ _ s', of 2 q' w'] r s'
    unfolding q by fastforce
qed

text \<open>
  The loop of \<open>l2fwd-2link\<close> (and of each worker of \<open>l2fwd-2link-multicore\<close>) keeps its
  books on both ports, whichever port it serves: frames are conserved, no deficit underflows, and
  the packets received on a port are those sent on the other one and those still pending.
\<close>

lemma l2_body_keeps:
  assumes "xsk_link api ok held kind window staged libc dq dq_ok queued" and "256 \<le> buf_len area"
    and "loop_inv ok held kind window dq_ok queued area s"
    and "flow_ok queued (\<lambda>p. (p + 1) mod 2) s" and "length (lp_ports s) = 2" and "pos < 2"
    and "rx_packets (lp_stats s ! pos) + PENDING_LEN < 2 ^ 64"
    and "l2_body api libc prof dq bc (pos, s) = Ret (pos', s')"
  shows "loop_inv ok held kind window dq_ok queued area s' \<and> pos' = 1 - pos
     \<and> length (lp_ports s') = 2
     \<and> (\<forall>p < 2. rx_packets (lp_stats s' ! p) = fq_bufs (lp_stats s' ! p) + fq_deficit (lp_ports s' ! p)
           \<and> rx_packets (lp_stats s' ! p)
             = tx_packets (lp_stats s' ! ((p + 1) mod 2)) + length (queued (lp_queues s' ! p)))"
proof -
  let ?out = "\<lambda>p. (p + 1) mod 2 :: nat"
  have c: "pos < length (lp_ports s)" "inj_on ?out {..<length (lp_ports s)}"
    using assms(5,6) by (simp_all add: numeral_2_eq_2 lessThan_Suc)
  have n: "SERVICE_BATCH_SIZE < 2 ^ 64" by (simp add: SERVICE_BATCH_SIZE_def)
  obtain s1 where ph: "phases api libc prof dq bc (\<lambda>_. Ret) SERVICE_BATCH_SIZE SOCKET_BATCH_SIZE
      FILL_THRESHOLD pos (?out pos) s = Ret s1" and "Ret (?out pos, s1) = Ret (pos', s')"
    using assms(8) unfolding l2_body_phases by (rule bnd_RetE)
  then have s1: "s1 = s'" "pos' = ?out pos" by simp_all
  have "loop_inv ok held kind window dq_ok queued area s1 \<and> flow_ok queued ?out s1
      \<and> length (lp_ports s1) = 2"
    using xsk_link.phases_inv [where out = ?out, OF assms(1,3,4,2) c assms(7) n ph] assms(5) by simp
  moreover have "pos' = 1 - pos" using s1(2) assms(6) by (cases pos) auto
  ultimately show ?thesis using s1(1) by (auto simp: loop_inv_def deficit_ok_def flow_ok_def)
qed

definition ex_loop2 :: "kworld \<Rightarrow> (kring_id, unit, unit buf_mmap list, kworld) loop" where
  "ex_loop2 w = \<lparr>lp_bufs = ex_bufs [4352, 6400, 8448, 12544, 14592], lp_queues = [ex_queue [10496], []],
     lp_ports = [ex_port, \<lparr>p_cq = ex_cq\<lparr>cq_ring := (True, Completion)\<rparr>, p_fq = ex_fq\<lparr>fq_ring := (True, Fill)\<rparr>,
       p_rx = ex_rx\<lparr>rx_ring := (True, Rx)\<rparr>, p_tx = ex_tx\<lparr>tx_ring := (True, Tx)\<rparr>, fq_deficit = 0\<rparr>],
     lp_stats = [\<lparr>cq_bufs = 0, fq_bufs = 0, rx_packets = 1, tx_packets = 0\<rparr>,
                 \<lparr>cq_bufs = 0, fq_bufs = 0, rx_packets = 0, tx_packets = 0\<rparr>],
     lp_mem = (\<lambda>_. 0), lp_world = w\<rparr>"

lemma ex_loop2_inv:
  assumes "k_ok w" and "\<And>r. snd (k_window r w) = 0" and "k_held w = {#256, 2304#}"
  shows "list_loop_inv (ex_loop2 w)" and "flow_ok (\<lambda>q. q) (\<lambda>p. (p + 1) mod 2) (ex_loop2 w)"
proof -
  have "own_inv k_ok k_held k_window (\<lambda>q. length q \<le> PENDING_LEN) (\<lambda>q. q) ex_area (loop_app (ex_loop2 w))"
    using assms
    by (simp add: own_inv_def loop_app_def ex_loop2_def live_bufs_def ex_bufs_def ex_queue_def bpv_new_def
        vec_wf_def PENDING_LEN_def ex_area_frames del: split_paired_All)
  moreover have "env_ok snd ex_area (loop_env (ex_loop2 w))"
    by (simp add: env_ok_def loop_env_def ex_loop2_def ex_port_def ex_cq_def ex_fq_def ex_rx_def
        ex_tx_def ex_umem_def ex_socket_def)
  ultimately show "list_loop_inv (ex_loop2 w)"
    by (simp add: loop_inv_def deficit_ok_def ex_loop2_def ex_port_def All_less_Suc)
  show "flow_ok (\<lambda>q. q) (\<lambda>p. (p + 1) mod 2) (ex_loop2 w)"
    by (simp add: flow_ok_def ex_loop2_def ex_queue_def All_less_Suc numeral_2_eq_2)
qed

lemma l2_body_keeps_witness:
  "\<exists>s'. l2_body ref_api quiet_libc Release list_deque () (0, ex_loop2 (ex_rx_world 0)) = Ret (1, s')
     \<and> rx_packets (lp_stats s' ! 0) = tx_packets (lp_stats s' ! 1) + length (lp_queues s' ! 0)"
proof -
  let ?s = "ex_loop2 (ex_rx_world 0)" and ?out = "\<lambda>p. (p + 1) mod 2 :: nat"
  note i = ex_loop2_inv [OF ex_rx_world_facts(1) ex_rx_world_facts(2) ex_rx_world_facts(3), of 0]
  have c: "length (lp_ports ?s) = 2" "268 \<le> buf_len ex_area" "256 \<le> buf_len ex_area"
    "rx_packets (lp_stats ?s ! 0) + PENDING_LEN < 2 ^ 64" "(0 :: nat) < 2"
    by (simp_all add: ex_loop2_def ex_area_def PENDING_LEN_def)
  have p: "0 < length (lp_ports ?s)" "inj_on ?out {..<length (lp_ports ?s)}"
    by (simp_all add: c(1) numeral_2_eq_2 lessThan_Suc)
  have n: "SERVICE_BATCH_SIZE < 2 ^ 64" by (simp add: SERVICE_BATCH_SIZE_def)
  obtain s' where "phases ref_api quiet_libc Release list_deque () (\<lambda>_. Ret) SERVICE_BATCH_SIZE
      SOCKET_BATCH_SIZE FILL_THRESHOLD 0 (?out 0) ?s = Ret s'"
    using quietlink.phases_outcome [where out = ?out, OF i ex_area_wf c(2) p c(4) n
        disjI2 [OF refl]] quiet_wakeup by blast
  then have s': "l2_body ref_api quiet_libc Release list_deque () (0, ?s) = Ret (1, s')"
    unfolding l2_body_phases by simp
  from l2_body_keeps [OF xsk_link_quiet c(3) i c(1,5,4) s'] s' show ?thesis by fastforce
qed

text \<open>
  An iteration of \<open>rxdrop\<close> leaves no packet pending: every received buffer is back in
  the vector or already refilled, frames are conserved, and \<open>rx_packets = fq_bufs + fq_deficit\<close>.
\<close>

lemma rxdrop_body_keeps:
  assumes "xsk_link api ok held kind window staged libc dq dq_ok queued" and "256 \<le> buf_len area"
    and "loop_inv ok held kind window dq_ok queued area s" and "length (lp_ports s) = 1"
    and "rx_packets (lp_stats s ! 0) + PENDING_LEN < 2 ^ 64"
    and "rxdrop_body api libc prof dq bc s = Ret s'"
  shows "loop_inv ok held kind window dq_ok queued area s' \<and> queued (lp_queues s' ! 0) = []
     \<and> rx_packets (lp_stats s' ! 0) = fq_bufs (lp_stats s' ! 0) + fq_deficit (lp_ports s' ! 0)"
proof -
  have pos: "0 < length (lp_ports s)" using assms(4) by simp
  from assms(6) obtain s1 where s: "recv_phase api libc prof dq (\<lambda>_. Ret) SOCKET_BATCH_SIZE bc 0 s = Ret s1"
    "fill_phase api prof FILL_THRESHOLD 0 (drop_phase dq 0 s1) = Ret s'"
    by (auto simp: rxdrop_body_def bnd_Ret_iff)
  have i1: "loop_inv ok held kind window dq_ok queued area s1" "0 < length (lp_ports s1)"
    using xsk_link.recv_phase_inv [OF assms(1) s(1) assms(3,2) pos assms(5)] pos by auto
  note dp = xsk_link.drop_phase_inv [OF assms(1) i1(1) assms(2) i1(2)]
  have l: "0 < length (lp_queues s1)" "dq_ok (lp_queues s1 ! 0)"
    using i1 by (auto simp: loop_inv_def deficit_ok_def own_inv_def loop_app_def)
  obtain bs q where d: "dq_drain dq (lp_queues s1 ! 0) = (bs, q)" by fastforce
  then have "queued q = []"
    using array_deque.drain_deque [OF xsk_link.axioms(2) [OF assms(1)] l(2)] by blast
  then have "queued (lp_queues (drop_phase dq 0 s1) ! 0) = []"
    using l(1) by (simp add: drop_phase_def d)
  moreover have "lp_queues s' = lp_queues (drop_phase dq 0 s1)"
    using fill_phase_ports [OF s(2)] by simp
  moreover have "loop_inv ok held kind window dq_ok queued area s'"
    using xsk_link.fill_phase_inv [OF assms(1) s(2) conjunct1 [OF dp] assms(2)] dp i1(2) by auto
  moreover have "length (lp_ports s') = length (lp_ports s1)"
    using fill_phase_ports [OF s(2)] dp by simp
  ultimately show ?thesis using i1(2) by (auto simp: loop_inv_def deficit_ok_def)
qed

lemma rxdrop_body_keeps_witness:
  "\<exists>s'. rxdrop_body ref_api quiet_libc Release list_deque () (ex_loop (ex_rx_world 0)) = Ret s'
     \<and> lp_queues s' ! 0 = []
     \<and> rx_packets (lp_stats s' ! 0) = fq_bufs (lp_stats s' ! 0) + fq_deficit (lp_ports s' ! 0)"
proof -
  let ?s = "ex_loop (ex_rx_world 0)"
  note i = ex_loop_inv(1) [OF ex_rx_world_facts(1) ex_rx_world_facts(2) ex_rx_world_facts(3), of 0]
  have c: "length (lp_ports ?s) = 1" "268 \<le> buf_len ex_area" "256 \<le> buf_len ex_area"
    "rx_packets (lp_stats ?s ! 0) + PENDING_LEN < 2 ^ 64" "0 < length (lp_ports ?s)"
    by (simp_all add: ex_loop_def ex_area_def PENDING_LEN_def)
  obtain s1 where s1: "recv_phase ref_api quiet_libc Release list_deque (\<lambda>_. Ret) SOCKET_BATCH_SIZE () 0 ?s
      = Ret s1"
    using quietlink.recv_phase_returns [OF i ex_area_wf c(2,5), of "\<lambda>_. Ret"] by blast
  have i1: "list_loop_inv s1" "0 < length (lp_ports s1)"
    using quietlink.recv_phase_inv [OF s1 i c(3,5,4)] c(5) by auto
  have "list_loop_inv (drop_phase list_deque 0 s1)" "0 < length (lp_ports (drop_phase list_deque 0 s1))"
    using quietlink.drop_phase_inv [OF i1(1) c(3) i1(2)] i1(2) by simp_all
  from quietlink.fill_phase_returns [OF this, of FILL_THRESHOLD] s1
  obtain s' where s': "rxdrop_body ref_api quiet_libc Release list_deque () ?s = Ret s'"
    by (auto simp: rxdrop_body_def)
  from rxdrop_body_keeps [OF xsk_link_quiet c(3) i c(1,4) s'] s' show ?thesis by blast
qed

end
