(* ===== verification/Setup.thy ===== *)
theory Setup
  imports Forwarding
begin

text \<open>
  The programs from their first line: the set-up of \<open>examples/l2fwd-1link.rs\<close> and
  \<open>examples/l2fwd-2link.rs\<close> (map the area, create the umems and the sockets, fill the umems) and
  the loop run for any number of iterations. The locale \<open>xsk_setup\<close> adds what the set-up relies
  on; the theorems join the components: what holds of a program that starts with a kernel that
  holds no frame of it.
\<close>

section \<open>What construction relies on\<close>

text \<open>
  Creating objects moves no frame and opens no window, and a successful creation makes the rings
  it was given rings of their kind.
\<close>

locale xsk_setup =
  xsk_link api ok held kind window staged libc dq dq_ok queued + os_mmap libc
  for api :: "('r, 'w) xsk_api" and ok held kind window staged and libc :: "'w libc_api"
    and dq :: "('u buf_mmap, 'q) deque_api" and dq_ok queued +
  assumes mmap_keeps: "ok w \<Longrightarrow> c_mmap libc a n prot fl fd off w = (p, w') \<Longrightarrow>
        ok w' \<and> held w' = held w \<and> (\<forall>q. window q w' = window q w)"
    and new_ring_keeps: "ok w \<Longrightarrow> new_ring api w = (r, w') \<Longrightarrow>
        ok w' \<and> held w' = held w \<and> (\<forall>q. window q w' = window q w)"
    and umem_create_keeps: "ok w \<Longrightarrow> umem_create api p n f c cfg w = (e, u, w') \<Longrightarrow>
        ok w' \<and> held w' = held w \<and> (\<forall>q. window q w' = window q w)
        \<and> (e = 0 \<longrightarrow> kind f = Fill \<and> kind c = Completion)"
    and socket_create_keeps: "ok w \<Longrightarrow> socket_create api ifn q u rx tx scfg w = (e, x, w') \<Longrightarrow>
        ok w' \<and> held w' = held w \<and> (\<forall>q. window q w' = window q w)
        \<and> (e = 0 \<longrightarrow> (\<forall>r. rx = Some r \<longrightarrow> kind r = Rx) \<and> (\<forall>r. tx = Some r \<longrightarrow> kind r = Tx))"

text \<open>The reference kernel satisfies them.\<close>

lemma k_next_views [simp]:
  "k_ok (w\<lparr>k_next := rs\<rparr>) = k_ok w" "k_held (w\<lparr>k_next := rs\<rparr>) = k_held w"
  "k_window q (w\<lparr>k_next := rs\<rparr>) = k_window q w"
  by (simp_all add: k_ok_def k_held_def k_window_def)

lemma xsk_setup_quiet: "xsk_setup ref_api k_ok k_held snd k_window k_staged quiet_libc
  (list_deque :: (unit buf_mmap, unit buf_mmap list) deque_api) (\<lambda>q. length q \<le> PENDING_LEN) (\<lambda>q. q)"
proof (rule xsk_setup.intro [OF xsk_link_quiet])
  show "os_mmap quiet_libc"
    by unfold_locales (use refos.mmap_fits in \<open>fastforce simp: quiet_libc_def ref_libc_def\<close>)
  show "xsk_setup_axioms ref_api k_ok k_held snd k_window quiet_libc"
    by unfold_locales
      (auto simp: ref_api_def quiet_libc_def ref_libc_def split: list.splits if_splits)
qed

interpretation quietsetup: xsk_setup ref_api k_ok k_held snd k_window k_staged quiet_libc
  "list_deque :: (unit buf_mmap, unit buf_mmap list) deque_api" "\<lambda>q. length q \<le> PENDING_LEN" "\<lambda>q. q"
  by (rule xsk_setup_quiet)

section \<open>Set-up of \<open>l2fwd-1link\<close>\<close>

record l1_opt =
  o_bufsize :: usize
  o_bufnum :: usize
  o_batch_size :: usize
  o_link_name :: string
  o_link_channel :: usize
  o_huge_tlb :: bool
  o_zero_copy :: bool
  o_copy :: bool

definition socket_options_default :: socket_options where
  "socket_options_default =
     \<lparr>zero_copy_mode = False, copy_mode = False, tx_ring_size = 0, rx_ring_size = 0\<rparr>"

definition stats_default :: stats where
  "stats_default = \<lparr>cq_bufs = 0, fq_bufs = 0, rx_packets = 0, tx_packets = 0\<rparr>"

text \<open>\<open>match r { Ok(x) => x, Err(err) => panic!(..) }\<close> on a constructor.\<close>

definition expect :: "(('a, 'e) result \<times> 'w) outcome \<Rightarrow> ('a \<times> 'w) outcome" where
  "expect m = bnd m (\<lambda>(r, w). case r of Ok x \<Rightarrow> Ret (x, w) | Err _ \<Rightarrow> Panic ExplicitPanic)"

text \<open>
  \<open>rlimit_ok\<close> is the outcome of \<open>setrlimit\<close>, \<open>cons_descs\<close> and \<open>prod_descs\<close> are the default ring
  sizes that libbpf defines, and \<open>m\<close> is the memory the mapping starts with.
\<close>

definition l1_setup :: "('r, 'w) xsk_api \<Rightarrow> 'w libc_api \<Rightarrow> profile \<Rightarrow> ('u buf_mmap, 'q) deque_api \<Rightarrow> 'u
    \<Rightarrow> bool \<Rightarrow> u32 \<Rightarrow> u32 \<Rightarrow> l1_opt \<Rightarrow> memory \<Rightarrow> 'w \<Rightarrow> ('r, 'u, 'q, 'w) loop outcome" where
  "l1_setup api libc prof dq dflt rlimit_ok cons_descs prod_descs opt m w =
     (if \<not> rlimit_ok then Panic ExplicitPanic
      else
        bnd (expect (mmap_area_new libc prof dflt (o_bufnum opt) (o_bufsize opt)
                       \<lparr>huge_tlb = o_huge_tlb opt\<rparr> w)) (\<lambda>((area, bs), w).
        bnd (expect (umem_new api libc prof area cons_descs prod_descs w)) (\<lambda>((um, cq, fq), w).
        let options = socket_options_default\<lparr>zero_copy_mode := o_zero_copy opt,
                                             copy_mode := o_copy opt\<rparr> in
        bnd (expect (socket_new api libc um (o_link_name opt) (o_link_channel opt) cons_descs
                       prod_descs options w)) (\<lambda>((skt, rx, tx), w).
        bnd (fq_fill api prof fq bs (min (unat prod_descs) (o_bufnum opt)) w) (\<lambda>(r, bs, w).
        case r of
          Ok n \<Rightarrow>
            if n \<noteq> min (unat prod_descs) (o_bufnum opt) then Panic ExplicitPanic
            else Ret \<lparr>lp_bufs = bs, lp_queues = [dq_new dq],
                      lp_ports = [\<lparr>p_cq = cq, p_fq = fq, p_rx = rx, p_tx = tx, fq_deficit = 0\<rparr>],
                      lp_stats = [stats_default], lp_mem = m, lp_world = w\<rparr>
        | Err _ \<Rightarrow> Panic ExplicitPanic)))))"

section \<open>Set-up of \<open>l2fwd-2link\<close>\<close>

record l2_opt =
  t_bufsize :: usize
  t_bufnum :: usize
  t_link1_name :: string
  t_link1_channel :: usize
  t_link2_name :: string
  t_link2_channel :: usize
  t_huge_tlb :: bool
  t_zero_copy :: bool
  t_copy :: bool

definition RING_SIZE :: u32 where
  "RING_SIZE = 2048"

text \<open>The first fill of a umem, which the two-link programs share: an incomplete fill panics.\<close>

definition initial_fill :: "('r, 'w) xsk_api \<Rightarrow> profile \<Rightarrow> 'r umem_fill_queue \<Rightarrow> 'u buf_mmap vec \<Rightarrow> usize
    \<Rightarrow> 'w \<Rightarrow> ('u buf_mmap vec \<times> 'w) outcome" where
  "initial_fill api prof fq bs initial_fill_num w =
     bnd (fq_fill api prof fq bs initial_fill_num w) (\<lambda>(r, bs, w).
       case r of
         Ok n \<Rightarrow> if n \<noteq> initial_fill_num then Panic ExplicitPanic else Ret (bs, w)
       | Err _ \<Rightarrow> Ret (bs, w))"

definition l2_setup :: "('r, 'w) xsk_api \<Rightarrow> 'w libc_api \<Rightarrow> profile \<Rightarrow> ('u buf_mmap, 'q) deque_api \<Rightarrow> 'u
    \<Rightarrow> bool \<Rightarrow> l2_opt \<Rightarrow> memory \<Rightarrow> 'w \<Rightarrow> (nat \<times> ('r, 'u, 'q, 'w) loop) outcome" where
  "l2_setup api libc prof dq dflt rlimit_ok opt m w =
     (let initial_fill_num = min (t_bufnum opt div 2) (unat RING_SIZE) in
      if \<not> rlimit_ok then Panic ExplicitPanic
      else
        bnd (expect (mmap_area_new libc prof dflt (t_bufnum opt) (t_bufsize opt)
                       \<lparr>huge_tlb = t_huge_tlb opt\<rparr> w)) (\<lambda>((area, bs), w).
        bnd (expect (umem_new api libc prof area RING_SIZE RING_SIZE w)) (\<lambda>((um1, cq1, fq1), w).
        bnd (expect (umem_new api libc prof area RING_SIZE RING_SIZE w)) (\<lambda>((um2, cq2, fq2), w).
        let options = socket_options_default\<lparr>zero_copy_mode := t_zero_copy opt,
                                             copy_mode := t_copy opt\<rparr> in
        bnd (expect (socket_new api libc um1 (t_link1_name opt) (t_link1_channel opt) RING_SIZE
                       RING_SIZE options w)) (\<lambda>((skt1, rx1, tx1), w).
        bnd (expect (socket_new api libc um2 (t_link2_name opt) (t_link2_channel opt) RING_SIZE
                       RING_SIZE options w)) (\<lambda>((skt2, rx2, tx2), w).
        bnd (initial_fill api prof fq1 bs initial_fill_num w) (\<lambda>(bs, w).
        bnd (initial_fill api prof fq2 bs initial_fill_num w) (\<lambda>(bs, w).
        Ret (0, \<lparr>lp_bufs = bs, lp_queues = [dq_new dq, dq_new dq],
                 lp_ports = [\<lparr>p_cq = cq1, p_fq = fq1, p_rx = rx1, p_tx = tx1, fq_deficit = 0\<rparr>,
                             \<lparr>p_cq = cq2, p_fq = fq2, p_rx = rx2, p_tx = tx2, fq_deficit = 0\<rparr>],
                 lp_stats = [stats_default, stats_default], lp_mem = m, lp_world = w\<rparr>)))))))))"

section \<open>Running a loop\<close>

text \<open>
  The loops of the programs do not end by themselves (\<open>l2fwd-1link\<close> stops after about five minutes
  of ticks), so a claim about a run is about every number of iterations.
\<close>

primrec loop_run :: "('s \<Rightarrow> 's outcome) \<Rightarrow> nat \<Rightarrow> 's \<Rightarrow> 's outcome" where
  "loop_run body 0 s = Ret s"
| "loop_run body (Suc n) s = bnd (body s) (loop_run body n)"

lemma loop_run_inv:
  assumes "loop_run body n s = Ret s'" and "P k s" and "k + n \<le> m"
    and step: "\<And>k s s'. P k s \<Longrightarrow> k < m \<Longrightarrow> body s = Ret s' \<Longrightarrow> P (Suc k) s'"
  shows "P (k + n) s'"
  using assms(1-3)
proof (induction n arbitrary: k s)
  case (Suc n)
  from Suc.prems(1) obtain t where t: "body s = Ret t" "loop_run body n t = Ret s'"
    by (auto simp: bnd_Ret_iff)
  then have "P (Suc k) t" using step Suc.prems(2,3) by simp
  from Suc.IH [OF t(2) this] Suc.prems(3) show ?case by simp
qed simp

lemma loop_run_progress:
  assumes "P k s" and "k + n \<le> m"
    and step: "\<And>k s s'. P k s \<Longrightarrow> k < m \<Longrightarrow> body s = Ret s' \<Longrightarrow> P (Suc k) s'"
    and go: "\<And>k s. P k s \<Longrightarrow> k < m \<Longrightarrow> (\<exists>s'. body s = Ret s') \<or> body s = Panic e \<and> Q"
  shows "(\<exists>s'. loop_run body n s = Ret s') \<or> loop_run body n s = Panic e \<and> Q"
  using assms(1,2)
proof (induction n arbitrary: k s)
  case (Suc n)
  then have "k < m" by simp
  from go [OF Suc.prems(1) this] consider t where "body s = Ret t" | "body s = Panic e" "Q" by blast
  then show ?case
  proof cases
    case (1 t)
    with step [OF Suc.prems(1) \<open>k < m\<close>] Suc.IH [of "Suc k" t] Suc.prems(2) show ?thesis by simp
  qed simp
qed simp

section \<open>What the set-up establishes\<close>

lemma expect_Ret: "expect m = Ret (x, w) \<longleftrightarrow> m = Ret (Ok x, w)"
  by (auto simp: expect_def bnd_Ret_iff case_result_Ret_iff)

lemma initial_fill_Ret:
  "initial_fill api prof fq bs n w = Ret (v, w') \<Longrightarrow>
   (\<exists>e. fq_fill api prof fq bs n w = Ret (Err e, v, w')) \<or> fq_fill api prof fq bs n w = Ret (Ok n, v, w')"
  by (auto simp: initial_fill_def bnd_Ret_iff case_result_Ret_iff split: if_split_asm)

context xsk_link
begin

text \<open>A first fill moves exactly the frames it was asked to.\<close>

lemma fill_exact:
  assumes "fq_fill api prof fq bs n w = Ret (r, v, w')" and "r = Ok n \<or> r = Err e" and "ok w"
    and "kind (fq_ring fq) = Fill" and "\<forall>p. snd (window p w) = 0" and "n < 2 ^ 64" and "vec_wf bs"
  shows "n \<le> length (items bs) \<and> vec_wf v \<and> items v = take (length (items bs) - n) (items bs)
     \<and> ok w' \<and> held w' = held w + owned (drop (length (items bs) - n) (items bs))
     \<and> (\<forall>p. snd (window p w') = 0)"
  using fill_ret [OF assms(1,3,4,5,6)] assms(2,7) by (auto simp: vec_wf_def)

lemma fill_keeps_inv:
  assumes inv: "own_inv ok held window dq_ok queued area s" and "256 \<le> buf_len area"
    and "kind (fq_ring fq) = Fill" and "i < length (a_vecs s)" and "n < 2 ^ 64"
    and "fq_fill api prof fq (a_vecs s ! i) n (a_world s) = Ret (r, v, w)"
  shows "own_inv ok held window dq_ok queued area (s\<lparr>a_vecs := (a_vecs s)[i := v], a_world := w\<rparr>)"
proof -
  let ?env = "\<lparr>env_cqs = [], env_fqs = [fq], env_rxs = [], env_txs = []\<rparr>"
  have "app_step api libc prof dq undefined ?env s (s\<lparr>a_vecs := (a_vecs s)[i := v], a_world := w\<rparr>)"
    using assms by (intro fill) simp_all
  moreover have "env_ok kind area ?env" using assms(3) by (simp add: env_ok_def)
  ultimately show ?thesis using step_preserves [OF inv _ assms(2)] by blast
qed

lemma initial_fill_keeps:
  assumes f: "initial_fill api prof fq (a_vecs s ! i) n (a_world s) = Ret (v, w)"
    and inv: "own_inv ok held window dq_ok queued area s" and ma: "256 \<le> buf_len area"
    and fq: "kind (fq_ring fq) = Fill" and "i < length (a_vecs s)" and n: "n < 2 ^ 64"
  shows "own_inv ok held window dq_ok queued area (s\<lparr>a_vecs := (a_vecs s)[i := v], a_world := w\<rparr>)
     \<and> size (held w) = size (held (a_world s)) + n
     \<and> n + length (items v) = length (items (a_vecs s ! i))"
proof -
  obtain r where r: "fq_fill api prof fq (a_vecs s ! i) n (a_world s) = Ret (r, v, w)"
    "r = Ok n \<or> (\<exists>e. r = Err e)"
    using initial_fill_Ret [OF f] by auto
  have i: "ok (a_world s)" "\<forall>p. snd (window p (a_world s)) = 0" "vec_wf (a_vecs s ! i)"
    using inv assms(5) by (auto simp: own_inv_def)
  from r(2) have "n \<le> length (items (a_vecs s ! i))
      \<and> items v = take (length (items (a_vecs s ! i)) - n) (items (a_vecs s ! i))
      \<and> held w = held (a_world s) + owned (drop (length (items (a_vecs s ! i)) - n) (items (a_vecs s ! i)))"
    using fill_exact [OF r(1) _ i(1) fq i(2) n i(3)] by blast
  then show ?thesis using fill_keeps_inv [OF inv ma fq assms(5) n r(1)] by auto
qed

end

context xsk_setup
begin

lemma umem_new_keeps:
  assumes "expect (umem_new api libc prof area csz fsz w) = Ret ((um, cq, fq), w')" and "ok w"
  shows "kind (cq_ring cq) = Completion \<and> kind (fq_ring fq) = Fill \<and> um_area um = area
     \<and> um_area (cq_umem cq) = area
     \<and> ok w' \<and> held w' = held w \<and> (\<forall>q. window q w' = window q w)"
proof -
  obtain c w1 f w2 where r: "new_ring api w = (c, w1)" "new_ring api w1 = (f, w2)" by fastforce
  from assms(1) obtain sz where sz: "usize_mul prof (get_buf_num area) (get_buf_len area) = Ret sz"
    unfolding expect_Ret umem_new_def by (auto simp: bnd_Ret_iff Let_def r split: if_split_asm)
  let ?cfg = "\<lparr>fill_size = fsz, comp_size = csz, frame_size = of_nat (get_buf_len area),
      frame_headroom = XSK_UMEM_DEFAULT_FRAME_HEADROOM api, umem_flags = 0\<rparr>"
  obtain e p w3 where c: "umem_create api (get_ptr area) (of_nat sz) f c ?cfg w2 = (e, p, w3)"
    by (cases "umem_create api (get_ptr area) (of_nat sz) f c ?cfg w2")
  have d: "e = 0" "w3 = w'" "um = \<lparr>um_area = area, um_ptr = p\<rparr>" "cq = \<lparr>cq_umem = um, cq_ring = c\<rparr>"
    "fq = \<lparr>fq_umem = um, fq_ring = f\<rparr>"
    using assms(1) unfolding expect_Ret umem_new_def
    by (auto simp: Let_def r sz c split: if_split_asm)
  note k1 = new_ring_keeps [OF assms(2) r(1)]
  note k2 = new_ring_keeps [OF conjunct1 [OF k1] r(2)]
  note k3 = umem_create_keeps [OF conjunct1 [OF k2] c]
  show ?thesis using k1 k2 k3 d by simp
qed

lemma socket_new_keeps:
  assumes "expect (socket_new api libc um ifn queue rsz tsz options w) = Ret ((s, rx, tx), w')" and "ok w"
  shows "kind (rx_ring rx) = Rx \<and> kind (tx_ring tx) = Tx \<and> so_umem (rx_socket rx) = um
     \<and> ok w' \<and> held w' = held w \<and> (\<forall>q. window q w' = window q w)"
proof -
  obtain x w1 t w2 where r: "new_ring api w = (x, w1)" "new_ring api w1 = (t, w2)" by fastforce
  from assms(1) obtain c where c: "cstring_new ifn = Ret c"
    unfolding expect_Ret socket_new_def by (auto simp: bnd_Ret_iff Let_def r split: if_split_asm)
  let ?cfg = "socket_config api rsz tsz options"
  obtain e p w3 where sc: "socket_create api c (of_nat queue) (umem_get_ptr um) (Some x) (Some t) ?cfg w2
      = (e, p, w3)"
    by (cases "socket_create api c (of_nat queue) (umem_get_ptr um) (Some x) (Some t) ?cfg w2")
  have d: "e = 0" "w3 = w'" "so_umem (rx_socket rx) = um" "rx_ring rx = x" "tx_ring tx = t"
    using assms(1) unfolding expect_Ret socket_new_def
    by (auto simp: Let_def r c sc split: if_split_asm)
  note k1 = new_ring_keeps [OF assms(2) r(1)]
  note k2 = new_ring_keeps [OF conjunct1 [OF k1] r(2)]
  note k3 = socket_create_keeps [OF conjunct1 [OF k2] sc]
  show ?thesis using k1 k2 k3 d by simp
qed

lemma area_new_keeps:
  assumes "expect (mmap_area_new libc prof dflt num len options w) = Ret ((area, bs), w')" and "ok w"
    and "num * len < 2 ^ 64"
  shows "ok w' \<and> held w' = held w \<and> (\<forall>q. window q w' = window q w)"
proof -
  from assms(1,3) obtain n prot fl p where "c_mmap libc 0 n prot fl (-1) 0 w = (p, w')"
    unfolding expect_Ret mmap_area_new_def
    by (auto simp: bnd_Ret_iff Let_def usize_mul_ok split: prod.splits if_split_asm)
  with assms(2) show ?thesis by (rule mmap_keeps)
qed

end

context xsk_setup
begin

lemma own_inv_world:
  assumes "own_inv ok held window dq_ok queued area s" and "ok w" and "held w = held (a_world s)"
    and "\<forall>q. window q w = window q (a_world s)"
  shows "own_inv ok held window dq_ok queued area (s\<lparr>a_world := w\<rparr>)"
  using assms by (simp add: own_inv_def)

text \<open>The state before the first fill: all buffers in the vector, new queues, no frame handed out.\<close>

lemma area_start:
  assumes "expect (mmap_area_new libc prof dflt num len options w) = Ret ((area, bs), w')"
    and "256 \<le> len" and "num * len < 2 ^ 64" and "ok w" and "held w = {#}"
    and "\<forall>r. snd (window r w) = 0" and "ok v" and "held v = held w'" and "\<forall>q. window q v = window q w'"
  shows "ma_wf area \<and> buf_num area = num \<and> buf_len area = len
     \<and> own_inv ok held window dq_ok queued area (app_start dq bs nq 0 v)"
proof -
  have k: "ok w'" "held w' = {#}" "\<forall>q. snd (window q w') = 0"
    using area_new_keeps [OF assms(1,4,3)] assms(5,6) by auto
  have n: "mmap_area_new libc prof dflt num len options w = Ret (Ok (area, bs), w')"
    using assms(1) by (simp add: expect_Ret)
  have "array_deque dq dq_ok queued" "os_mmap libc" by unfold_locales
  from start_inv [where ok = ok and held = held and window = window and nq = nq and pool_cap = 0,
      OF this assms(2,3) n k]
  have s: "ma_wf area" "buf_num area = num" "buf_len area = len"
    "own_inv ok held window dq_ok queued area (app_start dq bs nq 0 w')" by auto
  have "own_inv ok held window dq_ok queued area ((app_start dq bs nq 0 w')\<lparr>a_world := v\<rparr>)"
    using assms(7-9) by (intro own_inv_world [OF s(4)]) (simp_all add: app_start_def)
  with s show ?thesis by (simp add: app_start_def)
qed

lemma l1_setup_inv:
  assumes st: "l1_setup api libc prof dq dflt rlimit_ok cons_descs prod_descs opt m w = Ret s"
    and len: "256 \<le> o_bufsize opt" and size: "o_bufnum opt * o_bufsize opt < 2 ^ 64"
    and w: "ok w" "held w = {#}" "\<forall>r. snd (window r w) = 0"
  shows "\<exists>area. ma_wf area \<and> buf_num area = o_bufnum opt \<and> buf_len area = o_bufsize opt
     \<and> loop_inv ok held kind window dq_ok queued area s \<and> flow_ok queued (\<lambda>p. p) s
     \<and> length (lp_ports s) = 1 \<and> rx_packets (lp_stats s ! 0) = 0
     \<and> size (held (lp_world s)) = min (unat prod_descs) (o_bufnum opt)"
proof -
  let ?n = "min (unat prod_descs) (o_bufnum opt)"
  let ?opts = "socket_options_default\<lparr>zero_copy_mode := o_zero_copy opt, copy_mode := o_copy opt\<rparr>"
  from st obtain area bs w1 um cq fq w2 skt rx tx w3 v w4 where
    a: "expect (mmap_area_new libc prof dflt (o_bufnum opt) (o_bufsize opt)
          \<lparr>huge_tlb = o_huge_tlb opt\<rparr> w) = Ret ((area, bs), w1)"
    and u: "expect (umem_new api libc prof area cons_descs prod_descs w1) = Ret ((um, cq, fq), w2)"
    and k: "expect (socket_new api libc um (o_link_name opt) (o_link_channel opt) cons_descs
          prod_descs ?opts w2) = Ret ((skt, rx, tx), w3)"
    and f: "fq_fill api prof fq bs ?n w3 = Ret (Ok ?n, v, w4)"
    and s: "s = \<lparr>lp_bufs = v, lp_queues = [dq_new dq],
        lp_ports = [\<lparr>p_cq = cq, p_fq = fq, p_rx = rx, p_tx = tx, fq_deficit = 0\<rparr>],
        lp_stats = [stats_default], lp_mem = m, lp_world = w4\<rparr>"
    by (auto simp: l1_setup_def bnd_Ret_iff Let_def case_result_Ret_iff split: if_split_asm)
  note k1 = area_new_keeps [OF a w(1) size]
  note k2 = umem_new_keeps [OF u conjunct1 [OF k1]]
  then have "ok w2" by simp
  note k3 = socket_new_keeps [OF k this]
  have nt: "?n < 2 ^ 64" using unat_u32_lt [of prod_descs] by simp
  have kp: "ok w3" "held w3 = held w1" "\<forall>q. window q w3 = window q w1" using k2 k3 by simp_all
  have st: "ma_wf area" "buf_num area = o_bufnum opt" "buf_len area = o_bufsize opt"
    "own_inv ok held window dq_ok queued area (app_start dq bs 1 0 w3)"
    using area_start [OF a len size w kp, of 1] by auto
  have "own_inv ok held window dq_ok queued area
      ((app_start dq bs 1 0 w3)\<lparr>a_vecs := (a_vecs (app_start dq bs 1 0 w3))[0 := v], a_world := w4\<rparr>)"
    by (rule fill_keeps_inv [OF st(4), where fq = fq and n = ?n and prof = prof and r = "Ok ?n"])
      (use st(3) len k2 f nt in \<open>simp_all add: app_start_def\<close>)
  then have own: "own_inv ok held window dq_ok queued area (loop_app s)"
    by (simp add: app_start_def s loop_app_def)
  have env: "env_ok kind area (loop_env s)" using k2 k3 by (simp add: env_ok_def loop_env_def s)
  have "vec_wf bs" "\<forall>p. snd (window p w3) = 0" using st(4) by (auto simp: own_inv_def app_start_def)
  with fill_exact [OF f disjI1 [OF refl] kp(1) _ _ nt] k2
  have "?n \<le> length (items bs)" "held w4 = held w3 + owned (drop (length (items bs) - ?n) (items bs))"
    by auto
  then have "size (held (lp_world s)) = ?n" using k1 kp(2) w(2) by (simp add: s)
  moreover have "deficit_ok s" "flow_ok queued (\<lambda>p. p) s" "rx_packets (lp_stats s ! 0) = 0"
    using new_deque by (simp_all add: s deficit_ok_def flow_ok_def stats_default_def)
  moreover have "length (lp_ports s) = 1" by (simp add: s)
  ultimately show ?thesis using st(1-3) own env by (auto simp: loop_inv_def)
qed

end

context xsk_setup
begin

lemma l2_setup_inv:
  assumes st: "l2_setup api libc prof dq dflt rlimit_ok opt m w = Ret (pos, s)"
    and len: "256 \<le> t_bufsize opt" and size: "t_bufnum opt * t_bufsize opt < 2 ^ 64"
    and w: "ok w" "held w = {#}" "\<forall>r. snd (window r w) = 0"
  shows "\<exists>area. ma_wf area \<and> buf_num area = t_bufnum opt \<and> buf_len area = t_bufsize opt
     \<and> loop_inv ok held kind window dq_ok queued area s \<and> flow_ok queued (\<lambda>p. (p + 1) mod 2) s
     \<and> length (lp_ports s) = 2 \<and> pos = 0 \<and> (\<forall>p < 2. rx_packets (lp_stats s ! p) = 0)
     \<and> size (held (lp_world s)) = 2 * min (t_bufnum opt div 2) (unat RING_SIZE)"
proof -
  let ?n = "min (t_bufnum opt div 2) (unat RING_SIZE)"
  let ?opts = "socket_options_default\<lparr>zero_copy_mode := t_zero_copy opt, copy_mode := t_copy opt\<rparr>"
  from st obtain area bs w1 um1 cq1 fq1 w2 um2 cq2 fq2 w3 sk1 rx1 tx1 w4 sk2 rx2 tx2 w5 v w6 v' w7 where
    a: "expect (mmap_area_new libc prof dflt (t_bufnum opt) (t_bufsize opt)
          \<lparr>huge_tlb = t_huge_tlb opt\<rparr> w) = Ret ((area, bs), w1)"
    and u1: "expect (umem_new api libc prof area RING_SIZE RING_SIZE w1) = Ret ((um1, cq1, fq1), w2)"
    and u2: "expect (umem_new api libc prof area RING_SIZE RING_SIZE w2) = Ret ((um2, cq2, fq2), w3)"
    and k1: "expect (socket_new api libc um1 (t_link1_name opt) (t_link1_channel opt) RING_SIZE
          RING_SIZE ?opts w3) = Ret ((sk1, rx1, tx1), w4)"
    and k2: "expect (socket_new api libc um2 (t_link2_name opt) (t_link2_channel opt) RING_SIZE
          RING_SIZE ?opts w4) = Ret ((sk2, rx2, tx2), w5)"
    and f1: "initial_fill api prof fq1 bs ?n w5 = Ret (v, w6)"
    and f2: "initial_fill api prof fq2 v ?n w6 = Ret (v', w7)"
    and s: "pos = 0" "s = \<lparr>lp_bufs = v', lp_queues = [dq_new dq, dq_new dq],
        lp_ports = [\<lparr>p_cq = cq1, p_fq = fq1, p_rx = rx1, p_tx = tx1, fq_deficit = 0\<rparr>,
                    \<lparr>p_cq = cq2, p_fq = fq2, p_rx = rx2, p_tx = tx2, fq_deficit = 0\<rparr>],
        lp_stats = [stats_default, stats_default], lp_mem = m, lp_world = w7\<rparr>"
    by (auto simp: l2_setup_def bnd_Ret_iff Let_def split: if_split_asm)
  note c1 = area_new_keeps [OF a w(1) size]
  note c2 = umem_new_keeps [OF u1 conjunct1 [OF c1]]
  then have o2: "ok w2" by simp
  note c3 = umem_new_keeps [OF u2 o2]
  then have o3: "ok w3" by simp
  note c4 = socket_new_keeps [OF k1 o3]
  then have o4: "ok w4" by simp
  note c5 = socket_new_keeps [OF k2 o4]
  have kp: "ok w5" "held w5 = held w1" "\<forall>q. window q w5 = window q w1" using c2 c3 c4 c5 by simp_all
  have nt: "?n < 2 ^ 64" using unat_u32_lt [of RING_SIZE] by simp
  let ?s0 = "app_start dq bs 2 0 w5"
  have st: "ma_wf area" "buf_num area = t_bufnum opt" "buf_len area = t_bufsize opt"
    "own_inv ok held window dq_ok queued area ?s0"
    using area_start [OF a len size w kp, of 2] by auto
  have ma: "256 \<le> buf_len area" using len st(3) by simp
  let ?s1 = "?s0\<lparr>a_vecs := (a_vecs ?s0)[0 := v], a_world := w6\<rparr>"
  have "initial_fill api prof fq1 (a_vecs ?s0 ! 0) ?n (a_world ?s0) = Ret (v, w6)"
    "kind (fq_ring fq1) = Fill" "0 < length (a_vecs ?s0)"
    using f1 c2 by (simp_all add: app_start_def)
  note g1 = initial_fill_keeps [OF this(1) st(4) ma this(2,3) nt]
  then have i1: "own_inv ok held window dq_ok queued area ?s1" by simp
  have "initial_fill api prof fq2 (a_vecs ?s1 ! 0) ?n (a_world ?s1) = Ret (v', w7)"
    "kind (fq_ring fq2) = Fill" "0 < length (a_vecs ?s1)"
    using f2 c3 by (simp_all add: app_start_def)
  note g2 = initial_fill_keeps [OF this(1) i1 ma this(2,3) nt]
  have own: "own_inv ok held window dq_ok queued area (loop_app s)"
    using conjunct1 [OF g2] by (simp add: app_start_def s loop_app_def numeral_2_eq_2)
  have env: "env_ok kind area (loop_env s)"
    using c2 c3 c4 c5 by (simp add: env_ok_def loop_env_def s)
  have "size (held (lp_world s)) = 2 * ?n"
    using g1 g2 c1 kp(2) w(2) by (simp add: s app_start_def)
  moreover have "deficit_ok s" "flow_ok queued (\<lambda>p. (p + 1) mod 2) s"
    "\<forall>p < 2. rx_packets (lp_stats s ! p) = 0"
    using new_deque by (simp_all add: s deficit_ok_def flow_ok_def stats_default_def All_less_Suc
        numeral_2_eq_2)
  moreover have "length (lp_ports s) = 2" by (simp add: s)
  ultimately show ?thesis using st(1-3) own env s(1) by (auto simp: loop_inv_def)
qed

end

section \<open>How far the counters can get\<close>

lemma fill_phase_rx:
  assumes "fill_phase api prof threshold pos s = Ret s'"
  shows "rx_packets (lp_stats s' ! i) = rx_packets (lp_stats s ! i)"
  using assms
  by (cases "i = pos \<and> pos < length (lp_stats s)")
    (auto simp: fill_phase_def Let_def bnd_Ret_iff case_result_Ret_iff nth_list_update_if split: if_split_asm)

lemma service_phase_rx:
  assumes "service_phase api prof dflt n pos s = Ret s'"
  shows "rx_packets (lp_stats s' ! i) = rx_packets (lp_stats s ! i)"
  using service_phase_effect [OF assms] by (auto simp: nth_list_update_if)

lemma forward_phase_rx:
  assumes "forward_phase api libc prof dq n pos other s = Ret s'"
  shows "rx_packets (lp_stats s' ! i) = rx_packets (lp_stats s ! i)"
  using assms
  by (auto simp: forward_phase_def Let_def bnd_Ret_iff case_result_Ret_iff nth_list_update_if)

context xsk_link
begin

lemma recv_phase_rx:
  assumes rc: "recv_phase api libc prof dq hook n custom pos s = Ret s'"
    and inv: "loop_inv ok held kind window dq_ok queued area s" and ma: "256 \<le> buf_len area"
    and pos: "pos < length (lp_ports s)" and room: "rx_packets (lp_stats s ! pos) + PENDING_LEN < 2 ^ 64"
  shows "rx_packets (lp_stats s' ! i) \<le> rx_packets (lp_stats s ! i) + PENDING_LEN"
proof -
  have i: "own_inv ok held window dq_ok queued area (loop_app s)" "env_ok kind area (loop_env s)"
    "deficit_ok s" using inv by (simp_all add: loop_inv_def)
  obtain k q where k: "lp_queues s' = (lp_queues s)[pos := q]"
    "length (queued q) = length (queued (lp_queues s ! pos)) + k"
    "lp_stats s' = (lp_stats s)[pos := (lp_stats s ! pos)\<lparr>rx_packets := rx_packets (lp_stats s ! pos) + k\<rparr>]"
    using recv_phase_effect [OF rc i(1,2) ma i(3) pos room] by auto
  have "own_inv ok held window dq_ok queued area (loop_app s')"
    using recv_phase_inv [OF rc inv ma pos room] by (auto simp: loop_inv_def)
  moreover have "q \<in> set (lp_queues s')" using k(1) i(3) pos by (auto simp: deficit_ok_def set_update_memI)
  ultimately have "dq_ok q" by (auto simp: own_inv_def loop_app_def)
  then have "k \<le> PENDING_LEN" using queued_bound [of q] k(2) by simp
  then show ?thesis by (simp add: k(3) nth_list_update_if)
qed

lemma phases_rx:
  assumes inv: "loop_inv ok held kind window dq_ok queued area s"
    and ma: "256 \<le> buf_len area" and pos: "pos < length (lp_ports s)"
    and room: "rx_packets (lp_stats s ! pos) + PENDING_LEN < 2 ^ 64" and n: "n1 < 2 ^ 64"
    and body: "phases api libc prof dq custom hook n1 n2 threshold pos other s = Ret s'"
  shows "rx_packets (lp_stats s' ! i) \<le> rx_packets (lp_stats s ! i) + PENDING_LEN"
proof -
  from body obtain s1 s2 s3 where s: "service_phase api prof custom n1 pos s = Ret s1"
    "recv_phase api libc prof dq hook n2 custom pos s1 = Ret s2"
    "forward_phase api libc prof dq n2 pos other s2 = Ret s3"
    "fill_phase api prof threshold pos s3 = Ret s'"
    by (auto simp: bnd_Ret_iff)
  have i1: "loop_inv ok held kind window dq_ok queued area s1" "pos < length (lp_ports s1)"
    "rx_packets (lp_stats s1 ! pos) + PENDING_LEN < 2 ^ 64"
    using service_phase_inv [OF s(1) inv ma pos n] pos room by auto
  from recv_phase_rx [OF s(2) i1(1) ma i1(2,3)] show ?thesis
    by (simp add: fill_phase_rx [OF s(4)] forward_phase_rx [OF s(3)] service_phase_rx [OF s(1)])
qed

end

section \<open>Whole programs\<close>

text \<open>The invariant of a run after \<open>k\<close> iterations.\<close>

definition run_inv :: "('w \<Rightarrow> bool) \<Rightarrow> ('w \<Rightarrow> u64 multiset) \<Rightarrow> ('r \<Rightarrow> ring_kind)
    \<Rightarrow> ('r \<Rightarrow> 'w \<Rightarrow> u32 \<times> nat) \<Rightarrow> ('q \<Rightarrow> bool) \<Rightarrow> ('q \<Rightarrow> 'u buf_mmap list) \<Rightarrow> mmap_area
    \<Rightarrow> (nat \<Rightarrow> nat) \<Rightarrow> nat \<Rightarrow> nat \<Rightarrow> ('r, 'u, 'q, 'w) loop \<Rightarrow> bool" where
  "run_inv ok held kind window dq_ok queued area out ports k s \<longleftrightarrow>
     loop_inv ok held kind window dq_ok queued area s \<and> flow_ok queued out s
     \<and> length (lp_ports s) = ports \<and> (\<forall>p < ports. rx_packets (lp_stats s ! p) \<le> k * PENDING_LEN)"

lemma run_room:
  "run_inv ok held kind window dq_ok queued area out ports k s \<Longrightarrow> p < ports \<Longrightarrow> Suc k * PENDING_LEN < 2 ^ 64 \<Longrightarrow>
   rx_packets (lp_stats s ! p) + PENDING_LEN < 2 ^ 64"
  by (fastforce simp: run_inv_def)

lemma Suc_k_room: "k < n \<Longrightarrow> n * PENDING_LEN < 2 ^ 64 \<Longrightarrow> Suc k * PENDING_LEN < 2 ^ 64"
  by (meson Suc_leI le_less_trans mult_le_mono1)

abbreviation peer :: "nat \<Rightarrow> nat" where
  "peer p \<equiv> (p + 1) mod 2"

lemma inj_peer: "inj_on peer {..<2}"
  by (simp add: numeral_2_eq_2 lessThan_Suc)

context xsk_link
begin

lemma run_inv_phases:
  assumes run: "run_inv ok held kind window dq_ok queued area out ports k s" and "256 \<le> buf_len area"
    and pos: "pos < ports" and inj: "inj_on out {..<ports}" and room: "Suc k * PENDING_LEN < 2 ^ 64"
    and n: "n1 < 2 ^ 64"
    and body: "phases api libc prof dq custom hook n1 n2 threshold pos (out pos) s = Ret s'"
  shows "run_inv ok held kind window dq_ok queued area out ports (Suc k) s'"
proof -
  note r = run_room [OF run pos room]
  from run have i: "loop_inv ok held kind window dq_ok queued area s" "flow_ok queued out s"
    "pos < length (lp_ports s)" "inj_on out {..<length (lp_ports s)}" "length (lp_ports s) = ports"
    using pos inj by (simp_all add: run_inv_def)
  have "rx_packets (lp_stats s' ! p) \<le> Suc k * PENDING_LEN" if "p < ports" for p
    using phases_rx [OF i(1) assms(2) i(3) r n body, of p] run that by (fastforce simp: run_inv_def)
  then show ?thesis
    using phases_inv [where out = out, OF i(1,2) assms(2) i(3,4) r n body] i(5) by (simp add: run_inv_def)
qed

lemma run_inv_outcome:
  assumes run: "run_inv ok held kind window dq_ok queued area out ports k s" and "ma_wf area"
    and "268 \<le> buf_len area" and pos: "pos < ports" and inj: "inj_on out {..<ports}"
    and room: "Suc k * PENDING_LEN < 2 ^ 64" and n: "n1 < 2 ^ 64"
    and hook: "hook = swap_macs \<or> hook = (\<lambda>_. Ret)"
  shows "(\<exists>s'. phases api libc Release dq custom hook n1 n2 threshold pos (out pos) s = Ret s')
     \<or> phases api libc Release dq custom hook n1 n2 threshold pos (out pos) s = Panic ExplicitPanic
       \<and> (\<exists>t v. wakeup_if_required api libc t v = Panic ExplicitPanic)"
proof -
  have i: "loop_inv ok held kind window dq_ok queued area s" "flow_ok queued out s"
    "pos < length (lp_ports s)" "inj_on out {..<length (lp_ports s)}"
    using run pos inj by (simp_all add: run_inv_def)
  show ?thesis
    by (rule phases_outcome [where out = out, OF i(1,2) assms(2,3) i(3,4) run_room [OF run pos room] n hook])
qed

text \<open>What the invariant says of the buffers of a loop, and of its counters.\<close>

lemma loop_inv_safe:
  assumes "loop_inv ok held kind window dq_ok queued area s" and "ma_wf area"
  shows "owned (live_bufs queued (loop_app s)) + held (lp_world s) = mset (frame_addrs area)
     \<and> apart (live_bufs queued (loop_app s))"
proof -
  have own: "own_inv ok held window dq_ok queued area (loop_app s)"
    using assms(1) by (simp add: loop_inv_def)
  moreover have "a_world (loop_app s) = lp_world s" by (simp add: loop_app_def)
  ultimately have "owned (live_bufs queued (loop_app s)) + held (lp_world s) = mset (frame_addrs area)"
    by (simp add: own_inv_def)
  moreover have "apart (live_bufs queued (loop_app s))"
    unfolding sorted_wrt_iff_nth_less using own_inv_live_disjoint [OF own assms(2)] by simp
  ultimately show ?thesis ..
qed

end

context xsk_setup
begin

lemma l1_run_start:
  assumes "l1_setup api libc prof dq dflt rlimit_ok cons_descs prod_descs opt m w = Ret s"
    and "256 \<le> o_bufsize opt" and "o_bufnum opt * o_bufsize opt < 2 ^ 64"
    and "ok w" and "held w = {#}" and "\<forall>r. snd (window r w) = 0"
  shows "\<exists>area. ma_wf area \<and> buf_num area = o_bufnum opt \<and> buf_len area = o_bufsize opt
     \<and> run_inv ok held kind window dq_ok queued area (\<lambda>p. p) 1 0 s"
  using l1_setup_inv [OF assms] by (auto simp: run_inv_def)

lemma l1_run_step:
  assumes "run_inv ok held kind window dq_ok queued area (\<lambda>p. p) 1 k s" and "256 \<le> buf_len area"
    and "Suc k * PENDING_LEN < 2 ^ 64" and "batch < 2 ^ 64" and "l1_body api libc prof dq dflt batch s = Ret s'"
  shows "run_inv ok held kind window dq_ok queued area (\<lambda>p. p) 1 (Suc k) s'"
  by (rule run_inv_phases [where out = "\<lambda>p. p", OF assms(1,2) _ _ assms(3,4)
        assms(5) [unfolded l1_body_phases]]) simp_all

lemma l2_run_start:
  assumes "l2_setup api libc prof dq dflt rlimit_ok opt m w = Ret (pos, s)"
    and "256 \<le> t_bufsize opt" and "t_bufnum opt * t_bufsize opt < 2 ^ 64"
    and "ok w" and "held w = {#}" and "\<forall>r. snd (window r w) = 0"
  shows "\<exists>area. ma_wf area \<and> buf_num area = t_bufnum opt \<and> buf_len area = t_bufsize opt
     \<and> run_inv ok held kind window dq_ok queued area peer 2 0 s \<and> pos = 0"
  using l2_setup_inv [OF assms] by (auto simp: run_inv_def)

lemma l2_run_step:
  assumes "run_inv ok held kind window dq_ok queued area peer 2 k s" and "256 \<le> buf_len area"
    and "pos < 2" and "Suc k * PENDING_LEN < 2 ^ 64" and "l2_body api libc prof dq dflt (pos, s) = Ret (pos', s')"
  shows "run_inv ok held kind window dq_ok queued area peer 2 (Suc k) s' \<and> pos' = peer pos \<and> pos' < 2"
proof -
  have n: "SERVICE_BATCH_SIZE < 2 ^ 64" by (simp add: SERVICE_BATCH_SIZE_def)
  obtain t where t: "phases api libc prof dq dflt (\<lambda>_. Ret) SERVICE_BATCH_SIZE SOCKET_BATCH_SIZE
      FILL_THRESHOLD pos (peer pos) s = Ret t" and "Ret (peer pos, t) = Ret (pos', s')"
    using assms(5) unfolding l2_body_phases by (rule bnd_RetE)
  then have e: "t = s'" "pos' = peer pos" by simp_all
  then show ?thesis using run_inv_phases [where out = peer, OF assms(1-3) inj_peer assms(4) n t] by simp
qed

end

lemma l1_run_outcome:
  assumes "xsk_setup api ok held kind window staged libc dq dq_ok queued"
    and "268 \<le> o_bufsize opt" and "o_bufnum opt * o_bufsize opt < 2 ^ 64" and "o_batch_size opt < 2 ^ 64"
    and "ok w" and "held w = {#}" and "\<forall>r. snd (window r w) = 0"
    and "l1_setup api libc Release dq dflt rlimit_ok cons_descs prod_descs opt m w = Ret s0"
    and "n * PENDING_LEN < 2 ^ 64"
  shows "(\<exists>s. loop_run (l1_body api libc Release dq dflt (o_batch_size opt)) n s0 = Ret s)
     \<or> loop_run (l1_body api libc Release dq dflt (o_batch_size opt)) n s0 = Panic ExplicitPanic
       \<and> (\<exists>t v. wakeup_if_required api libc t v = Panic ExplicitPanic)"
proof -
  have "256 \<le> o_bufsize opt" using assms(2) by simp
  then obtain area where a: "ma_wf area" "buf_len area = o_bufsize opt"
    "run_inv ok held kind window dq_ok queued area (\<lambda>p. p) 1 0 s0"
    using xsk_setup.l1_run_start [OF assms(1,8) _ assms(3,5-7)] by blast
  then have l: "256 \<le> buf_len area" "268 \<le> buf_len area" using assms(2) by simp_all
  note link = xsk_setup.axioms(1) [OF assms(1)]
  let ?P = "run_inv ok held kind window dq_ok queued area (\<lambda>p. p) 1"
  let ?body = "l1_body api libc Release dq dflt (o_batch_size opt)"
  let ?Q = "\<exists>t v. wakeup_if_required api libc t v = Panic ExplicitPanic"
  have step: "?P (Suc k) t'" if "?P k t" "k < n" "?body t = Ret t'" for k t t'
    by (rule xsk_setup.l1_run_step [OF assms(1) that(1) l(1) Suc_k_room [OF that(2) assms(9)] assms(4) that(3)])
  have go: "(\<exists>t'. ?body t = Ret t') \<or> ?body t = Panic ExplicitPanic \<and> ?Q"
    if "?P k t" "k < n" for k t
    unfolding l1_body_phases
    by (rule xsk_link.run_inv_outcome [where out = "\<lambda>p. p", OF link that(1) a(1) l(2) _ _
          Suc_k_room [OF that(2) assms(9)] assms(4) disjI1 [OF refl]]) simp_all
  show ?thesis
    by (rule loop_run_progress [where P = ?P and m = n and Q = ?Q, OF a(3) _ step go]) simp
qed

section \<open>The example of the witnesses\<close>

text \<open>The reference kernel with new rings, and eight frames of 2048 bytes.\<close>

definition ex_boot :: "kring_id list \<Rightarrow> kworld" where
  "ex_boot rs = (mk_world (\<lambda>_. []) 0)\<lparr>k_next := rs\<rparr>"

lemma ex_boot_facts:
  "k_ok (ex_boot rs)" "k_held (ex_boot rs) = {#}" "\<forall>r. snd (k_window r (ex_boot rs)) = 0"
  "k_ring (ex_boot rs) r = mk_kring 4 0 []" "k_next (ex_boot rs) = rs"
  "(ex_boot rs)\<lparr>k_next := rs'\<rparr> = ex_boot rs'"
  by (auto simp: ex_boot_def mk_world_held mk_world_window intro: mk_world_ok)

lemma ex_area_new:
  "\<exists>bs :: unit buf_mmap vec. expect (mmap_area_new quiet_libc prof () 8 2048 \<lparr>huge_tlb = False\<rparr> w)
     = Ret ((ex_area, bs), w) \<and> length (items bs) = 8"
  using mmap_area_new_result [where libc = quiet_libc and num = 8 and len = 2048 and w = w and w' = w
      and options = "\<lparr>huge_tlb = False\<rparr>" and p = 65536 and prof = prof and dflt = "()",
      OF xsk_setup.axioms(2) [OF xsk_setup_quiet]]
  by (auto simp: quiet_libc_def ref_libc_def ex_area_def expect_Ret)

lemma ref_umem_new:
  assumes "is_pow_of_two csz" and "is_pow_of_two fsz" and "k_next w = (b, Completion) # (c, Fill) # rs"
    and "buf_num area * buf_len area < 2 ^ 64" and "um = \<lparr>um_area = area, um_ptr = 4096\<rparr>"
  shows "expect (umem_new ref_api quiet_libc prof area csz fsz w)
    = Ret ((um, \<lparr>cq_umem = um, cq_ring = (b, Completion)\<rparr>, \<lparr>fq_umem = um, fq_ring = (c, Fill)\<rparr>),
           w\<lparr>k_next := rs\<rparr>)"
  unfolding expect_Ret using assms
  by (simp add: umem_new_def ref_api_def Let_def usize_mul_ok get_buf_num_def get_buf_len_def)

lemma ref_socket_new:
  assumes "is_pow_of_two rsz" and "is_pow_of_two tsz" and "k_next w = (b, Rx) # (c, Tx) # rs"
    and "so = \<lparr>so_umem = um, so_ptr = 8192, so_if_name = ''link1''\<rparr>"
  shows "expect (socket_new ref_api quiet_libc um ''link1'' q rsz tsz options w)
    = Ret ((so, \<lparr>rx_socket = so, rx_fd = 3, rx_ring = (b, Rx)\<rparr>, \<lparr>tx_socket = so, tx_fd = 3, tx_ring = (c, Tx)\<rparr>),
           w\<lparr>k_next := rs\<rparr>)"
  unfolding expect_Ret using assms
  by (simp add: socket_new_def ref_api_def Let_def cstring_new_def)

lemma ex_umem_new:
  assumes "is_pow_of_two csz" and "is_pow_of_two fsz"
  shows "expect (umem_new ref_api quiet_libc prof ex_area csz fsz (ex_boot ((b, Completion) # (c, Fill) # rs)))
    = Ret ((ex_umem, \<lparr>cq_umem = ex_umem, cq_ring = (b, Completion)\<rparr>,
            \<lparr>fq_umem = ex_umem, fq_ring = (c, Fill)\<rparr>), ex_boot rs)"
  using ref_umem_new [OF assms ex_boot_facts(5), of ex_area ex_umem]
  by (simp add: ex_boot_facts(6) ex_umem_def ex_area_def)

lemma ex_socket_new:
  assumes "is_pow_of_two rsz" and "is_pow_of_two tsz"
  shows "expect (socket_new ref_api quiet_libc ex_umem ''link1'' 0 rsz tsz options
      (ex_boot ((b, Rx) # (c, Tx) # rs)))
    = Ret ((ex_socket, \<lparr>rx_socket = ex_socket, rx_fd = 3, rx_ring = (b, Rx)\<rparr>,
            \<lparr>tx_socket = ex_socket, tx_fd = 3, tx_ring = (c, Tx)\<rparr>), ex_boot rs)"
  using ref_socket_new [OF assms ex_boot_facts(5), of ex_socket ex_umem]
  by (simp add: ex_boot_facts(6) ex_socket_def)

lemma put_fills_ring:
  "q \<noteq> r \<Longrightarrow> k_ring (put_fills ref_api r i as w) q = k_ring w q"
  by (induction as arbitrary: i w) (simp_all add: ref_api_simps)

lemma submit_ring: "q \<noteq> r \<Longrightarrow> k_ring (prod_submit ref_api r n w) q = k_ring w q"
  by (simp add: ref_api_simps)

text \<open>A first fill of \<open>n\<close> buffers succeeds on a new ring of \<open>n\<close> slots.\<close>

lemma ex_fill:
  assumes "k_ring w (b, Fill) = mk_kring (of_nat n) 0 []" and "n \<le> length (items bs)" and "0 < n"
    and "n < 2 ^ 32"
  shows "\<exists>v w'. fq_fill ref_api Release \<lparr>fq_umem = u, fq_ring = (b, Fill)\<rparr> bs n w = Ret (Ok n, v, w')
     \<and> length (items v) = length (items bs) - n \<and> (\<forall>q. q \<noteq> (b, Fill) \<longrightarrow> k_ring w' q = k_ring w q)"
proof -
  let ?f = "\<lparr>fq_umem = u, fq_ring = (b, Fill)\<rparr>"
  have m: "min (length (items bs)) n = n" using assms(2) by simp
  have u: "unat (of_nat n :: u64) = n" "unat (of_nat n :: u32) = n" "(of_nat n :: u64) \<noteq> 0"
    using unat_of_nat_u64 [of n] unat_of_nat_u32 [of n] assms(3,4) by (auto simp: unat_eq_zero [symmetric])
  obtain w1 where w1: "prod_reserve ref_api (fq_ring ?f) (of_nat n) 0 w = (of_nat n, 0, w1)"
    "\<forall>q. q \<noteq> (b, Fill) \<longrightarrow> k_ring w1 q = k_ring w q"
    using assms(1) u by (simp add: ref_api_simps mk_kring_def)
  let ?v = "bs\<lparr>items := take (length (items bs) - n) (items bs)\<rparr>"
  let ?w = "prod_submit ref_api (b, Fill) (of_nat n) (put_fills ref_api (b, Fill) 0
        (map bm_addr (take n (rev (items bs)))) w1)"
  have "fq_fill ref_api Release ?f bs n w = Ret (Ok n, ?v, ?w)"
    using fq_fill_eq [of bs n ref_api ?f w "of_nat n" 0 w1 Release] assms(2,3) w1(1) m u by simp
  moreover have "k_ring ?w q = k_ring w q" if "q \<noteq> (b, Fill)" for q
    using w1(2) [rule_format, OF that] put_fills_ring [OF that] submit_ring [OF that] by metis
  moreover have "length (items ?v) = length (items bs) - n" by simp
  ultimately show ?thesis by blast
qed

definition ex_l1_opt :: l1_opt where
  "ex_l1_opt = \<lparr>o_bufsize = 2048, o_bufnum = 8, o_batch_size = 2, o_link_name = ''link1'',
     o_link_channel = 0, o_huge_tlb = False, o_zero_copy = False, o_copy = False\<rparr>"

abbreviation "ex_l1_setup \<equiv> l1_setup ref_api quiet_libc Release
  (list_deque :: (unit buf_mmap, unit buf_mmap list) deque_api) () True 4 4 ex_l1_opt (\<lambda>_. 0)
  (ex_boot [(False, Completion), (False, Fill), (False, Rx), (False, Tx)])"

lemma ex_l1_setup_returns: "\<exists>s. ex_l1_setup = Ret s"
proof -
  let ?rs = "[(False, Completion), (False, Fill), (False, Rx), (False, Tx)]"
  obtain bs :: "unit buf_mmap vec" where a: "expect (mmap_area_new quiet_libc Release () 8 2048 \<lparr>huge_tlb = False\<rparr> (ex_boot ?rs))
     = Ret ((ex_area, bs), ex_boot ?rs)" "length (items bs) = 8"
    using ex_area_new [of Release "ex_boot ?rs"] by blast
  obtain v w' where "fq_fill ref_api Release \<lparr>fq_umem = ex_umem, fq_ring = (False, Fill)\<rparr> bs 4 (ex_boot [])
      = Ret (Ok 4, v, w')"
    using ex_fill [of "ex_boot []" False 4 bs ex_umem] ex_boot_facts(4) a(2) by auto
  moreover have "is_pow_of_two 4" by (simp add: is_pow_of_two_def)
  ultimately show ?thesis
    using a(1) ex_umem_new [of 4 4] ex_socket_new [of 4 4]
    by (simp add: l1_setup_def ex_l1_opt_def Let_def)
qed

lemma ex_l1_run: "ex_l1_setup = Ret s0 \<Longrightarrow>
  \<exists>s. loop_run (l1_body ref_api quiet_libc Release list_deque () 2) 3 s0 = Ret s"
  using l1_run_outcome [where opt = ex_l1_opt and n = 3, OF xsk_setup_quiet _ _ _ ex_boot_facts(1-3)]
    quiet_wakeup
  by (fastforce simp: ex_l1_opt_def PENDING_LEN_def)

text \<open>
  Property C3. The program \<open>l2fwd-1link\<close> from its first line: started with a kernel that holds no
  frame of it, once its set-up returned and after any number of iterations of its loop, all its
  buffers occupy disjoint memory, every frame is in exactly one place, and its counters balance.
\<close>

theorem l1_program_correct:
  assumes "xsk_setup api ok held kind window staged libc dq dq_ok queued"
    and "256 \<le> o_bufsize opt" and "o_bufnum opt * o_bufsize opt < 2 ^ 64" and "o_batch_size opt < 2 ^ 64"
    and "ok w" and "held w = {#}" and "\<forall>r. snd (window r w) = 0"
    and "l1_setup api libc prof dq dflt rlimit_ok cons_descs prod_descs opt m w = Ret s0"
    and "loop_run (l1_body api libc prof dq dflt (o_batch_size opt)) n s0 = Ret s"
    and "n * PENDING_LEN < 2 ^ 64"
  shows "\<exists>area. ma_wf area \<and> buf_num area = o_bufnum opt \<and> buf_len area = o_bufsize opt
     \<and> apart (live_bufs queued (loop_app s))
     \<and> owned (live_bufs queued (loop_app s)) + held (lp_world s) = mset (frame_addrs area)
     \<and> rx_packets (lp_stats s ! 0) = fq_bufs (lp_stats s ! 0) + fq_deficit (lp_ports s ! 0)
     \<and> rx_packets (lp_stats s ! 0) = tx_packets (lp_stats s ! 0) + length (queued (lp_queues s ! 0))"
proof -
  obtain area where a: "ma_wf area" "buf_num area = o_bufnum opt" "buf_len area = o_bufsize opt"
    "run_inv ok held kind window dq_ok queued area (\<lambda>p. p) 1 0 s0"
    using xsk_setup.l1_run_start [OF assms(1,8,2,3,5-7)] by blast
  have l: "256 \<le> buf_len area" using a(3) assms(2) by simp
  let ?P = "run_inv ok held kind window dq_ok queued area (\<lambda>p. p) 1"
  have "?P (Suc k) t'" if "?P k t" "k < n" "l1_body api libc prof dq dflt (o_batch_size opt) t = Ret t'"
    for k t t'
    by (rule xsk_setup.l1_run_step [OF assms(1) that(1) l Suc_k_room [OF that(2) assms(10)] assms(4) that(3)])
  from loop_run_inv [where P = ?P and m = n, OF assms(9) a(4) _ this]
  have "?P (0 + n) s" by simp
  then have "loop_inv ok held kind window dq_ok queued area s" "flow_ok queued (\<lambda>p. p) s"
    "length (lp_ports s) = 1" by (simp_all add: run_inv_def)
  then show ?thesis
    using a(1-3) xsk_link.loop_inv_safe [OF xsk_setup.axioms(1) [OF assms(1)] _ a(1)]
    by (auto simp: loop_inv_def deficit_ok_def flow_ok_def)
qed

theorem l1_program_correct_witness:
  "\<exists>s0 s. ex_l1_setup = Ret s0 \<and> loop_run (l1_body ref_api quiet_libc Release list_deque () 2) 3 s0 = Ret s
     \<and> (\<exists>area. buf_num area = 8 \<and> owned (live_bufs (\<lambda>q. q) (loop_app s)) + k_held (lp_world s)
              = mset (frame_addrs area))"
proof -
  obtain s0 where s0: "ex_l1_setup = Ret s0" using ex_l1_setup_returns by blast
  then obtain s where s: "loop_run (l1_body ref_api quiet_libc Release list_deque () 2) 3 s0 = Ret s"
    using ex_l1_run by blast
  have o: "256 \<le> o_bufsize ex_l1_opt" "o_bufnum ex_l1_opt * o_bufsize ex_l1_opt < 2 ^ 64"
    "o_batch_size ex_l1_opt < 2 ^ 64" "o_batch_size ex_l1_opt = 2" "o_bufnum ex_l1_opt = 8"
    "3 * PENDING_LEN < 2 ^ 64"
    by (simp_all add: ex_l1_opt_def PENDING_LEN_def)
  from l1_program_correct [OF xsk_setup_quiet o(1-3) ex_boot_facts(1-3) s0 _ o(6), of s] s o(4,5)
  show ?thesis using s0 by auto
qed

text \<open>
  Property C13. In a release build that program never fails after its set-up: with frames of at
  least 268 bytes every number of iterations completes, unless the kernel refuses a wake-up with an
  error the crate does not expect.
\<close>

theorem l1_program_returns:
  assumes "xsk_setup api ok held kind window staged libc dq dq_ok queued"
    and "268 \<le> o_bufsize opt" and "o_bufnum opt * o_bufsize opt < 2 ^ 64" and "o_batch_size opt < 2 ^ 64"
    and "ok w" and "held w = {#}" and "\<forall>r. snd (window r w) = 0"
    and "l1_setup api libc Release dq dflt rlimit_ok cons_descs prod_descs opt m w = Ret s0"
    and "n * PENDING_LEN < 2 ^ 64"
  shows "(\<exists>s. loop_run (l1_body api libc Release dq dflt (o_batch_size opt)) n s0 = Ret s)
     \<or> loop_run (l1_body api libc Release dq dflt (o_batch_size opt)) n s0 = Panic ExplicitPanic
       \<and> (\<exists>t v. wakeup_if_required api libc t v = Panic ExplicitPanic)"
  by (rule l1_run_outcome [OF assms])

theorem l1_program_returns_witness:
  "\<exists>s0 s. ex_l1_setup = Ret s0 \<and> loop_run (l1_body ref_api quiet_libc Release list_deque () 2) 1000 s0 = Ret s"
proof -
  obtain s0 where s0: "ex_l1_setup = Ret s0" using ex_l1_setup_returns by blast
  have o: "268 \<le> o_bufsize ex_l1_opt" "o_bufnum ex_l1_opt * o_bufsize ex_l1_opt < 2 ^ 64"
    "o_batch_size ex_l1_opt < 2 ^ 64" "o_batch_size ex_l1_opt = 2" "1000 * PENDING_LEN < 2 ^ 64"
    by (simp_all add: ex_l1_opt_def PENDING_LEN_def)
  from l1_program_returns [OF xsk_setup_quiet o(1-3) ex_boot_facts(1-3) s0 o(5)] quiet_wakeup
  show ?thesis using s0 unfolding o(4) by blast
qed

definition ex_l2_opt :: l2_opt where
  "ex_l2_opt = \<lparr>t_bufsize = 2048, t_bufnum = 8, t_link1_name = ''link1'', t_link1_channel = 0,
     t_link2_name = ''link1'', t_link2_channel = 0, t_huge_tlb = False, t_zero_copy = False,
     t_copy = False\<rparr>"

abbreviation "ex_l2_setup \<equiv> l2_setup ref_api quiet_libc Release
  (list_deque :: (unit buf_mmap, unit buf_mmap list) deque_api) () True ex_l2_opt (\<lambda>_. 0)
  (ex_boot [(False, Completion), (False, Fill), (True, Completion), (True, Fill),
            (False, Rx), (False, Tx), (True, Rx), (True, Tx)])"

lemma ex_l2_setup_returns: "\<exists>s. ex_l2_setup = Ret (0, s)"
proof -
  let ?rs = "[(False, Completion), (False, Fill), (True, Completion), (True, Fill),
            (False, Rx), (False, Tx), (True, Rx), (True, Tx)]"
  obtain bs :: "unit buf_mmap vec" where a: "expect (mmap_area_new quiet_libc Release () 8 2048
     \<lparr>huge_tlb = False\<rparr> (ex_boot ?rs)) = Ret ((ex_area, bs), ex_boot ?rs)" "length (items bs) = 8"
    using ex_area_new [of Release "ex_boot ?rs"] by blast
  have p: "is_pow_of_two RING_SIZE" by (simp add: is_pow_of_two_def RING_SIZE_def)
  obtain v w where f1: "fq_fill ref_api Release \<lparr>fq_umem = ex_umem, fq_ring = (False, Fill)\<rparr> bs 4 (ex_boot [])
      = Ret (Ok 4, v, w)" "length (items v) = 4" "k_ring w (True, Fill) = mk_kring 4 0 []"
    using ex_fill [of "ex_boot []" False 4 bs ex_umem] ex_boot_facts(4) a(2) by auto
  obtain v' w' where f2: "fq_fill ref_api Release \<lparr>fq_umem = ex_umem, fq_ring = (True, Fill)\<rparr> v 4 w
      = Ret (Ok 4, v', w')"
    using ex_fill [of w True 4 v ex_umem] f1(2,3) by auto
  show ?thesis
    using a(1) ex_umem_new [OF p p] ex_socket_new [OF p p] f1(1) f2
    by (simp add: l2_setup_def ex_l2_opt_def Let_def initial_fill_def) (simp add: RING_SIZE_def)
qed

lemma ex_l2_run: "ex_l2_setup = Ret (0, s0) \<Longrightarrow>
  \<exists>s. loop_run (l2_body ref_api quiet_libc Release list_deque ()) 1 (0, s0) = Ret (1, s)"
proof -
  assume s0: "ex_l2_setup = Ret (0, s0)"
  have o: "256 \<le> t_bufsize ex_l2_opt" "t_bufnum ex_l2_opt * t_bufsize ex_l2_opt < 2 ^ 64"
    by (simp_all add: ex_l2_opt_def)
  obtain area where a: "ma_wf area" "buf_len area = t_bufsize ex_l2_opt"
    "run_inv k_ok k_held snd k_window (\<lambda>q. length q \<le> PENDING_LEN) (\<lambda>q. q) area peer 2 0 s0"
    using quietsetup.l2_run_start [OF s0 o ex_boot_facts(1-3)] by blast
  have c: "268 \<le> buf_len area" "(0::nat) < 2" "Suc 0 * PENDING_LEN < 2 ^ 64" "SERVICE_BATCH_SIZE < 2 ^ 64"
    by (simp_all add: a(2) ex_l2_opt_def PENDING_LEN_def SERVICE_BATCH_SIZE_def)
  obtain s where "phases ref_api quiet_libc Release list_deque () (\<lambda>_. Ret) SERVICE_BATCH_SIZE
      SOCKET_BATCH_SIZE FILL_THRESHOLD 0 (peer 0) s0 = Ret s"
    using quietlink.run_inv_outcome [where out = peer, OF a(3,1) c(1,2) inj_peer c(3,4) disjI2 [OF refl]]
      quiet_wakeup by blast
  then show ?thesis by (simp add: l2_body_phases)
qed

text \<open>
  Property C4. The program \<open>l2fwd-2link\<close> from its first line, with two umems and two sockets on one
  area: the same holds after any number of iterations, and the packets received on one link are
  those sent on the other and those pending.
\<close>

theorem l2_program_correct:
  assumes "xsk_setup api ok held kind window staged libc dq dq_ok queued"
    and "256 \<le> t_bufsize opt" and "t_bufnum opt * t_bufsize opt < 2 ^ 64"
    and "ok w" and "held w = {#}" and "\<forall>r. snd (window r w) = 0"
    and "l2_setup api libc prof dq dflt rlimit_ok opt m w = Ret s0"
    and "loop_run (l2_body api libc prof dq dflt) n s0 = Ret (pos, s)"
    and "n * PENDING_LEN < 2 ^ 64"
  shows "pos = n mod 2 \<and> (\<exists>area. ma_wf area \<and> buf_num area = t_bufnum opt \<and> buf_len area = t_bufsize opt
     \<and> apart (live_bufs queued (loop_app s))
     \<and> owned (live_bufs queued (loop_app s)) + held (lp_world s) = mset (frame_addrs area)
     \<and> (\<forall>p < 2. rx_packets (lp_stats s ! p) = fq_bufs (lp_stats s ! p) + fq_deficit (lp_ports s ! p)
           \<and> rx_packets (lp_stats s ! p)
             = tx_packets (lp_stats s ! ((p + 1) mod 2)) + length (queued (lp_queues s ! p))))"
proof -
  let ?P = "\<lambda>area k (p, s). run_inv ok held kind window dq_ok queued area peer 2 k s \<and> p = k mod 2"
  obtain p0 t0 where s0: "s0 = (p0, t0)" by (cases s0)
  obtain area where a: "ma_wf area" "buf_num area = t_bufnum opt" "buf_len area = t_bufsize opt"
    "?P area 0 s0"
    using xsk_setup.l2_run_start [OF assms(1) _ assms(2-6)] assms(7) unfolding s0 by fastforce
  have l: "256 \<le> buf_len area" using a(3) assms(2) by simp
  have step: "?P area (Suc k) t'"
    if t: "?P area k t" and k: "k < n" and body: "l2_body api libc prof dq dflt t = Ret t'" for k t t'
  proof -
    obtain p u p' u' where e: "t = (p, u)" "t' = (p', u')" by (cases t; cases t')
    have p: "run_inv ok held kind window dq_ok queued area peer 2 k u" "p = k mod 2" "p < 2"
      using t by (simp_all add: e)
    have "run_inv ok held kind window dq_ok queued area peer 2 (Suc k) u' \<and> p' = peer p \<and> p' < 2"
      by (rule xsk_setup.l2_run_step [OF assms(1) p(1) l p(3) Suc_k_room [OF k assms(9)]
            body [unfolded e]])
    then show ?thesis by (simp add: e p(2) mod_Suc_eq)
  qed
  from loop_run_inv [where P = "?P area" and m = n, OF assms(8) a(4) _ step]
  have "?P area (0 + n) (pos, s)" by simp
  then have i: "loop_inv ok held kind window dq_ok queued area s" "flow_ok queued peer s"
    "length (lp_ports s) = 2" "pos = n mod 2" by (simp_all add: run_inv_def)
  then show ?thesis
    using a(1-3) xsk_link.loop_inv_safe [OF xsk_setup.axioms(1) [OF assms(1)] i(1) a(1)]
    by (auto simp: loop_inv_def deficit_ok_def flow_ok_def)
qed

theorem l2_program_correct_witness:
  "\<exists>s0 s. ex_l2_setup = Ret (0, s0)
     \<and> loop_run (l2_body ref_api quiet_libc Release list_deque ()) 1 (0, s0) = Ret (1, s)
     \<and> (\<exists>area. buf_num area = 8 \<and> owned (live_bufs (\<lambda>q. q) (loop_app s)) + k_held (lp_world s)
              = mset (frame_addrs area))"
proof -
  obtain s0 where s0: "ex_l2_setup = Ret (0, s0)" using ex_l2_setup_returns by blast
  then obtain s where s: "loop_run (l2_body ref_api quiet_libc Release list_deque ()) 1 (0, s0) = Ret (1, s)"
    using ex_l2_run by blast
  have o: "256 \<le> t_bufsize ex_l2_opt" "t_bufnum ex_l2_opt * t_bufsize ex_l2_opt < 2 ^ 64"
    "t_bufnum ex_l2_opt = 8" "1 * PENDING_LEN < 2 ^ 64"
    by (simp_all add: ex_l2_opt_def PENDING_LEN_def)
  from l2_program_correct [OF xsk_setup_quiet o(1,2) ex_boot_facts(1-3) s0 s o(4)] o(3)
  show ?thesis using s0 s by auto
qed

end
