(* ===== verification/Live_Kernel.thy ===== *)
theory Live_Kernel
  imports Setup
begin

text \<open>
  The kernel of \<open>Reference_Kernel\<close> that works: on \<open>poll\<close> it turns the frames of the fill rings into
  received packets of 60 bytes, on \<open>sendto\<close> it completes what the tx rings hold. It is no model of
  code of this repository either, but an environment in which packets arrive and leave, so that the
  statements about whole programs are seen on runs that forward.
\<close>

section \<open>Moving a frame from one ring to another\<close>

definition k_move :: "kring_id \<Rightarrow> kring_id \<Rightarrow> (xdp_desc \<Rightarrow> xdp_desc) \<Rightarrow> kworld \<Rightarrow> kworld" where
  "k_move src dst f w =
     (let a = k_ring w src; b = k_ring w dst in
      if kr_prod a = kr_cons a \<or> unat (kr_size b) \<le> unat (kr_prod b - kr_cons b) then w
      else set_ring dst (b\<lparr>kr_mem := (kr_mem b)(kr_slot b (kr_prod b) := f (kr_mem a (kr_slot a (kr_cons a)))),
                           kr_prod := kr_prod b + 1\<rparr>)
             (set_ring src (a\<lparr>kr_cons := kr_cons a + 1\<rparr>) w))"

text \<open>The kernel takes the oldest entry of a producer ring.\<close>

lemma kring_ok_take:
  assumes ok: "kring_ok kd k" and kd: "kd \<in> {Fill, Tx}" and ne: "kr_prod k \<noteq> kr_cons k"
  shows "kr_entries k = kr_mem k (kr_slot k (kr_cons k)) # kr_entries (k\<lparr>kr_cons := kr_cons k + 1\<rparr>)"
    and "kring_ok kd (k\<lparr>kr_cons := kr_cons k + 1\<rparr>)"
    and "kr_window kd (k\<lparr>kr_cons := kr_cons k + 1\<rparr>) = kr_window kd k"
proof -
  have pos: "1 \<le> unat (kr_prod k - kr_cons k)"
    using ne dist_0_iff [of "kr_prod k" "kr_cons k"] by linarith
  then show "kr_entries k = kr_mem k (kr_slot k (kr_cons k)) # kr_entries (k\<lparr>kr_cons := kr_cons k + 1\<rparr>)"
    using kr_entries_release [OF pos] by simp
  have one: "unat (q - (kr_cons k + 1)) = unat (q - kr_cons k) - 1"
    if "1 \<le> unat (q - kr_cons k)" for q
    using dist_diff [of "kr_cons k + 1" "kr_cons k" q] that dist_self [of 1 "kr_cons k"] by simp
  have "1 \<le> unat (kr_cprod k - kr_cons k)" using ok kd pos by (auto simp: kring_ok_def)
  then show "kring_ok kd (k\<lparr>kr_cons := kr_cons k + 1\<rparr>)"
    using ok kd one [OF pos] one [of "kr_cprod k"] by (auto simp: kring_ok_def)
  show "kr_window kd (k\<lparr>kr_cons := kr_cons k + 1\<rparr>) = kr_window kd k"
    using kd by (auto simp: kr_window_def)
qed

text \<open>It adds an entry to a consumer ring that has room.\<close>

lemma kring_ok_give:
  assumes ok: "kring_ok kd k" and kd: "kd \<in> {Completion, Rx}"
    and room: "unat (kr_prod k - kr_cons k) < unat (kr_size k)" and len: "unat (desc_len d) < 2 ^ 16"
  defines "k' \<equiv> k\<lparr>kr_mem := (kr_mem k)(kr_slot k (kr_prod k) := d), kr_prod := kr_prod k + 1\<rparr>"
  shows "kr_entries k' = kr_entries k @ [d]" and "kring_ok kd k'" and "kr_window kd k' = kr_window kd k"
proof -
  let ?n = "unat (kr_prod k - kr_cons k)"
  let ?m = "k\<lparr>kr_mem := (kr_mem k)(kr_slot k (kr_prod k) := d)\<rparr>"
  have pow: "is_pow_of_two (kr_size k)" using ok by (simp add: kring_ok_def)
  have n: "?n < unat (kr_size k)" using room .
  then have lt: "?n + 1 < 2 ^ 32" using unat_u32_lt [of "kr_size k"] by linarith
  have "kr_slot k (kr_cons k + of_nat j) \<noteq> kr_slot k (kr_prod k)" if "j < ?n" for j
  proof
    assume "kr_slot k (kr_cons k + of_nat j) = kr_slot k (kr_prod k)"
    then have "kr_slot k (kr_cons k + of_nat j) = kr_slot k (kr_cons k + of_nat ?n)" by simp
    then have "j = ?n" using that n unfolding kr_slot_def
      by (intro mask_index_inj [OF pow, of _ _ "kr_cons k"]) auto
    with that show False by simp
  qed
  then have same: "kr_entries ?m = kr_entries k" by (simp add: kr_entries_def kr_slot_def)
  have e: "kr_entries k' = kr_entries ?m @ [d]"
    using kr_entries_submit [of ?m 1] lt by (simp add: k'_def kr_slot_def)
  then show ents: "kr_entries k' = kr_entries k @ [d]" using same by simp
  have dist: "unat (kr_prod k + 1 - kr_cons k) = ?n + 1"
    using dist_add [of "kr_prod k" "kr_cons k" 1] lt by simp
  show "kring_ok kd k'"
    using ok kd n len unfolding kring_ok_def ents by (auto simp: k'_def dist)
  show "kr_window kd k' = kr_window kd k" using kd by (auto simp: k'_def kr_window_def)
qed

lemma k_move_keeps:
  assumes ok: "k_ok w" and src: "snd src \<in> {Fill, Tx}" and dst: "snd dst \<in> {Completion, Rx}"
    and f: "\<And>d. desc_addr (f d) = desc_addr d \<and> unat (desc_len (f d)) < 2 ^ 16"
  shows "k_ok (k_move src dst f w) \<and> k_held (k_move src dst f w) = k_held w
     \<and> (\<forall>q. k_window q (k_move src dst f w) = k_window q w)"
proof (cases "kr_prod (k_ring w src) = kr_cons (k_ring w src)
    \<or> unat (kr_size (k_ring w dst)) \<le> unat (kr_prod (k_ring w dst) - kr_cons (k_ring w dst))")
  case True
  then show ?thesis using ok by (simp add: k_move_def)
next
  case False
  let ?a = "k_ring w src" and ?b = "k_ring w dst"
  let ?d = "kr_mem ?a (kr_slot ?a (kr_cons ?a))"
  let ?a' = "?a\<lparr>kr_cons := kr_cons ?a + 1\<rparr>"
  let ?b' = "?b\<lparr>kr_mem := (kr_mem ?b)(kr_slot ?b (kr_prod ?b) := f ?d), kr_prod := kr_prod ?b + 1\<rparr>"
  let ?w = "set_ring src ?a' w"
  have ne: "src \<noteq> dst" using src dst by auto
  have mv: "k_move src dst f w = set_ring dst ?b' ?w" using False by (simp add: k_move_def Let_def)
  have ra: "kr_prod ?a \<noteq> kr_cons ?a" and rb: "unat (kr_prod ?b - kr_cons ?b) < unat (kr_size ?b)" using False by auto
  note ta = kring_ok_take [OF k_okD [OF ok] src ra]
  note tb = kring_ok_give [OF k_okD [OF ok] dst rb conjunct2 [OF f], of ?d]
  have "k_ok ?w" using k_ok_set_ring [OF ok ta(2)] .
  then have "k_ok (set_ring dst ?b' ?w)" by (rule k_ok_set_ring [OF _ tb(2)])
  moreover have "k_held w = k_held ?w + {#desc_addr ?d#}"
    using k_held_append [of w src "[?d]" ?a'] ta(1) by simp
  moreover have "k_held (set_ring dst ?b' ?w) = k_held ?w + {#desc_addr (f ?d)#}"
    using k_held_prepend [of ?b' ?w dst "[f ?d]"] tb(1) ne by simp
  moreover have "k_window q (set_ring dst ?b' ?w) = k_window q w" for q
    using ta(3) tb(3) ne by (auto simp: k_window_set_ring k_window_def)
  ultimately show ?thesis using f [of ?d] by (simp add: mv)
qed

section \<open>The system calls\<close>

definition live_poll :: "kworld \<Rightarrow> kworld" where
  "live_poll w = fold (\<lambda>b. k_move (b, Fill) (b, Rx) (\<lambda>d. d\<lparr>desc_len := 60\<rparr>))
     [False, False, False, False, True, True, True, True] w"

definition live_send :: "kworld \<Rightarrow> kworld" where
  "live_send w = fold (\<lambda>b. k_move (b, Tx) (b, Completion) (\<lambda>d. d\<lparr>desc_len := 0\<rparr>))
     [False, False, False, False, True, True, True, True] w"

definition live_libc :: "kworld libc_api" where
  "live_libc = ref_libc\<lparr>c_poll := (\<lambda>fd ev t w. (0, live_poll w)),
     c_sendto := (\<lambda>fd p n fl sa sl w. (0, live_send w))\<rparr>"

lemma fold_moves_keep:
  assumes "\<And>b v. k_ok v \<Longrightarrow> k_ok (g b v) \<and> k_held (g b v) = k_held v \<and> (\<forall>q. k_window q (g b v) = k_window q v)"
    and "k_ok w"
  shows "k_ok (fold g bs w) \<and> k_held (fold g bs w) = k_held w \<and> (\<forall>q. k_window q (fold g bs w) = k_window q w)"
  using assms(2)
proof (induction bs arbitrary: w)
  case (Cons b bs)
  then show ?case using assms(1) [of w b] Cons.IH [of "g b w"] by simp
qed simp

lemma live_keeps:
  assumes "k_ok w"
  shows "k_ok (live_poll w) \<and> k_held (live_poll w) = k_held w \<and> (\<forall>q. k_window q (live_poll w) = k_window q w)"
    and "k_ok (live_send w) \<and> k_held (live_send w) = k_held w \<and> (\<forall>q. k_window q (live_send w) = k_window q w)"
  unfolding live_poll_def live_send_def
  by (rule fold_moves_keep [OF k_move_keeps assms]; simp)+

lemma xsk_setup_live: "xsk_setup ref_api k_ok k_held snd k_window k_staged live_libc
  (list_deque :: (unit buf_mmap, unit buf_mmap list) deque_api) (\<lambda>q. length q \<le> PENDING_LEN) (\<lambda>q. q)"
proof (rule xsk_setup.intro)
  have "xsk_rings ref_api k_ok k_held snd k_window k_staged live_libc"
    by (rule xsk_rings.intro [OF refk.xsk_cons_axioms refk.xsk_prod_axioms])
      (unfold_locales; auto simp: live_libc_def live_keeps)
  then show "xsk_link ref_api k_ok k_held snd k_window k_staged live_libc
      (list_deque :: (unit buf_mmap, unit buf_mmap list) deque_api) (\<lambda>q. length q \<le> PENDING_LEN) (\<lambda>q. q)"
    by (rule xsk_link.intro [OF _ listq.array_deque_axioms])
  show "os_mmap live_libc"
    by unfold_locales (use refos.mmap_fits in \<open>fastforce simp: live_libc_def ref_libc_def\<close>)
  show "xsk_setup_axioms ref_api k_ok k_held snd k_window live_libc"
    by unfold_locales
      (auto simp: ref_api_def live_libc_def ref_libc_def split: list.splits if_splits)
qed

interpretation livesetup: xsk_setup ref_api k_ok k_held snd k_window k_staged live_libc
  "list_deque :: (unit buf_mmap, unit buf_mmap list) deque_api" "\<lambda>q. length q \<le> PENDING_LEN" "\<lambda>q. q"
  by (rule xsk_setup_live)

section \<open>Running programs on it\<close>

text \<open>
  The rules by which the simplifier runs a program: the calls of the two interfaces, the loops at
  numerals, and congruences that evaluate a call before what follows it.
\<close>

lemma ref_calls:
  "new_ring ref_api w = (case k_next w of [] \<Rightarrow> ((False, Fill), w) | r # rs \<Rightarrow> (r, w\<lparr>k_next := rs\<rparr>))"
  "umem_create ref_api area sz fq cq cfg w
   = (if snd fq = Fill \<and> snd cq = Completion then (0, 4096, w) else (-1, 0, w))"
  "socket_create ref_api ifn q u rx tx scfg w
   = (if ifn = ''link1'' \<and> (\<forall>r \<in> set_option rx. snd r = Rx) \<and> (\<forall>r \<in> set_option tx. snd r = Tx)
      then (0, 8192, w) else (-1, 0, w))"
  "socket_fd ref_api s w = 3"
  "cons_peek ref_api = k_peek" "cons_release ref_api = k_release"
  "cons_comp_addr ref_api r i w = desc_addr (k_entry r i w)" "cons_rx_desc ref_api = k_entry"
  "prod_reserve ref_api = k_reserve" "prod_put_fill ref_api r i a = k_put r i (\<lambda>d. d\<lparr>desc_addr := a\<rparr>)"
  "prod_put_tx ref_api = k_put" "prod_submit ref_api = k_submit"
  "prod_needs_wakeup ref_api r w = (if k_wake w then 1 else 0)"
  by (simp_all add: ref_api_def)

lemma live_calls:
  "c_mmap live_libc a n prot fl fd off w = (if unat n < 2 ^ 47 then (65536, w) else (-1, w))"
  "c_poll live_libc fd' ev t w = (0, live_poll w)"
  "c_sendto live_libc fd' p n' fl' sa sl w = (0, live_send w)"
  "MAP_FAILED live_libc = -1"
  by (simp_all add: live_libc_def ref_libc_def)

lemma list_queue:
  "dq_new list_deque = []" "dq_capacity list_deque q = PENDING_LEN" "dq_len list_deque q = length q"
  "dq_is_empty list_deque q = (q = [])" "dq_iter list_deque q = q"
  "dq_push_back list_deque b q
   = (if length q < PENDING_LEN then (None, q @ [b]) else (Some (hd q), tl q @ [b]))"
  "dq_pop_front list_deque q = (case q of [] \<Rightarrow> (None, []) | b # bs \<Rightarrow> (Some b, bs))"
  by (simp_all add: list_deque_def)

lemmas loops_at_numerals =
  new_bufs.simps(2) [where k = "pred_numeral v" for v, folded numeral_eq_Suc]
  fill_loop.simps(2) [where k = "pred_numeral v" for v, folded numeral_eq_Suc]
  recv_loop.simps(2) [where k = "pred_numeral v" for v, folded numeral_eq_Suc]
  service_loop.simps(2) [where k = "pred_numeral v" for v, folded numeral_eq_Suc]
  send_loop.simps(2) [where k = "pred_numeral v" for v, folded numeral_eq_Suc]
  loop_run.simps(2) [where n = "pred_numeral v" for v, folded numeral_eq_Suc]

lemmas run_kernel = ref_calls live_calls list_queue k_reserve_def set_ring_def k_submit_def k_put_def
  k_peek_def k_release_def k_entry_def mk_kring_def kr_slot_def k_move_def live_poll_def live_send_def

lemmas run_crate = usize_mul_def usize_sub_def usize_add_def u64_add_def u32_inc_def u16_try_from_def
  vec_with_capacity_def vec_push_def vec_reserve_def vec_pop_def ptr_offset_def AF_XDP_RESERVED_def
  mmap_area_new_def get_ptr_def get_buf_num_def get_buf_len_def umem_new_def umem_get_ptr_def
  socket_new_def cstring_new_def fq_fill_def cq_service_def fq_needs_wakeup_def try_recv_def
  try_send_def rx_wake_def wakeup_if_required_def tx_fill_def PENDING_LEN_def

lemmas run_loop = service_phase_def recv_phase_def forward_phase_def forward_def fill_phase_def
  l2_body_def FILL_THRESHOLD_def SOCKET_BATCH_SIZE_def SERVICE_BATCH_SIZE_def RING_SIZE_def
  expect_def initial_fill_def stats_default_def l2_setup_def

lemma bnd_cong_weak: "m = m' \<Longrightarrow> bnd m f = bnd m' f"
  by simp

lemmas run_congs = bnd_cong_weak let_weak_cong prod.case_cong_weak

text \<open>\<open>l2fwd-2link\<close> with two frames for each link.\<close>

definition live_opt :: l2_opt where
  "live_opt = ex_l2_opt\<lparr>t_bufnum := 4\<rparr>"

abbreviation "live_setup \<equiv> l2_setup ref_api live_libc Release
  (list_deque :: (unit buf_mmap, unit buf_mmap list) deque_api) () True live_opt (\<lambda>_. 0)
  (ex_boot [(False, Completion), (False, Fill), (True, Completion), (True, Fill),
            (False, Rx), (False, Tx), (True, Rx), (True, Tx)])"

lemma live_rings_pow2: "is_pow_of_two 2048"
  by (simp add: is_pow_of_two_def)

lemma live_run:
  "\<exists>s0 s. live_setup = Ret (0, s0)
     \<and> map (\<lambda>p. rx_ring (p_rx p)) (lp_ports s0) = [(False, Rx), (True, Rx)]
     \<and> map (\<lambda>p. tx_ring (p_tx p)) (lp_ports s0) = [(False, Tx), (True, Tx)]
     \<and> loop_run (l2_body ref_api live_libc Release list_deque ()) 3 (0, s0) = Ret (1, s)
     \<and> lp_queues s = [[], []] \<and> map rx_packets (lp_stats s) = [2, 2]"
  by (simp add: live_opt_def ex_l2_opt_def ex_boot_def live_rings_pow2 Let_def run_kernel run_crate run_loop
      loops_at_numerals cong: run_congs)

end
