(* ===== verification/Packet_Order.thy ===== *)
theory Packet_Order
  imports Wire_Tap Live_Kernel
begin

text \<open>
  The order and the content of forwarded packets. The invariants of \<open>Forwarding\<close> count packets; here
  the descriptors are followed, with the recorder of \<open>Wire_Tap\<close> between the crate and libbpf. The
  first part shows that the recorder does not change what the program does, the second that the
  descriptors a forwarder hands to a tx ring are those it took from an rx ring, in their order.
\<close>

section \<open>The recorder changes nothing\<close>

abbreviation er2 :: "'a \<times> 'w \<times> 'l \<Rightarrow> 'a \<times> 'w" where
  "er2 \<equiv> apsnd fst"

abbreviation er3 :: "'a \<times> 'b \<times> 'w \<times> 'l \<Rightarrow> 'a \<times> 'b \<times> 'w" where
  "er3 \<equiv> apsnd (apsnd fst)"

lemma map_outcome_bnd: "map_outcome f (bnd m g) = bnd m (\<lambda>x. map_outcome f (g x))"
  by (cases m) simp_all

lemma bnd_map_outcome: "bnd (map_outcome e m) g = bnd m (\<lambda>x. g (e x))"
  by (cases m) simp_all

lemma erase_bnd:
  assumes "map_outcome e m' = m" and "\<And>x. map_outcome f (g' x) = g (e x)"
  shows "map_outcome f (bnd m' g') = bnd m g"
  using assms(2) unfolding assms(1) [symmetric] by (simp add: bnd_map_outcome map_outcome_bnd)

lemma bnd_same: "(\<And>x. f x = g x) \<Longrightarrow> bnd m f = bnd m g"
  by (cases m) simp_all

lemma tap_service_loop:
  "service_loop (tap api) prof area avail dflt cq (w, l) k i bs = service_loop api prof area avail dflt cq w k i bs"
  by (induction k arbitrary: i bs) (simp_all add: Let_def)

lemma tap_recv_loop:
  "recv_loop (tap api) prof dq area avail user rx (w, l) k i q = recv_loop api prof dq area avail user rx w k i q"
  by (induction k arbitrary: i q)
    (auto simp: Let_def intro!: bnd_same split: prod.split option.split)

lemma tap_fill_loop:
  "map_outcome er2 (fill_loop (tap api) prof fq k i bs (w, l)) = fill_loop api prof fq k i bs w"
  by (induction k arbitrary: i bs w l) (simp_all add: map_outcome_bnd split: prod.split option.split)

lemma tap_send_loop:
  "map_outcome er2 (send_loop (tap api) prof dq tx k i q (w, l)) = send_loop api prof dq tx k i q w"
  by (induction k arbitrary: i q w l) (simp_all add: Let_def map_outcome_bnd split: prod.split option.split)

lemma tap_cq_service:
  "map_outcome er3 (cq_service (tap api) prof dflt c bs n (w, l)) = cq_service api prof dflt c bs n w"
  by (auto simp: cq_service_def Let_def tap_service_loop map_outcome_bnd intro!: bnd_same split: prod.split)

lemma tap_try_recv:
  "map_outcome er3 (try_recv (tap api) prof dq x q n user (w, l)) = try_recv api prof dq x q n user w"
  by (auto simp: try_recv_def Let_def tap_recv_loop map_outcome_bnd intro!: bnd_same split: prod.split)

lemma tap_fq_fill:
  "map_outcome er3 (fq_fill (tap api) prof f bs n (w, l)) = fq_fill api prof f bs n w"
proof -
  obtain m where m: "min (length (items bs)) n = m" by blast
  show ?thesis
    by (auto simp: fq_fill_def m Let_def split: prod.split intro!: erase_bnd [OF tap_fill_loop])
qed

lemma tap_wakeup:
  "map_outcome er2 (wakeup_if_required (tap api) (tap_libc libc) t (w, l)) = wakeup_if_required api libc t w"
  by (auto simp: wakeup_if_required_def Let_def tap_libc_def split: prod.split)

lemma tap_try_send:
  "map_outcome er3 (try_send (tap api) (tap_libc libc) prof dq t q n (w, l)) = try_send api libc prof dq t q n w"
proof -
  obtain m where m: "min (dq_len dq q) n = m" by blast
  have s: "(if c then prod_submit (tap api) r k (v, l') else (v, l'))
      = (if c then prod_submit api r k v else v, if c then log_submit r (unat k) l' else l')"
    for c r k v l' by simp
  show ?thesis
    by (auto simp: try_send_def m Let_def s split: prod.split
        intro!: erase_bnd [OF tap_send_loop] erase_bnd [OF tap_wakeup])
qed

lemma tap_rx_wake: "apsnd fst (rx_wake (tap_libc libc) x (w, l)) = rx_wake libc x w"
  by (auto simp: rx_wake_def Let_def tap_libc_def split: prod.split)

lemma tap_fq_needs_wakeup [simp]: "fq_needs_wakeup (tap api) f (w, l) = fq_needs_wakeup api f w"
  by (simp add: fq_needs_wakeup_def)

text \<open>The state of a loop without the record, and with one.\<close>

definition erase :: "('r, 'u, 'q, 'w \<times> 'l) loop \<Rightarrow> ('r, 'u, 'q, 'w) loop" where
  "erase s = \<lparr>lp_bufs = lp_bufs s, lp_queues = lp_queues s, lp_ports = lp_ports s,
     lp_stats = lp_stats s, lp_mem = lp_mem s, lp_world = fst (lp_world s)\<rparr>"

definition attach_log :: "'l \<Rightarrow> ('r, 'u, 'q, 'w) loop \<Rightarrow> ('r, 'u, 'q, 'w \<times> 'l) loop" where
  "attach_log l s = \<lparr>lp_bufs = lp_bufs s, lp_queues = lp_queues s, lp_ports = lp_ports s,
     lp_stats = lp_stats s, lp_mem = lp_mem s, lp_world = (lp_world s, l)\<rparr>"

lemma erase_sel [simp]:
  "lp_bufs (erase s) = lp_bufs s" "lp_queues (erase s) = lp_queues s" "lp_ports (erase s) = lp_ports s"
  "lp_stats (erase s) = lp_stats s" "lp_mem (erase s) = lp_mem s" "lp_world (erase s) = fst (lp_world s)"
  by (simp_all add: erase_def)

lemma attach_log_sel [simp]:
  "lp_bufs (attach_log l s) = lp_bufs s" "lp_queues (attach_log l s) = lp_queues s"
  "lp_ports (attach_log l s) = lp_ports s" "lp_stats (attach_log l s) = lp_stats s"
  "lp_mem (attach_log l s) = lp_mem s" "lp_world (attach_log l s) = (lp_world s, l)"
  by (simp_all add: attach_log_def)

lemma erase_attach [simp]: "erase (attach_log l s) = s"
  by (simp add: erase_def attach_log_def)

lemma erase_service_phase:
  "map_outcome erase (service_phase (tap api) prof dflt n pos s) = service_phase api prof dflt n pos (erase s)"
proof -
  obtain w l where w: "lp_world s = (w, l)" by fastforce
  show ?thesis
    unfolding service_phase_def erase_sel Let_def w fst_conv
    by (rule erase_bnd [OF tap_cq_service])
      (auto simp: erase_def map_outcome_bnd intro!: bnd_same split: result.split)
qed

lemma erase_recv_phase:
  "map_outcome erase (recv_phase (tap api) (tap_libc libc) prof dq hook n custom pos s)
   = recv_phase api libc prof dq hook n custom pos (erase s)"
proof -
  obtain w l where w: "lp_world s = (w, l)" by fastforce
  have k: "fst (snd (rx_wake (tap_libc libc) x (v, l'))) = snd (rx_wake libc x v)"
    for x v l'
    by (metis tap_rx_wake snd_apsnd)
  show ?thesis
    unfolding recv_phase_def erase_sel Let_def w fst_conv
    by (rule erase_bnd [OF tap_try_recv])
      (auto simp: erase_def map_outcome_bnd k intro!: bnd_same split: result.split)
qed

lemma tap_forward:
  "map_outcome er3 (forward (tap api) (tap_libc libc) prof dq t q n (w, l)) = forward api libc prof dq t q n w"
  by (auto simp: forward_def intro!: erase_bnd [OF tap_try_send] split: result.split)

lemma erase_forward_phase:
  "map_outcome erase (forward_phase (tap api) (tap_libc libc) prof dq n pos other s)
   = forward_phase api libc prof dq n pos other (erase s)"
proof -
  obtain w l where w: "lp_world s = (w, l)" by fastforce
  show ?thesis
    unfolding forward_phase_def erase_sel Let_def w fst_conv
    by (rule erase_bnd [OF tap_forward])
      (auto simp: erase_def map_outcome_bnd intro!: bnd_same split: result.split)
qed

lemma erase_fill_phase:
  "map_outcome erase (fill_phase (tap api) prof threshold pos s) = fill_phase api prof threshold pos (erase s)"
proof -
  obtain w l where w: "lp_world s = (w, l)" by fastforce
  show ?thesis
  proof (cases "threshold \<le> fq_deficit (lp_ports s ! pos)")
    case True
    show ?thesis
      unfolding fill_phase_def erase_sel Let_def w fst_conv if_P [OF True]
      by (rule erase_bnd [OF tap_fq_fill])
        (auto simp: erase_def map_outcome_bnd intro!: bnd_same split: result.split)
  qed (simp add: fill_phase_def Let_def)
qed

lemma erase_phases:
  "map_outcome erase (phases (tap api) (tap_libc libc) prof dq custom hook n1 n2 threshold pos other s)
   = phases api libc prof dq custom hook n1 n2 threshold pos other (erase s)"
  by (rule erase_bnd [OF erase_service_phase], rule erase_bnd [OF erase_recv_phase],
      rule erase_bnd [OF erase_forward_phase], rule erase_fill_phase)

lemma erase_l2_body:
  "map_outcome (apsnd erase) (l2_body (tap api) (tap_libc libc) prof dq bc u)
   = l2_body api libc prof dq bc (apsnd erase u)"
proof -
  obtain p s where u: "u = (p, s)" by fastforce
  show ?thesis unfolding u apsnd_conv l2_body_phases by (rule erase_bnd [OF erase_phases]) simp
qed

lemma erase_loop_run:
  assumes "\<And>s. map_outcome f (body' s) = body (f s)"
  shows "map_outcome f (loop_run body' n s) = loop_run body n (f s)"
proof (induction n arbitrary: s)
  case (Suc n)
  show ?case unfolding loop_run.simps by (rule erase_bnd [where e = f]) (rule assms, rule Suc.IH)
qed simp

section \<open>What the operations leave in the record\<close>

text \<open>What a descriptor and a buffer say of a packet: where it is and how long it is.\<close>

definition wire :: "xdp_desc \<Rightarrow> u64 \<times> u32" where
  "wire d = (desc_addr d, desc_len d)"

definition buf_wire :: "'u buf_mmap \<Rightarrow> u64 \<times> u32" where
  "buf_wire b = (bm_addr b, ucast (bm_len b))"

lemma wire_tx_fill [simp]: "wire (tx_fill b d) = buf_wire b"
  by (simp add: wire_def buf_wire_def tx_fill_def)

lemma buf_wire_rx_buf [simp]: "unat (desc_len d) < 2 ^ 16 \<Longrightarrow> buf_wire (rx_buf area user d) = wire d"
proof -
  assume l: "unat (desc_len d) < 2 ^ 16"
  have "unat (ucast (of_nat (unat (desc_len d)) :: u16) :: u32) = unat (desc_len d)"
    using l by (simp add: unsigned_ucast_eq unsigned_of_nat take_bit_nat_eq_self unsigned_take_bit_eq)
  then have "(ucast (of_nat (unat (desc_len d)) :: u16) :: u32) = desc_len d" by (simp only: word_unat_eq_iff)
  then show ?thesis by (simp add: wire_def buf_wire_def frame_buf_def del: of_nat_unat)
qed

lemma fill_loop_log:
  "fill_loop (tap api) prof r k i bs w = Ret (v, w') \<Longrightarrow>
   wl_in (snd w') = wl_in (snd w) \<and> wl_out (snd w') = wl_out (snd w)"
proof (induction k arbitrary: i bs w)
  case (Suc k)
  obtain u l where w: "w = (u, l)" by fastforce
  from Suc.prems show ?case
    by (auto simp: w bnd_Ret_iff log_put_def split: prod.splits option.splits dest!: Suc.IH)
qed simp

lemma service_log:
  assumes "cq_service (tap api) prof dflt c bs n w = Ret (r, v, w')" and "p \<noteq> cq_ring c"
  shows "wl_in (snd w') p = wl_in (snd w) p \<and> wl_out (snd w') = wl_out (snd w)"
  using assms
  by (cases w) (auto simp: cq_service_def bnd_Ret_iff Let_def log_window_def log_release_def
      split: prod.splits if_split_asm)

lemma fill_log:
  assumes "fq_fill (tap api) prof f bs n w = Ret (r, v, w')" and "p \<noteq> fq_ring f"
  shows "wl_in (snd w') = wl_in (snd w) \<and> wl_out (snd w') p = wl_out (snd w) p"
proof -
  obtain u l where w: "w = (u, l)" by fastforce
  show ?thesis
    using assms
    by (auto simp: w fq_fill_def bnd_Ret_iff Let_def log_window_def log_submit_def
        split: prod.splits if_split_asm dest!: fill_loop_log)
qed

lemma wakeup_log:
  assumes "wakeup_if_required (tap api) (tap_libc libc) t w = Ret (b, w')"
  shows "snd w' = snd w"
  using assms by (cases w) (auto simp: wakeup_if_required_def Let_def split: prod.splits if_split_asm)

lemma rx_wake_log: "snd (snd (rx_wake (tap_libc libc) x w)) = snd w"
  by (cases w) (auto simp: rx_wake_def Let_def split: prod.split)

lemma snd_put_tx [simp]: "snd (prod_put_tx (tap api) r i f w) = log_put r i f (snd w)"
  by (cases w) simp

lemma put_txs_log:
  "wl_first (snd (put_txs (tap api) r i bs w)) = wl_first (snd w)
   \<and> wl_in (snd (put_txs (tap api) r i bs w)) = wl_in (snd w)
   \<and> wl_out (snd (put_txs (tap api) r i bs w)) = wl_out (snd w)"
  by (induction bs arbitrary: i w) (simp_all add: log_put_def)

lemma put_txs_other_slot:
  "\<forall>k < length bs. j \<noteq> i + of_nat k \<Longrightarrow>
   wl_slots (snd (put_txs (tap api) r i bs w)) r j = wl_slots (snd w) r j"
proof (induction bs arbitrary: i w)
  case (Cons b bs)
  have "j \<noteq> i + 1 + of_nat k" if "k < length bs" for k
    using Cons.prems [rule_format, of "Suc k"] that by (simp add: add.assoc)
  moreover have "j \<noteq> i" using Cons.prems [rule_format, of 0] by simp
  ultimately show ?case using Cons.IH [of "i + 1"] by (simp add: log_put_def)
qed simp

lemma put_txs_slot:
  "k < length bs \<Longrightarrow> length bs < 2 ^ 32 \<Longrightarrow>
   wire (wl_slots (snd (put_txs (tap api) r i bs w)) r (i + of_nat k)) = buf_wire (bs ! k)"
proof (induction bs arbitrary: i k w)
  case (Cons b bs)
  show ?case
  proof (cases k)
    case 0
    have "i \<noteq> i + 1 + of_nat n" if "n < length bs" for n
    proof -
      have "unat (of_nat (Suc n) :: u32) = Suc n" using that Cons.prems(2) by (intro unat_of_nat_u32) simp
      then have "(of_nat (Suc n) :: u32) \<noteq> 0" by (metis unat_0 Zero_not_Suc)
      then show ?thesis by (simp add: add.assoc)
    qed
    then show ?thesis using 0 by (simp add: put_txs_other_slot log_put_def)
  next
    case (Suc n)
    then show ?thesis using Cons.IH [of n "i + 1"] Cons.prems by (simp add: add.assoc)
  qed
qed simp

context xsk_link
begin

text \<open>The link with the recorder.\<close>

lemmas tap_link = xsk_link.intro [OF tap_rings [OF xsk_rings_axioms] array_deque_axioms]

lemma recv_log:
  assumes rc: "try_recv (tap api) prof dq x q n user (w, l) = Ret (r, q', (w', l'))" and "ok w"
    and "kind (rx_ring x) = Rx" and "\<forall>p. snd (window p w) = 0"
    and "256 \<le> buf_len (um_area (so_umem (rx_socket x)))" and "dq_ok q"
  shows "\<exists>ds. queued q' = queued q @ map (rx_buf (um_area (so_umem (rx_socket x))) user) ds
     \<and> (\<forall>d \<in> set ds. unat (desc_len d) < 2 ^ 16) \<and> wl_out l' = wl_out l
     \<and> wl_in l' = (wl_in l)(rx_ring x := wl_in l (rx_ring x) @ ds)"
proof -
  let ?r = "rx_ring x" and ?a = "um_area (so_umem (rx_socket x))"
  have e: "try_recv (tap api) Release dq x q n user (w, l) = Ret (r, q', (w', l'))"
    using extends_try_recv rc by (rule extendsD)
  have pre: "ok (fst (w, l))" "snd (window ?r (fst (w, l))) = 0" using assms by simp_all
  have idx: "\<forall>m i w1. cons_peek (tap api) ?r (of_nat (min (PENDING_LEN - length (queued q)) n)) 0 (w, l)
      = (m, i, w1) \<longrightarrow> idx_ok Release i (unat m)"
    by (intro allI impI idx_ok_Release)
  obtain m i w1 p where pk: "cons_peek (tap api) ?r (of_nat (min (PENDING_LEN - length (queued q)) n)) 0 (w, l)
        = (m, i, w1)"
    and t: "try_recv (tap api) Release dq x q n user (w, l)
        = Ret (Ok (unat m), p, if m = 0 then w1 else cons_release (tap api) ?r m w1)"
    and q: "queued p = queued q @ map (rx_buf ?a user) (rx_entries (tap api) ?r i (unat m) w1)"
    and d: "\<forall>d \<in> set (rx_entries (tap api) ?r i (unat m) w1). unat (desc_len d) < 2 ^ 16"
    using xsk_link.recv_run [OF tap_link pre(1) assms(3) pre(2) assms(5,6) idx, where user = user] by blast
  from pk obtain v where v: "w1 = (v, log_window ?r i l)" by (auto split: prod.splits)
  have "wl_in l' = (wl_in l)(?r := wl_in l ?r @ rx_entries (tap api) ?r i (unat m) w1) \<and> wl_out l' = wl_out l"
    using e unfolding t by (auto simp: v log_window_def log_release_def split: if_split_asm)
  then show ?thesis using e q d unfolding t by auto
qed

lemma send_log:
  assumes sd: "try_send (tap api) (tap_libc libc) prof dq t q n (w, l) = Ret (r, q', (w', l'))" and "ok w"
    and "kind (tx_ring t) = Tx" and "\<forall>p. snd (window p w) = 0" and "dq_ok q"
  shows "\<exists>k ds. queued q' = drop k (queued q) \<and> map wire ds = map buf_wire (take k (queued q))
     \<and> wl_in l' = wl_in l \<and> wl_out l' = (wl_out l)(tx_ring t := wl_out l (tx_ring t) @ ds)"
proof (cases "min (length (queued q)) n = 0")
  case True
  then have "q' = q \<and> l' = l" using sd by (simp add: try_send_def len_deque [OF assms(5)])
  then show ?thesis by (intro exI [of _ 0] exI [of _ "[]"]) simp
next
  case nz: False
  let ?r = "tx_ring t"
  have e: "try_send (tap api) (tap_libc libc) Release dq t q n (w, l) = Ret (r, q', (w', l'))"
    using extends_try_send sd by (rule extendsD)
  have pre: "ok (fst (w, l))" "snd (window ?r (fst (w, l))) = 0" using assms by simp_all
  have idx: "\<forall>m i w1. prod_reserve (tap api) ?r (of_nat (min (length (queued q)) n)) 0 (w, l)
      = (m, i, w1) \<longrightarrow> idx_ok Release i (unat m)"
    by (intro allI impI idx_ok_Release)
  obtain m i w1 p where rs: "prod_reserve (tap api) ?r (of_nat (min (length (queued q)) n)) 0 (w, l) = (m, i, w1)"
    and s: "try_send (tap api) (tap_libc libc) Release dq t q n (w, l)
       = bnd (wakeup_if_required (tap api) (tap_libc libc) t (if m = 0 then w1
               else prod_submit (tap api) ?r m (put_txs (tap api) ?r i (take (unat m) (queued q)) w1)))
             (\<lambda>(_, w'). Ret (Ok (unat m), p, w'))"
    and m: "unat m = 0 \<or> unat m = min (length (queued q)) n"
    and p: "queued p = drop (unat m) (queued q)"
    using xsk_link.send_run [OF tap_link pre(1) assms(3) pre(2) assms(5) nz idx] by blast
  from rs obtain v where v: "w1 = (v, log_window ?r i l)" by (auto simp: split: prod.splits)
  let ?bs = "take (unat m) (queued q)"
  let ?u = "put_txs (tap api) ?r i ?bs w1"
  from e s have q': "q' = p" and l': "l' = snd (if m = 0 then w1 else prod_submit (tap api) ?r m ?u)"
    by (auto simp: bnd_Ret_iff dest: wakeup_log)
  show ?thesis
  proof (cases "m = 0")
    case True
    then show ?thesis using l' q' p
      by (intro exI [of _ 0] exI [of _ "[]"]) (simp add: v log_window_def)
  next
    case False
    have len: "length ?bs = unat m" using m by auto
    have small: "length ?bs < 2 ^ 32" using queued_bound [OF assms(5)] by (simp add: PENDING_LEN_def)
    obtain u1 ul where u: "?u = (u1, ul)" by fastforce
    let ?ds = "map (\<lambda>k. wl_slots ul ?r (i + of_nat k)) [0..<unat m]"
    have f: "wl_first ul ?r = i" "wl_in ul = wl_in l" "wl_out ul = wl_out l"
      using put_txs_log [of api ?r i ?bs w1] unfolding u by (simp_all add: v log_window_def)
    have "l' = log_submit ?r (unat m) ul" using l' False u by simp
    then have "wl_in l' = wl_in l \<and> wl_out l' = (wl_out l)(?r := wl_out l ?r @ ?ds)"
      by (simp add: log_submit_def f)
    moreover have "map wire ?ds = map buf_wire ?bs"
    proof (rule nth_equalityI)
      show "length (map wire ?ds) = length (map buf_wire ?bs)" using len by simp
    next
      fix k assume "k < length (map wire ?ds)"
      then have "k < length ?bs" using len by simp
      from put_txs_slot [OF this small, of api ?r i w1] show "map wire ?ds ! k = map buf_wire ?bs ! k"
        using \<open>k < length ?bs\<close> len unfolding u by simp
    qed
    ultimately show ?thesis using p q' by (intro exI [of _ "unat m"] exI [of _ ?ds]) simp
  qed
qed

end

section \<open>Packets leave in the order they arrive\<close>

abbreviation rx_of :: "('r, 'u, 'q, 'w) loop \<Rightarrow> nat \<Rightarrow> 'r" where
  "rx_of s p \<equiv> rx_ring (p_rx (lp_ports s ! p))"

abbreviation tx_of :: "('r, 'u, 'q, 'w) loop \<Rightarrow> nat \<Rightarrow> 'r" where
  "tx_of s p \<equiv> tx_ring (p_tx (lp_ports s ! p))"

text \<open>
  What arrived on a port, in its order, is what was handed to the ring of its peer followed by what
  is pending. The rings of different ports are different.
\<close>

definition in_order :: "('q \<Rightarrow> 'u buf_mmap list) \<Rightarrow> (nat \<Rightarrow> nat)
    \<Rightarrow> ('r, 'u, 'q, 'w \<times> 'r wire_log) loop \<Rightarrow> bool" where
  "in_order queued out s \<longleftrightarrow> (\<forall>p < length (lp_ports s).
     map wire (wl_in (snd (lp_world s)) (rx_of s p))
     = map wire (wl_out (snd (lp_world s)) (tx_of s (out p))) @ map buf_wire (queued (lp_queues s ! p)))"

definition own_rings :: "('r, 'u, 'q, 'w) loop \<Rightarrow> bool" where
  "own_rings s \<longleftrightarrow> (\<forall>p < length (lp_ports s). \<forall>p' < length (lp_ports s). p \<noteq> p' \<longrightarrow>
     rx_of s p \<noteq> rx_of s p' \<and> tx_of s p \<noteq> tx_of s p')"

text \<open>The phases keep the rings of the ports.\<close>

abbreviation same_rings :: "('r, 'u, 'q, 'w) loop \<Rightarrow> ('r, 'u, 'q, 'w) loop \<Rightarrow> bool" where
  "same_rings s s' \<equiv> length (lp_ports s') = length (lp_ports s)
     \<and> (\<forall>p. rx_of s' p = rx_of s p \<and> tx_of s' p = tx_of s p)"

lemma same_rings_update:
  "lp_ports s' = lp_ports s \<or> (\<exists>d. lp_ports s' = (lp_ports s)[pos := (lp_ports s ! pos)\<lparr>fq_deficit := d\<rparr>])
   \<Longrightarrow> same_rings s s'"
  by (auto simp: nth_list_update_if)

lemma own_rings_same: "same_rings s s' \<Longrightarrow> own_rings s \<Longrightarrow> own_rings s'"
  by (simp add: own_rings_def)

lemma env_ok_port:
  assumes "env_ok kind area (loop_env s)" and "p < length (lp_ports s)"
  shows "kind (cq_ring (p_cq (lp_ports s ! p))) = Completion" "kind (fq_ring (p_fq (lp_ports s ! p))) = Fill"
    "kind (rx_of s p) = Rx" "kind (tx_of s p) = Tx"
    "um_area (so_umem (rx_socket (p_rx (lp_ports s ! p)))) = area"
  using assms by (auto simp: env_ok_def loop_env_def list_all_iff)

context xsk_link
begin

lemma order_service:
  assumes ph: "service_phase (tap api) prof dflt n pos s = Ret s'"
    and inv: "loop_inv ok held kind window dq_ok queued area (erase s)"
    and pos: "pos < length (lp_ports s)"
  shows "same_rings s s' \<and> (in_order queued out s \<longrightarrow> in_order queued out s')"
proof -
  have env: "env_ok kind area (loop_env (erase s))" using inv by (simp add: loop_inv_def)
  obtain r bs w where c: "cq_service (tap api) prof dflt (p_cq (lp_ports s ! pos)) (lp_bufs s) n (lp_world s)
      = Ret (r, bs, w)" and s': "lp_world s' = w" "lp_queues s' = lp_queues s" "lp_ports s' = lp_ports s"
    using ph by (auto simp: service_phase_def bnd_Ret_iff case_result_Ret_iff Let_def)
  have "rx_of s p \<noteq> cq_ring (p_cq (lp_ports s ! pos))" if "p < length (lp_ports s)" for p
    using env_ok_port [OF env, of p] env_ok_port [OF env, of pos] pos that by auto
  then have "wl_in (snd w) (rx_of s p) = wl_in (snd (lp_world s)) (rx_of s p)
      \<and> wl_out (snd w) = wl_out (snd (lp_world s))" if "p < length (lp_ports s)" for p
    using service_log [OF c] that by blast
  then show ?thesis using pos by (simp add: in_order_def s')
qed

lemma order_recv:
  assumes ph: "recv_phase (tap api) (tap_libc libc) prof dq hook n custom pos s = Ret s'"
    and inv: "loop_inv ok held kind window dq_ok queued area (erase s)" and ma: "256 \<le> buf_len area"
    and pos: "pos < length (lp_ports s)"
  shows "same_rings s s' \<and> (own_rings s \<and> in_order queued out s \<longrightarrow> in_order queued out s')"
proof -
  let ?p = "lp_ports s ! pos"
  obtain w l where w: "lp_world s = (w, l)" by fastforce
  have x: "kind (rx_ring (p_rx ?p)) = Rx" "um_area (so_umem (rx_socket (p_rx ?p))) = area"
    and wf: "dq_ok (lp_queues s ! pos)" "ok w" "\<forall>p. snd (window p w) = 0"
    and len: "length (lp_queues s) = length (lp_ports s)"
    using inv pos by (auto simp: loop_inv_def own_inv_def loop_app_def deficit_ok_def env_ok_def
        loop_env_def list_all_iff w)
  obtain r q w1 l1 where c: "try_recv (tap api) prof dq (p_rx ?p) (lp_queues s ! pos) n custom (w, l)
      = Ret (r, q, (w1, l1))" and s': "lp_queues s' = (lp_queues s)[pos := q]" "snd (lp_world s') = l1"
      "lp_ports s' = lp_ports s \<or> (\<exists>d. lp_ports s' = (lp_ports s)[pos := ?p\<lparr>fq_deficit := d\<rparr>])"
    using ph w
    by (fastforce simp: recv_phase_def bnd_Ret_iff case_result_Ret_iff Let_def rx_wake_log split: if_split_asm)
  obtain ds where ds: "queued q = queued (lp_queues s ! pos) @ map (rx_buf area custom) ds"
      "\<forall>d \<in> set ds. unat (desc_len d) < 2 ^ 16" "wl_out l1 = wl_out l"
      "wl_in l1 = (wl_in l)(rx_of s pos := wl_in l (rx_of s pos) @ ds)"
    using recv_log [OF c wf(2) x(1) wf(3) _ wf(1)] ma unfolding x(2) by blast
  have bw: "map buf_wire (map (rx_buf area custom) ds) = map wire ds"
    unfolding map_map using ds(2) by (intro map_cong refl) (simp only: o_def buf_wire_rx_buf)
  note sr = same_rings_update [OF s'(3)]
  have "in_order queued out s'" if own: "own_rings s" and io: "in_order queued out s"
    unfolding in_order_def
  proof (intro allI impI)
    fix p assume "p < length (lp_ports s')"
    then have p: "p < length (lp_ports s)" using sr by simp
    have old: "map wire (wl_in l (rx_of s p))
        = map wire (wl_out l (tx_of s (out p))) @ map buf_wire (queued (lp_queues s ! p))"
      using io p by (simp add: in_order_def w)
    show "map wire (wl_in (snd (lp_world s')) (rx_of s' p))
        = map wire (wl_out (snd (lp_world s')) (tx_of s' (out p))) @ map buf_wire (queued (lp_queues s' ! p))"
    proof (cases "p = pos")
      case True
      then show ?thesis using old sr bw len p by (simp add: s'(1,2) ds(1,3,4))
    next
      case False
      then have "rx_of s p \<noteq> rx_of s pos" using own p pos by (simp add: own_rings_def)
      then show ?thesis using old sr False by (simp add: s'(1,2) ds(3,4))
    qed
  qed
  then show ?thesis using sr by blast
qed

lemma order_forward:
  assumes ph: "forward_phase (tap api) (tap_libc libc) prof dq n pos (out pos) s = Ret s'"
    and inv: "loop_inv ok held kind window dq_ok queued area (erase s)"
    and pos: "pos < length (lp_ports s)" and inj: "inj_on out {..<length (lp_ports s)}"
    and o: "\<forall>p < length (lp_ports s). out p < length (lp_ports s)"
  shows "same_rings s s' \<and> (own_rings s \<and> in_order queued out s \<longrightarrow> in_order queued out s')"
proof -
  let ?t = "p_tx (lp_ports s ! out pos)" and ?q = "lp_queues s ! pos"
  obtain w l where w: "lp_world s = (w, l)" by fastforce
  have x: "kind (tx_ring ?t) = Tx" and wf: "dq_ok ?q" "ok w" "\<forall>p. snd (window p w) = 0"
    and len: "length (lp_queues s) = length (lp_ports s)"
    using inv pos o by (auto simp: loop_inv_def own_inv_def loop_app_def deficit_ok_def env_ok_def
        loop_env_def list_all_iff w)
  have "\<exists>r q w1 l1 k ds. forward (tap api) (tap_libc libc) prof dq ?t ?q n (w, l) = Ret (r, q, (w1, l1))
      \<and> queued q = drop k (queued ?q) \<and> map wire ds = map buf_wire (take k (queued ?q))
      \<and> wl_in l1 = wl_in l \<and> wl_out l1 = (wl_out l)(tx_ring ?t := wl_out l (tx_ring ?t) @ ds)"
  proof (cases "dq_is_empty dq ?q")
    case True
    then show ?thesis
      by (intro exI [of _ "Ok 0"] exI [of _ ?q] exI [of _ w] exI [of _ l] exI [of _ 0] exI [of _ "[]"])
        (simp add: forward_def)
  next
    case False
    with ph obtain r q w1 l1 where c: "try_send (tap api) (tap_libc libc) prof dq ?t ?q n (w, l)
        = Ret (r, q, (w1, l1))" "\<exists>k. r = Ok k"
      by (auto simp: forward_phase_def forward_def bnd_Ret_iff Let_def case_result_Ret_iff w)
    from send_log [OF c(1) wf(2) x wf(3,1)] c False show ?thesis by (fastforce simp: forward_def)
  qed
  then obtain r q w1 l1 k ds where f: "forward (tap api) (tap_libc libc) prof dq ?t ?q n (w, l) = Ret (r, q, (w1, l1))"
      "queued q = drop k (queued ?q)" "map wire ds = map buf_wire (take k (queued ?q))"
      "wl_in l1 = wl_in l" "wl_out l1 = (wl_out l)(tx_ring ?t := wl_out l (tx_ring ?t) @ ds)" by blast
  have s': "lp_queues s' = (lp_queues s)[pos := q]" "lp_world s' = (w1, l1)" "lp_ports s' = lp_ports s"
    using ph f(1) by (auto simp: forward_phase_def Let_def bnd_Ret_iff case_result_Ret_iff w)
  have "in_order queued out s'" if own: "own_rings s" and io: "in_order queued out s"
    unfolding in_order_def
  proof (intro allI impI)
    fix p assume "p < length (lp_ports s')"
    then have p: "p < length (lp_ports s)" by (simp add: s')
    have old: "map wire (wl_in l (rx_of s p))
        = map wire (wl_out l (tx_of s (out p))) @ map buf_wire (queued (lp_queues s ! p))"
      using io p by (simp add: in_order_def w)
    show "map wire (wl_in (snd (lp_world s')) (rx_of s' p))
        = map wire (wl_out (snd (lp_world s')) (tx_of s' (out p))) @ map buf_wire (queued (lp_queues s' ! p))"
    proof (cases "p = pos")
      case True
      have "map wire ds @ map buf_wire (queued q) = map buf_wire (queued ?q)"
        unfolding f(2,3) by (simp flip: map_append)
      then show ?thesis using old len p True by (simp add: s' f(4,5))
    next
      case False
      then have "out p \<noteq> out pos" using inj p pos by (auto simp: inj_on_def)
      then have "tx_of s (out p) \<noteq> tx_of s (out pos)" using own o p pos by (simp add: own_rings_def)
      then show ?thesis using old False by (simp add: s' f(4,5))
    qed
  qed
  then show ?thesis by (simp add: s')
qed

lemma order_fill:
  assumes ph: "fill_phase (tap api) prof threshold pos s = Ret s'"
    and inv: "loop_inv ok held kind window dq_ok queued area (erase s)"
    and pos: "pos < length (lp_ports s)" and o: "\<forall>p < length (lp_ports s). out p < length (lp_ports s)"
  shows "same_rings s s' \<and> (in_order queued out s \<longrightarrow> in_order queued out s')"
proof (cases "threshold \<le> fq_deficit (lp_ports s ! pos)")
  case False
  then show ?thesis using ph by (simp add: fill_phase_def Let_def)
next
  case True
  let ?p = "lp_ports s ! pos"
  have env: "env_ok kind area (loop_env (erase s))" using inv by (simp add: loop_inv_def)
  from True obtain r bs w where c: "fq_fill (tap api) prof (p_fq ?p) (lp_bufs s) (fq_deficit ?p) (lp_world s)
      = Ret (r, bs, w)" and s': "lp_world s' = w" "lp_queues s' = lp_queues s"
      "\<exists>d. lp_ports s' = (lp_ports s)[pos := ?p\<lparr>fq_deficit := d\<rparr>]"
    using ph by (fastforce simp: fill_phase_def bnd_Ret_iff case_result_Ret_iff Let_def)
  have "tx_of s (out p) \<noteq> fq_ring (p_fq ?p)" if "p < length (lp_ports s)" for p
    using env_ok_port [OF env, of "out p"] env_ok_port [OF env, of pos] pos that o by auto
  then have "wl_in (snd w) = wl_in (snd (lp_world s))
      \<and> wl_out (snd w) (tx_of s (out p)) = wl_out (snd (lp_world s)) (tx_of s (out p))"
    if "p < length (lp_ports s)" for p
    using fill_log [OF c] that by blast
  then show ?thesis using same_rings_update [OF disjI2 [OF s'(3)]] by (simp add: in_order_def s'(1,2))
qed

lemma order_phases:
  assumes run: "run_inv ok held kind window dq_ok queued area out ports k (erase s)" and ma: "256 \<le> buf_len area"
    and pos: "pos < ports" and inj: "inj_on out {..<ports}" and room: "Suc k * PENDING_LEN < 2 ^ 64"
    and n: "n1 < 2 ^ 64" and own: "own_rings s" and io: "in_order queued out s"
    and body: "phases (tap api) (tap_libc libc) prof dq custom hook n1 n2 threshold pos (out pos) s = Ret s'"
  shows "run_inv ok held kind window dq_ok queued area out ports (Suc k) (erase s')
     \<and> own_rings s' \<and> in_order queued out s'"
proof -
  from body obtain s1 s2 s3 where s: "service_phase (tap api) prof custom n1 pos s = Ret s1"
    "recv_phase (tap api) (tap_libc libc) prof dq hook n2 custom pos s1 = Ret s2"
    "forward_phase (tap api) (tap_libc libc) prof dq n2 pos (out pos) s2 = Ret s3"
    "fill_phase (tap api) prof threshold pos s3 = Ret s'"
    by (auto simp: bnd_Ret_iff)
  have e: "service_phase api prof custom n1 pos (erase s) = Ret (erase s1)"
    "recv_phase api libc prof dq hook n2 custom pos (erase s1) = Ret (erase s2)"
    "forward_phase api libc prof dq n2 pos (out pos) (erase s2) = Ret (erase s3)"
    by (simp_all add: s flip: erase_service_phase erase_recv_phase erase_forward_phase)
  have "phases api libc prof dq custom hook n1 n2 threshold pos (out pos) (erase s) = Ret (erase s')"
    unfolding erase_phases [symmetric] body by simp
  note r' = run_inv_phases [OF run ma pos inj room n this]
  have i0: "loop_inv ok held kind window dq_ok queued area (erase s)" "flow_ok queued out (erase s)"
    "pos < length (lp_ports (erase s))" "length (lp_ports (erase s)) = ports"
    "rx_packets (lp_stats (erase s) ! pos) + PENDING_LEN < 2 ^ 64"
    using run pos run_room [OF run pos room] by (simp_all add: run_inv_def)
  have i1: "loop_inv ok held kind window dq_ok queued area (erase s1)" "flow_ok queued out (erase s1)"
    "pos < length (lp_ports (erase s1))" "rx_packets (lp_stats (erase s1) ! pos) + PENDING_LEN < 2 ^ 64"
    "length (lp_ports (erase s1)) = ports"
    using service_phase_inv [OF e(1) i0(1) ma i0(3) n, of out] i0(2-5) by auto
  have i2: "loop_inv ok held kind window dq_ok queued area (erase s2)" "flow_ok queued out (erase s2)"
    "pos < length (lp_ports (erase s2))" "length (lp_ports (erase s2)) = ports"
    using recv_phase_inv [OF e(2) i1(1) ma i1(3,4), of out] i1(2,3,5) by auto
  have i3: "loop_inv ok held kind window dq_ok queued area (erase s3)" "flow_ok queued out (erase s3)"
    "pos < length (lp_ports (erase s3))" "length (lp_ports (erase s3)) = ports"
    using forward_phase_inv [where out = out, OF e(3) i2(1) ma i2(3) _ i2(2)] inj i2(3,4) by auto
  have f: "\<forall>p < length (lp_ports t). out p < length (lp_ports t)" if "flow_ok queued out (erase t)" for t
    using that by (simp add: flow_ok_def)
  note p1 = order_service [OF s(1) i0(1) i0(3) [unfolded erase_sel]]
  note p2 = order_recv [OF s(2) i1(1) ma i1(3) [unfolded erase_sel]]
  have "inj_on out {..<length (lp_ports s2)}" using inj i2(4) by simp
  note p3 = order_forward [OF s(3) i2(1) i2(3) [unfolded erase_sel] this f [OF i2(2)]]
  note p4 = order_fill [OF s(4) i3(1) i3(3) [unfolded erase_sel] f [OF i3(2)]]
  have o1: "own_rings s1 \<and> in_order queued out s1" using p1 own_rings_same own io by blast
  then have o2: "own_rings s2 \<and> in_order queued out s2" using p2 own_rings_same by blast
  then have o3: "own_rings s3 \<and> in_order queued out s3" using p3 own_rings_same by blast
  then have "own_rings s' \<and> in_order queued out s'" using p4 own_rings_same by blast
  then show ?thesis using r' by blast
qed

end

section \<open>Whole runs\<close>

lemma attach_erase [simp]: "attach_log (snd (lp_world s)) (erase s) = s"
  by (simp add: attach_log_def erase_def)

lemma map_outcome_RetE:
  assumes "map_outcome f m = Ret y" obtains x where "m = Ret x" and "f x = y"
  using assms by (cases m) auto

text \<open>With no hook the loop does not touch the packets.\<close>

lemma recv_phase_mem:
  "recv_phase api libc prof dq (\<lambda>_. Ret) n custom pos s = Ret s' \<Longrightarrow> lp_mem s' = lp_mem s"
  by (auto simp: recv_phase_def Let_def bnd_Ret_iff case_result_Ret_iff split: if_split_asm)

lemma forward_phase_mem:
  "forward_phase api libc prof dq n pos other s = Ret s' \<Longrightarrow> lp_mem s' = lp_mem s"
  by (auto simp: forward_phase_def Let_def bnd_Ret_iff case_result_Ret_iff)

lemma fill_phase_mem:
  "fill_phase api prof threshold pos s = Ret s' \<Longrightarrow> lp_mem s' = lp_mem s"
  by (auto simp: fill_phase_def Let_def bnd_Ret_iff case_result_Ret_iff split: if_split_asm)

lemma phases_mem:
  assumes "phases api libc prof dq custom (\<lambda>_. Ret) n1 n2 threshold pos other s = Ret s'"
  shows "lp_mem s' = lp_mem s"
proof -
  from assms obtain s1 s2 s3 where s: "service_phase api prof custom n1 pos s = Ret s1"
    "recv_phase api libc prof dq (\<lambda>_. Ret) n2 custom pos s1 = Ret s2"
    "forward_phase api libc prof dq n2 pos other s2 = Ret s3"
    "fill_phase api prof threshold pos s3 = Ret s'"
    by (auto simp: bnd_Ret_iff)
  show ?thesis
    using service_phase_effect [OF s(1)]
    by (auto simp: recv_phase_mem [OF s(2)] forward_phase_mem [OF s(3)] fill_phase_mem [OF s(4)])
qed

lemma l2_run_mem:
  assumes "loop_run (l2_body api libc prof dq dflt) n s0 = Ret s"
  shows "lp_mem (snd s) = lp_mem (snd s0)"
proof -
  have step: "lp_mem (snd t') = lp_mem (snd s0)"
    if "lp_mem (snd t) = lp_mem (snd s0)" "l2_body api libc prof dq dflt t = Ret t'" for t t'
  proof -
    obtain p u where t: "t = (p, u)" by fastforce
    from that(2) obtain v where "phases api libc prof dq dflt (\<lambda>_. Ret) SERVICE_BATCH_SIZE
        SOCKET_BATCH_SIZE FILL_THRESHOLD p (peer p) u = Ret v" "t' = (peer p, v)"
      unfolding t l2_body_phases by (auto elim!: bnd_RetE)
    from phases_mem [OF this(1)] that(1) this(2) show ?thesis by (simp add: t)
  qed
  show ?thesis
    by (rule loop_run_inv [where P = "\<lambda>_ t. lp_mem (snd t) = lp_mem (snd s0)" and k = 0 and m = n,
          OF assms refl _ step]) simp
qed

lemma erase_l2_run:
  assumes "loop_run (l2_body api libc prof dq dflt) n (p, erase t0) = Ret (p', s)"
  shows "\<exists>t. loop_run (l2_body (tap api) (tap_libc libc) prof dq dflt) n (p, t0) = Ret (p', t) \<and> erase t = s"
proof -
  have "map_outcome (apsnd erase) (loop_run (l2_body (tap api) (tap_libc libc) prof dq dflt) n (p, t0)) = Ret (p', s)"
    using erase_loop_run [where f = "apsnd erase" and body' = "l2_body (tap api) (tap_libc libc) prof dq dflt"
        and body = "l2_body api libc prof dq dflt" and n = n and s = "(p, t0)",
        OF erase_l2_body] assms
    by simp
  then show ?thesis by (rule map_outcome_RetE) auto
qed

text \<open>
  Property C5. The program \<open>l2fwd-2link\<close> forwards in order and changes nothing: for every run after its
  set-up, the run with the recorder goes through the same states, and in its record the packets that
  arrived on one link are, with their address and length, in their order and each once, those handed
  to the tx ring of the other link followed by those still pending. The program itself never writes
  to a packet.
\<close>

theorem l2_forwards_in_order:
  assumes "xsk_setup api ok held kind window staged libc dq dq_ok queued"
    and "256 \<le> t_bufsize opt" and "t_bufnum opt * t_bufsize opt < 2 ^ 64"
    and "ok w" and "held w = {#}" and "\<forall>r. snd (window r w) = 0"
    and "l2_setup api libc prof dq dflt rlimit_ok opt m w = Ret (pos0, s0)"
    and "rx_of s0 0 \<noteq> rx_of s0 1" and "tx_of s0 0 \<noteq> tx_of s0 1"
    and "loop_run (l2_body api libc prof dq dflt) n (pos0, s0) = Ret (pos, s)"
    and "n * PENDING_LEN < 2 ^ 64"
  shows "lp_mem s = m \<and> (\<exists>l.
     loop_run (l2_body (tap api) (tap_libc libc) prof dq dflt) n (pos0, attach_log empty_log s0)
       = Ret (pos, attach_log l s)
     \<and> (\<forall>p < 2. map wire (wl_in l (rx_of s p))
          = map wire (wl_out l (tx_of s ((p + 1) mod 2))) @ map buf_wire (queued (lp_queues s ! p))))"
proof -
  let ?body = "l2_body (tap api) (tap_libc libc) prof dq dflt" and ?t0 = "attach_log empty_log s0"
  let ?P = "\<lambda>area k (p, t). run_inv ok held kind window dq_ok queued area peer 2 k (erase t)
     \<and> p = k mod 2 \<and> own_rings t \<and> in_order queued peer t"
  note link = xsk_setup.axioms(1) [OF assms(1)]
  obtain area where a: "buf_len area = t_bufsize opt"
    "run_inv ok held kind window dq_ok queued area peer 2 0 s0" "pos0 = 0"
    using xsk_setup.l2_run_start [OF assms(1,7,2-6)] by blast
  have l: "256 \<le> buf_len area" using a(1) assms(2) by simp
  have b: "length (lp_ports s0) = 2" "flow_ok queued peer s0" "\<forall>p < 2. rx_packets (lp_stats s0 ! p) = 0"
    using a(2) by (simp_all add: run_inv_def)
  then have "\<forall>p < 2. queued (lp_queues s0 ! p) = []" by (fastforce simp: flow_ok_def)
  then have start: "?P area 0 (pos0, ?t0)"
    using a(2,3) b(1) assms(8,9)
    by (auto simp: own_rings_def in_order_def empty_log_def less_2_cases_iff)
  obtain t where t: "loop_run ?body n (pos0, ?t0) = Ret (pos, t)" "erase t = s"
    using erase_l2_run [of api libc prof dq dflt n pos0 ?t0 pos s] assms(10) by auto
  have step: "?P area (Suc k) u'" if u: "?P area k u" and k: "k < n" and body: "?body u = Ret u'" for k u u'
  proof -
    obtain p v p' v' where e: "u = (p, v)" "u' = (p', v')" by (cases u; cases u')
    have p: "p < 2" "p = k mod 2" using u by (simp_all add: e)
    have n1: "SERVICE_BATCH_SIZE < 2 ^ 64" by (simp add: SERVICE_BATCH_SIZE_def)
    from body have "phases (tap api) (tap_libc libc) prof dq dflt (\<lambda>_. Ret) SERVICE_BATCH_SIZE
        SOCKET_BATCH_SIZE FILL_THRESHOLD p (peer p) v = Ret v'" "p' = peer p"
      unfolding e l2_body_phases by (auto elim!: bnd_RetE)
    then show ?thesis
      using xsk_link.order_phases [where out = peer, OF link _ l p(1) inj_peer
          Suc_k_room [OF k assms(11)] n1, of v] u p(2)
      by (simp add: e mod_Suc_eq)
  qed
  from loop_run_inv [where P = "?P area" and m = n, OF t(1) start _ step]
  have "?P area (0 + n) (pos, t)" by simp
  then have "in_order queued peer t" "length (lp_ports t) = 2" by (auto simp: run_inv_def)
  then have "\<forall>p < 2. map wire (wl_in (snd (lp_world t)) (rx_of s p))
      = map wire (wl_out (snd (lp_world t)) (tx_of s (peer p))) @ map buf_wire (queued (lp_queues s ! p))"
    by (simp add: in_order_def t(2) [symmetric])
  moreover have "lp_mem s = m"
    using l2_run_mem [OF assms(10)] assms(7) by (auto simp: l2_setup_def bnd_Ret_iff Let_def split: if_split_asm)
  ultimately show ?thesis using t attach_erase [of t] by metis
qed

text \<open>On the working kernel the two packets of each link leave on the other one.\<close>

lemma live_record:
  "\<exists>s0 t. live_setup = Ret (0, s0)
     \<and> loop_run (l2_body (tap ref_api) (tap_libc live_libc) Release list_deque ()) 3
         (0, attach_log empty_log s0) = Ret (1, t)
     \<and> map wire (wl_in (snd (lp_world t)) (False, Rx)) = [(6400, 60), (4352, 60)]
     \<and> map wire (wl_out (snd (lp_world t)) (True, Tx)) = [(6400, 60), (4352, 60)]"
  by (simp add: live_opt_def ex_l2_opt_def ex_boot_def live_rings_pow2 Let_def run_kernel run_crate run_loop
      loops_at_numerals attach_log_def empty_log_def log_window_def log_put_def log_release_def log_submit_def
      rx_entries_def upt_conv_Cons wire_def cong: run_congs)

theorem l2_forwards_in_order_witness:
  "\<exists>s0 s l. live_setup = Ret (0, s0)
     \<and> loop_run (l2_body (tap ref_api) (tap_libc live_libc) Release list_deque ()) 3 (0, attach_log empty_log s0)
       = Ret (1, attach_log l s)
     \<and> map wire (wl_out l (True, Tx)) = [(6400, 60), (4352, 60)]
     \<and> (\<forall>p < 2. map wire (wl_in l (rx_of s p))
          = map wire (wl_out l (tx_of s ((p + 1) mod 2))) @ map buf_wire (lp_queues s ! p))"
proof -
  obtain s0 s where s0: "live_setup = Ret (0, s0)"
    and "map (\<lambda>p. rx_ring (p_rx p)) (lp_ports s0) = [(False, Rx), (True, Rx)]"
    and "map (\<lambda>p. tx_ring (p_tx p)) (lp_ports s0) = [(False, Tx), (True, Tx)]"
    and s: "loop_run (l2_body ref_api live_libc Release list_deque ()) 3 (0, s0) = Ret (1, s)"
    using live_run by (elim exE conjE) (rule that)
  then have r: "rx_of s0 0 \<noteq> rx_of s0 1" "tx_of s0 0 \<noteq> tx_of s0 1"
    by (auto simp: map_eq_Cons_conv)
  obtain t where t: "loop_run (l2_body (tap ref_api) (tap_libc live_libc) Release list_deque ()) 3
      (0, attach_log empty_log s0) = Ret (1, t)"
    "map wire (wl_out (snd (lp_world t)) (True, Tx)) = [(6400, 60), (4352, 60)]"
    using live_record s0 by auto
  have o: "256 \<le> t_bufsize live_opt" "t_bufnum live_opt * t_bufsize live_opt < 2 ^ 64" "3 * PENDING_LEN < 2 ^ 64"
    by (simp_all add: live_opt_def ex_l2_opt_def PENDING_LEN_def)
  obtain l where l: "loop_run (l2_body (tap ref_api) (tap_libc live_libc) Release list_deque ()) 3
      (0, attach_log empty_log s0) = Ret (1, attach_log l s)"
    "\<forall>p < 2. map wire (wl_in l (rx_of s p))
       = map wire (wl_out l (tx_of s ((p + 1) mod 2))) @ map buf_wire (lp_queues s ! p)"
    using l2_forwards_in_order [OF xsk_setup_live o(1,2) ex_boot_facts(1-3) s0 r s o(3)] by blast
  then have "t = attach_log l s" using t(1) by simp
  with t(2) l s0 show ?thesis
    by (intro exI [of _ s0] exI [of _ s] exI [of _ l] conjI) simp_all
qed

end
