(* ===== verification/Dump.thy ===== *)
theory Dump
  imports Setup
begin

text \<open>
  \<open>examples/dump.rs\<close>: the program that prints every received packet and returns its buffer, from its
  first line. It creates a receiving half only, and keeps it with the fill queue in a \<open>State\<close> of its
  own; the completion queue and the socket are dropped. What the program prints is a list of lines; a
  \<open>Packet\<close> is the bytes it hands to the packet parser pnet, whose rendering is not modelled.
\<close>

datatype line = Packet "u8 list" | Oops | UnderFilled usize usize

abbreviation packets :: "line list \<Rightarrow> line list" where
  "packets \<equiv> filter (\<lambda>l. \<exists>bs. l = Packet bs)"

record dump_opt =
  d_bufsize :: usize
  d_bufnum :: usize
  d_batch_size :: usize
  d_link_name :: string
  d_link_channel :: usize
  d_huge_tlb :: bool
  d_zero_copy :: bool
  d_copy :: bool

record 'r dump_state =
  ds_fq :: "'r umem_fill_queue"
  ds_rx :: "'r socket_rx"
  ds_deficit :: usize

text \<open>The variables that live across the iterations; \<open>Stats\<close> has the fields of the forwarders.\<close>

record ('r, 'u, 'q, 'w) dump_loop =
  du_bufs :: "'u buf_mmap vec"
  du_v :: 'q
  du_state :: "'r dump_state"
  du_stats :: stats
  du_mem :: memory
  du_world :: 'w

section \<open>The set-up\<close>

definition dump_setup :: "('r, 'w) xsk_api \<Rightarrow> 'w libc_api \<Rightarrow> profile \<Rightarrow> ('u buf_mmap, 'q) deque_api \<Rightarrow> 'u
    \<Rightarrow> bool \<Rightarrow> u32 \<Rightarrow> u32 \<Rightarrow> dump_opt \<Rightarrow> memory \<Rightarrow> 'w \<Rightarrow> ('r, 'u, 'q, 'w) dump_loop outcome" where
  "dump_setup api libc prof dq dflt rlimit_ok cons_descs prod_descs opt m w =
     (if \<not> rlimit_ok then Panic ExplicitPanic
      else
        bnd (expect (mmap_area_new libc prof dflt (d_bufnum opt) (d_bufsize opt)
                       \<lparr>huge_tlb = d_huge_tlb opt\<rparr> w)) (\<lambda>((area, bs), w).
        if length (items bs) \<noteq> d_bufnum opt then Panic ExplicitPanic
        else
          bnd (expect (umem_new api libc prof area cons_descs prod_descs w)) (\<lambda>((um, _, fq), w).
          let options = socket_options_default\<lparr>zero_copy_mode := d_zero_copy opt,
                                               copy_mode := d_copy opt\<rparr> in
          bnd (expect (socket_new_rx api libc um (d_link_name opt) (d_link_channel opt) cons_descs
                         options w)) (\<lambda>((_, rx), w).
          bnd (fq_fill api prof fq bs (min (unat prod_descs) (d_bufnum opt)) w) (\<lambda>(r, bs, w).
          case r of
            Ok n \<Rightarrow>
              if n \<noteq> min (unat prod_descs) (d_bufnum opt) then Panic ExplicitPanic
              else Ret \<lparr>du_bufs = bs, du_v = dq_new dq,
                        du_state = \<lparr>ds_fq = fq, ds_rx = rx, ds_deficit = 0\<rparr>,
                        du_stats = stats_default, du_mem = m, du_world = w\<rparr>
          | Err _ \<Rightarrow> Panic ExplicitPanic)))))"

section \<open>The loop\<close>

definition dump_recv :: "('r, 'w) xsk_api \<Rightarrow> 'w libc_api \<Rightarrow> profile \<Rightarrow> ('u buf_mmap, 'q) deque_api
    \<Rightarrow> 'u \<Rightarrow> usize \<Rightarrow> ('r, 'u, 'q, 'w) dump_loop \<Rightarrow> ('r, 'u, 'q, 'w) dump_loop outcome" where
  "dump_recv api libc prof dq custom batch s =
     (let state = du_state s; stats = du_stats s in
      bnd (try_recv api prof dq (ds_rx state) (du_v s) batch custom (du_world s)) (\<lambda>(r, q, w).
        let s = s\<lparr>du_v := q, du_world := w\<rparr> in
        case r of
          Ok n \<Rightarrow>
            if 0 < n then
              bnd (usize_add prof (rx_packets stats) n) (\<lambda>rx.
              bnd (usize_add prof (ds_deficit state) n) (\<lambda>d.
                Ret (s\<lparr>du_stats := stats\<lparr>rx_packets := rx\<rparr>, du_state := state\<lparr>ds_deficit := d\<rparr>\<rparr>)))
            else if fq_needs_wakeup api (ds_fq state) w
            then Ret (s\<lparr>du_world := snd (rx_wake libc (ds_rx state) w)\<rparr>)
            else Ret s
        | Err _ \<Rightarrow> Panic ExplicitPanic))"

text \<open>\<open>dump\<close>: the queue, the vector and the count it leaves, and what it prints.\<close>

definition dump :: "profile \<Rightarrow> ('u buf_mmap, 'q) deque_api \<Rightarrow> memory \<Rightarrow> 'q \<Rightarrow> 'u buf_mmap vec \<Rightarrow> usize
    \<Rightarrow> ('q \<times> 'u buf_mmap vec \<times> usize \<times> line list) outcome" where
  "dump prof dq m input pool cnt =
     (if dq_is_empty dq input then Ret (input, pool, cnt, [])
      else bnd (usize_add prof cnt (dq_len dq input)) (\<lambda>cnt.
        let (bs, input) = dq_drain dq input in
        Ret (input, foldl vec_push pool bs, cnt, map (\<lambda>b. Packet (bm_get_data m b)) bs)))"

definition dump_phase :: "profile \<Rightarrow> ('u buf_mmap, 'q) deque_api \<Rightarrow> ('r, 'u, 'q, 'w) dump_loop
    \<Rightarrow> (('r, 'u, 'q, 'w) dump_loop \<times> line list) outcome" where
  "dump_phase prof dq s =
     bnd (dump prof dq (du_mem s) (du_v s) (du_bufs s) 0) (\<lambda>(q, bs, cnt, out).
       Ret (s\<lparr>du_bufs := bs, du_v := q\<rparr>, if items bs = [] then out @ [Oops] else out))"

definition dump_fill :: "('r, 'w) xsk_api \<Rightarrow> profile \<Rightarrow> ('r, 'u, 'q, 'w) dump_loop
    \<Rightarrow> (('r, 'u, 'q, 'w) dump_loop \<times> line list) outcome" where
  "dump_fill api prof s =
     (let state = du_state s; stats = du_stats s in
      if FILL_THRESHOLD \<le> ds_deficit state then
        bnd (fq_fill api prof (ds_fq state) (du_bufs s) (ds_deficit state) (du_world s)) (\<lambda>(r, bs, w).
          case r of
            Ok n \<Rightarrow>
              let out = (if n \<noteq> FILL_THRESHOLD then [UnderFilled n FILL_THRESHOLD] else []) in
              bnd (usize_add prof (fq_bufs stats) n) (\<lambda>f.
              bnd (usize_sub prof (ds_deficit state) n) (\<lambda>d.
                Ret (s\<lparr>du_bufs := bs, du_world := w, du_stats := stats\<lparr>fq_bufs := f\<rparr>,
                       du_state := state\<lparr>ds_deficit := d\<rparr>\<rparr>, out)))
          | Err _ \<Rightarrow> Panic ExplicitPanic)
      else Ret (s, []))"

definition dump_body :: "('r, 'w) xsk_api \<Rightarrow> 'w libc_api \<Rightarrow> profile \<Rightarrow> ('u buf_mmap, 'q) deque_api
    \<Rightarrow> 'u \<Rightarrow> usize \<Rightarrow> ('r, 'u, 'q, 'w) dump_loop \<Rightarrow> (('r, 'u, 'q, 'w) dump_loop \<times> line list) outcome" where
  "dump_body api libc prof dq custom batch s =
     bnd (dump_recv api libc prof dq custom batch s) (\<lambda>s.
     bnd (dump_phase prof dq s) (\<lambda>(s, out).
     bnd (dump_fill api prof s) (\<lambda>(s, out').
       Ret (s, out @ out'))))"

text \<open>The loop does not end; a run is any number of iterations, with everything they print.\<close>

primrec dump_run :: "('s \<Rightarrow> ('s \<times> line list) outcome) \<Rightarrow> nat \<Rightarrow> 's \<Rightarrow> ('s \<times> line list) outcome" where
  "dump_run body 0 s = Ret (s, [])"
| "dump_run body (Suc n) s =
     bnd (body s) (\<lambda>(s, out). bnd (dump_run body n s) (\<lambda>(s, out'). Ret (s, out @ out')))"

section \<open>The invariant\<close>

definition dump_app :: "('r, 'u, 'q, 'w) dump_loop \<Rightarrow> ('u, 'q, 'w) app" where
  "dump_app s = \<lparr>a_vecs = [du_bufs s], a_queues = [du_v s], a_pool = bpv_new 0, a_world = du_world s\<rparr>"

definition dump_env :: "('r, 'u, 'q, 'w) dump_loop \<Rightarrow> 'r env" where
  "dump_env s = \<lparr>env_cqs = [], env_fqs = [ds_fq (du_state s)], env_rxs = [ds_rx (du_state s)],
                 env_txs = []\<rparr>"

definition dump_inv :: "('w \<Rightarrow> bool) \<Rightarrow> ('w \<Rightarrow> u64 multiset) \<Rightarrow> ('r \<Rightarrow> ring_kind)
    \<Rightarrow> ('r \<Rightarrow> 'w \<Rightarrow> u32 \<times> nat) \<Rightarrow> ('q \<Rightarrow> bool) \<Rightarrow> ('q \<Rightarrow> 'u buf_mmap list) \<Rightarrow> mmap_area
    \<Rightarrow> ('r, 'u, 'q, 'w) dump_loop \<Rightarrow> bool" where
  "dump_inv ok held kind window dq_ok queued area s \<longleftrightarrow>
     own_inv ok held window dq_ok queued area (dump_app s) \<and> env_ok kind area (dump_env s)
     \<and> rx_packets (du_stats s) = fq_bufs (du_stats s) + ds_deficit (du_state s)
     \<and> rx_packets (du_stats s) < 2 ^ 64"

context xsk_link
begin

lemma dump_inv_facts:
  assumes "dump_inv ok held kind window dq_ok queued area s"
  shows "dq_ok (du_v s)" "ok (du_world s)" "\<forall>p. snd (window p (du_world s)) = 0"
    "kind (rx_ring (ds_rx (du_state s))) = Rx" "um_area (so_umem (rx_socket (ds_rx (du_state s)))) = area"
    "kind (fq_ring (ds_fq (du_state s))) = Fill"
    "own_inv ok held window dq_ok queued area (dump_app s)" "env_ok kind area (dump_env s)"
  using assms by (auto simp: dump_inv_def own_inv_def dump_app_def dump_env_def env_ok_def)

lemma dump_recv_inv:
  assumes rc: "dump_recv api libc prof dq custom batch s = Ret s'"
    and inv: "dump_inv ok held kind window dq_ok queued area s" and ma: "256 \<le> buf_len area"
    and room: "rx_packets (du_stats s) + PENDING_LEN < 2 ^ 64"
  shows "dump_inv ok held kind window dq_ok queued area s' \<and> du_mem s' = du_mem s
     \<and> rx_packets (du_stats s') + length (queued (du_v s))
        = rx_packets (du_stats s) + length (queued (du_v s'))
     \<and> (\<exists>r w. try_recv api prof dq (ds_rx (du_state s)) (du_v s) batch custom (du_world s) = Ret (r, du_v s', w))"
proof -
  let ?x = "ds_rx (du_state s)" and ?d = "ds_deficit (du_state s)" and ?rx = "rx_packets (du_stats s)"
  note i = dump_inv_facts [OF inv]
  have b: "?rx = fq_bufs (du_stats s) + ?d" using inv by (simp add: dump_inv_def)
  from rc obtain r q w where c: "try_recv api prof dq ?x (du_v s) batch custom (du_world s) = Ret (r, q, w)"
    by (auto simp: dump_recv_def bnd_Ret_iff Let_def)
  obtain ds where "r = Ok (length ds)" "dq_ok q" "queued q = queued (du_v s) @ map (rx_buf area custom) ds"
    using recv_ret [OF c i(2,4,3) _ i(1)] ma unfolding i(5) by blast
  then have ds: "r = Ok (length ds)" "dq_ok q" "length (queued q) = length (queued (du_v s)) + length ds"
    by simp_all
  have k: "length ds \<le> PENDING_LEN" using queued_bound [OF ds(2)] ds(3) by simp
  have add: "usize_add prof ?rx (length ds) = Ret (?rx + length ds)"
    "usize_add prof ?d (length ds) = Ret (?d + length ds)"
    using k room b by (auto intro!: usize_add_ok)
  have s': "du_bufs s' = du_bufs s" "du_v s' = q" "du_mem s' = du_mem s"
    "du_world s' = w \<or> du_world s' = snd (rx_wake libc ?x w)"
    "du_stats s' = (du_stats s)\<lparr>rx_packets := ?rx + length ds\<rparr>"
    "du_state s' = (du_state s)\<lparr>ds_deficit := ?d + length ds\<rparr>"
    using rc c ds(1) add by (auto simp: dump_recv_def Let_def split: if_split_asm)
  let ?t = "(dump_app s)\<lparr>a_queues := (a_queues (dump_app s))[0 := q], a_world := w\<rparr>"
  let ?step = "app_step api libc prof dq custom (dump_env s)"
  have "?step (dump_app s) ?t"
    by (rule recv [where x = ?x and n = batch and r = r and user = custom])
      (use c in \<open>simp_all add: dump_app_def dump_env_def\<close>)
  then have t: "own_inv ok held window dq_ok queued area ?t" by (rule step_preserves [OF i(7,8) ma])
  have "?step ?t (?t\<lparr>a_world := snd (rx_wake libc ?x w)\<rparr>)"
    by (rule wake [where x = ?x and e = "fst (rx_wake libc ?x w)"]) (simp_all add: dump_env_def)
  then have "own_inv ok held window dq_ok queued area (?t\<lparr>a_world := snd (rx_wake libc ?x w)\<rparr>)"
    by (rule step_preserves [OF t i(8) ma])
  then have "own_inv ok held window dq_ok queued area (dump_app s')"
    using s'(1,2,4) t by (auto simp: dump_app_def)
  then have "dump_inv ok held kind window dq_ok queued area s'"
    using i(8) b k room by (simp add: dump_inv_def dump_env_def s')
  then show ?thesis using c ds(3) by (simp add: s')
qed

lemma dump_recv_returns:
  assumes inv: "dump_inv ok held kind window dq_ok queued area s" and ma: "256 \<le> buf_len area"
  shows "\<exists>s'. dump_recv api libc Release dq custom batch s = Ret s'"
proof -
  note i = dump_inv_facts [OF inv]
  obtain k q w where "try_recv api Release dq (ds_rx (du_state s)) (du_v s) batch custom (du_world s)
      = Ret (Ok k, q, w)"
    using recv_returns [OF i(2,4,3) _ i(1)] ma unfolding i(5) by blast
  then show ?thesis by (simp add: dump_recv_def Let_def usize_add_Release)
qed

end

context xsk_link
begin

lemma dump_returns_buffers:
  assumes "dq_ok q"
  shows "\<exists>q' out. dump prof dq m q pool 0
       = Ret (q', foldl vec_push pool (queued q), length (queued q), out)
     \<and> dq_ok q' \<and> queued q' = [] \<and> out = map (\<lambda>b. Packet (bm_get_data m b)) (queued q)"
proof (cases "queued q = []")
  case True
  then show ?thesis using assms by (simp add: dump_def is_empty_deque)
next
  case False
  obtain bs q' where d: "dq_drain dq q = (bs, q')" by fastforce
  have "length (queued q) < 2 ^ 64" using queued_bound [OF assms] by (simp add: PENDING_LEN_def)
  then show ?thesis
    using False assms drain_deque [OF assms d]
    by (simp add: dump_def is_empty_deque len_deque usize_add_ok d)
qed

lemma dump_phase_inv:
  assumes inv: "dump_inv ok held kind window dq_ok queued area s" and ma: "256 \<le> buf_len area"
  shows "\<exists>s' out. dump_phase prof dq s = Ret (s', out) \<and> dump_inv ok held kind window dq_ok queued area s'
     \<and> queued (du_v s') = [] \<and> du_stats s' = du_stats s
     \<and> packets out = map (\<lambda>b. Packet (bm_get_data (du_mem s) b)) (queued (du_v s)) \<and> du_mem s' = du_mem s"
proof -
  note i = dump_inv_facts [OF inv]
  let ?bs = "foldl vec_push (du_bufs s) (queued (du_v s))"
    and ?out = "map (\<lambda>b. Packet (bm_get_data (du_mem s) b)) (queued (du_v s))"
  obtain q where q: "dump prof dq (du_mem s) (du_v s) (du_bufs s) 0 = Ret (q, ?bs, length (queued (du_v s)), ?out)"
    "dq_ok q" "queued q = []"
    using dump_returns_buffers [OF i(1)] by blast
  obtain ds q' where dr: "dq_drain dq (du_v s) = (ds, q')" by fastforce
  note dd = drain_deque [OF i(1) dr]
  let ?t = "(dump_app s)\<lparr>a_vecs := (a_vecs (dump_app s))[0 := foldl vec_push (a_vecs (dump_app s) ! 0) ds],
      a_queues := (a_queues (dump_app s))[0 := q']\<rparr>"
  have "app_step api libc prof dq undefined (dump_env s) (dump_app s) ?t"
    by (rule drain) (use dr in \<open>simp_all add: dump_app_def\<close>)
  then have t: "own_inv ok held window dq_ok queued area ?t" by (rule step_preserves [OF i(7,8) ma])
  let ?s = "s\<lparr>du_bufs := ?bs, du_v := q\<rparr>"
  have "own_inv ok held window dq_ok queued area (dump_app ?s)"
    using t dd q(2,3) by (simp add: own_inv_def live_bufs_def dump_app_def)
  then have "dump_inv ok held kind window dq_ok queued area ?s"
    using inv by (simp add: dump_inv_def dump_env_def)
  then show ?thesis
    using q by (simp add: dump_phase_def comp_def)
qed

lemma dump_fill_inv:
  assumes f: "dump_fill api prof s = Ret (s', out)"
    and inv: "dump_inv ok held kind window dq_ok queued area s" and ma: "256 \<le> buf_len area"
  shows "dump_inv ok held kind window dq_ok queued area s' \<and> du_v s' = du_v s \<and> du_mem s' = du_mem s
     \<and> rx_packets (du_stats s') = rx_packets (du_stats s) \<and> packets out = []"
proof (cases "FILL_THRESHOLD \<le> ds_deficit (du_state s)")
  case False
  then show ?thesis using f inv by (simp add: dump_fill_def Let_def)
next
  case True
  let ?d = "ds_deficit (du_state s)"
  note i = dump_inv_facts [OF inv]
  have b: "rx_packets (du_stats s) = fq_bufs (du_stats s) + ?d" "rx_packets (du_stats s) < 2 ^ 64"
    using inv by (simp_all add: dump_inv_def)
  then have d: "?d < 2 ^ 64" by simp
  from f True obtain r bs w where c: "fq_fill api prof (ds_fq (du_state s)) (du_bufs s) ?d (du_world s)
      = Ret (r, bs, w)" by (auto simp: dump_fill_def Let_def bnd_Ret_iff)
  obtain k where k: "r = Ok k" "k \<le> ?d" using fill_ret [OF c i(2,6,3) d] by auto
  have ar: "usize_add prof (fq_bufs (du_stats s)) k = Ret (fq_bufs (du_stats s) + k)"
    "usize_sub prof ?d k = Ret (?d - k)"
    using k b by (auto intro!: usize_add_ok usize_sub_ok)
  have s': "s' = s\<lparr>du_bufs := bs, du_world := w,
      du_stats := (du_stats s)\<lparr>fq_bufs := fq_bufs (du_stats s) + k\<rparr>,
      du_state := (du_state s)\<lparr>ds_deficit := ?d - k\<rparr>\<rparr>" and o: "packets out = []"
    using f True c k(1) ar by (auto simp: dump_fill_def Let_def)
  let ?t = "(dump_app s)\<lparr>a_vecs := (a_vecs (dump_app s))[0 := bs], a_world := w\<rparr>"
  have "app_step api libc prof dq undefined (dump_env s) (dump_app s) ?t"
    by (rule fill [where f = "ds_fq (du_state s)" and n = ?d and r = r])
      (use c d in \<open>simp_all add: dump_app_def dump_env_def\<close>)
  then have "own_inv ok held window dq_ok queued area (dump_app s')"
    using step_preserves [OF i(7,8) ma] by (simp add: dump_app_def s')
  then show ?thesis using i(8) b k(2) o by (simp add: dump_inv_def dump_env_def s')
qed

lemma dump_fill_returns:
  assumes inv: "dump_inv ok held kind window dq_ok queued area s"
  shows "\<exists>s' out. dump_fill api Release s = Ret (s', out)"
proof -
  note i = dump_inv_facts [OF inv]
  have "ds_deficit (du_state s) < 2 ^ 64" using inv by (simp add: dump_inv_def)
  from fill_returns [OF i(2,6,3) this] obtain k v w where
    "fq_fill api Release (ds_fq (du_state s)) (du_bufs s) (ds_deficit (du_state s)) (du_world s) = Ret (Ok k, v, w)"
    by blast
  then show ?thesis by (simp add: dump_fill_def Let_def usize_add_Release usize_sub_Release)
qed

lemma dump_body_returns:
  assumes "dump_inv ok held kind window dq_ok queued area s" and ma: "256 \<le> buf_len area"
    and "rx_packets (du_stats s) + PENDING_LEN < 2 ^ 64"
  shows "\<exists>s' out. dump_body api libc Release dq custom batch s = Ret (s', out)"
proof -
  obtain s1 where s1: "dump_recv api libc Release dq custom batch s = Ret s1"
    using dump_recv_returns [OF assms(1,2)] by blast
  have "dump_inv ok held kind window dq_ok queued area s1"
    using dump_recv_inv [OF s1 assms] by blast
  from dump_phase_inv [OF this ma] obtain s2 out where s2: "dump_phase Release dq s1 = Ret (s2, out)"
    "dump_inv ok held kind window dq_ok queued area s2" by blast
  from dump_fill_returns [OF s2(2)] show ?thesis using s1 s2(1) by (auto simp: dump_body_def)
qed

text \<open>An iteration that finds nothing pending.\<close>

lemma dump_body_inv:
  assumes bd: "dump_body api libc prof dq custom batch s = Ret (s', out)"
    and inv: "dump_inv ok held kind window dq_ok queued area s" and ma: "256 \<le> buf_len area"
    and room: "rx_packets (du_stats s) + PENDING_LEN < 2 ^ 64" and q: "queued (du_v s) = []"
  shows "\<exists>r v w. try_recv api prof dq (ds_rx (du_state s)) (du_v s) batch custom (du_world s) = Ret (r, v, w)
     \<and> packets out = map (\<lambda>b. Packet (bm_get_data (du_mem s) b)) (queued v)
     \<and> rx_packets (du_stats s') = rx_packets (du_stats s) + length (queued v)
     \<and> length (queued v) \<le> PENDING_LEN
     \<and> dump_inv ok held kind window dq_ok queued area s' \<and> queued (du_v s') = []"
proof -
  from bd obtain s1 s2 o1 o2 where s: "dump_recv api libc prof dq custom batch s = Ret s1"
    "dump_phase prof dq s1 = Ret (s2, o1)" "dump_fill api prof s2 = Ret (s', o2)" "out = o1 @ o2"
    by (auto simp: dump_body_def bnd_Ret_iff)
  note rc = dump_recv_inv [OF s(1) inv ma room]
  then have i1: "dump_inv ok held kind window dq_ok queued area s1" by blast
  obtain i2: "dump_inv ok held kind window dq_ok queued area s2"
    and ph: "queued (du_v s2) = []" "du_stats s2 = du_stats s1"
      "packets o1 = map (\<lambda>b. Packet (bm_get_data (du_mem s1) b)) (queued (du_v s1))"
    using dump_phase_inv [OF i1 ma, of prof] s(2) by auto
  note fl = dump_fill_inv [OF s(3) i2 ma]
  have "length (queued (du_v s1)) \<le> PENDING_LEN" using queued_bound dump_inv_facts(1) [OF i1] .
  then show ?thesis using rc ph fl q by (auto simp: s(4))
qed

end

section \<open>The program\<close>

context xsk_setup
begin

lemma socket_new_rx_keeps:
  assumes "expect (socket_new_rx api libc um ifn queue rsz options w) = Ret ((s, rx), w')" and "ok w"
  shows "kind (rx_ring rx) = Rx \<and> so_umem (rx_socket rx) = um
     \<and> ok w' \<and> held w' = held w \<and> (\<forall>q. window q w' = window q w)"
proof -
  obtain x w1 where r: "new_ring api w = (x, w1)" by fastforce
  from assms(1) obtain c where c: "cstring_new ifn = Ret c"
    unfolding expect_Ret socket_new_rx_def by (auto simp: bnd_Ret_iff Let_def r split: if_split_asm)
  let ?cfg = "socket_config api rsz 0 options"
  obtain e p w3 where sc: "socket_create api c (of_nat queue) (umem_get_ptr um) (Some x) None ?cfg w1
      = (e, p, w3)"
    by (cases "socket_create api c (of_nat queue) (umem_get_ptr um) (Some x) None ?cfg w1")
  have d: "e = 0" "w3 = w'" "so_umem (rx_socket rx) = um" "rx_ring rx = x"
    using assms(1) unfolding expect_Ret socket_new_rx_def
    by (auto simp: Let_def r c sc split: if_split_asm)
  note k1 = new_ring_keeps [OF assms(2) r]
  note k2 = socket_create_keeps [OF conjunct1 [OF k1] sc]
  show ?thesis using k1 k2 d by simp
qed

lemma dump_setup_inv:
  assumes st: "dump_setup api libc prof dq dflt rlimit_ok cons_descs prod_descs opt m w = Ret s"
    and len: "256 \<le> d_bufsize opt" and size: "d_bufnum opt * d_bufsize opt < 2 ^ 64"
    and w: "ok w" "held w = {#}" "\<forall>r. snd (window r w) = 0"
  shows "\<exists>area. ma_wf area \<and> buf_num area = d_bufnum opt \<and> buf_len area = d_bufsize opt
     \<and> dump_inv ok held kind window dq_ok queued area s \<and> queued (du_v s) = []
     \<and> rx_packets (du_stats s) = 0"
proof -
  let ?n = "min (unat prod_descs) (d_bufnum opt)"
  let ?opts = "socket_options_default\<lparr>zero_copy_mode := d_zero_copy opt, copy_mode := d_copy opt\<rparr>"
  from st obtain area bs w1 um cq fq w2 skt rx w3 v w4 where
    a: "expect (mmap_area_new libc prof dflt (d_bufnum opt) (d_bufsize opt)
          \<lparr>huge_tlb = d_huge_tlb opt\<rparr> w) = Ret ((area, bs), w1)"
    and u: "expect (umem_new api libc prof area cons_descs prod_descs w1) = Ret ((um, cq, fq), w2)"
    and k: "expect (socket_new_rx api libc um (d_link_name opt) (d_link_channel opt) cons_descs ?opts w2)
          = Ret ((skt, rx), w3)"
    and f: "fq_fill api prof fq bs ?n w3 = Ret (Ok ?n, v, w4)"
    and s: "s = \<lparr>du_bufs = v, du_v = dq_new dq, du_state = \<lparr>ds_fq = fq, ds_rx = rx, ds_deficit = 0\<rparr>,
        du_stats = stats_default, du_mem = m, du_world = w4\<rparr>"
    by (auto simp: dump_setup_def bnd_Ret_iff Let_def case_result_Ret_iff split: if_split_asm)
  note k1 = area_new_keeps [OF a w(1) size]
  note k2 = umem_new_keeps [OF u conjunct1 [OF k1]]
  then have "ok w2" by simp
  note k3 = socket_new_rx_keeps [OF k this]
  have nt: "?n < 2 ^ 64" using unat_u32_lt [of prod_descs] by simp
  have kp: "ok w3" "held w3 = held w1" "\<forall>q. window q w3 = window q w1" using k2 k3 by simp_all
  have st: "ma_wf area" "buf_num area = d_bufnum opt" "buf_len area = d_bufsize opt"
    "own_inv ok held window dq_ok queued area (app_start dq bs 1 0 w3)"
    using area_start [OF a len size w kp, of 1] by auto
  have "own_inv ok held window dq_ok queued area
      ((app_start dq bs 1 0 w3)\<lparr>a_vecs := (a_vecs (app_start dq bs 1 0 w3))[0 := v], a_world := w4\<rparr>)"
    by (rule fill_keeps_inv [OF st(4), where fq = fq and n = ?n and prof = prof and r = "Ok ?n"])
      (use st(3) len k2 f nt in \<open>simp_all add: app_start_def\<close>)
  then have "own_inv ok held window dq_ok queued area (dump_app s)"
    by (simp add: app_start_def s dump_app_def)
  moreover have "env_ok kind area (dump_env s)" using k2 k3 by (simp add: env_ok_def dump_env_def s)
  ultimately have "dump_inv ok held kind window dq_ok queued area s"
    by (simp add: dump_inv_def s stats_default_def)
  then show ?thesis using st(1-3) new_deque by (auto simp: s stats_default_def)
qed

end

context xsk_link
begin

lemma dump_run_correct:
  assumes inv: "dump_inv ok held kind window dq_ok queued area s" "queued (du_v s) = []"
    and room: "rx_packets (du_stats s) + n * PENDING_LEN < 2 ^ 64" and ma: "256 \<le> buf_len area"
  shows "(prof = Release \<longrightarrow> (\<exists>t out. dump_run (dump_body api libc prof dq custom batch) n s = Ret (t, out)))
     \<and> (\<forall>t out. dump_run (dump_body api libc prof dq custom batch) n s = Ret (t, out) \<longrightarrow>
          dump_inv ok held kind window dq_ok queued area t \<and> queued (du_v t) = []
        \<and> rx_packets (du_stats t) = rx_packets (du_stats s) + length (packets out))"
  using inv room
proof (induction n arbitrary: s)
  case (Suc n)
  let ?body = "dump_body api libc prof dq custom batch"
  have r: "rx_packets (du_stats s) + PENDING_LEN < 2 ^ 64" using Suc.prems(3) by simp
  have step: "dump_inv ok held kind window dq_ok queued area t \<and> queued (du_v t) = []
      \<and> rx_packets (du_stats t) = rx_packets (du_stats s) + length (packets out)
      \<and> rx_packets (du_stats t) + n * PENDING_LEN < 2 ^ 64" if "?body s = Ret (t, out)" for t out
    using dump_body_inv [OF that Suc.prems(1) ma r Suc.prems(2)] Suc.prems(3) by auto
  show ?case
  proof (cases "\<exists>t out. ?body s = Ret (t, out)")
    case True
    then obtain t out where t: "?body s = Ret (t, out)" by blast
    note st = step [OF t]
    have e: "dump_run ?body (Suc n) s = bnd (dump_run ?body n t) (\<lambda>(u, out'). Ret (u, out @ out'))"
      by (simp add: t)
    from Suc.IH [of t] st show ?thesis unfolding e by (cases "dump_run ?body n t") auto
  next
    case False
    then have "prof \<noteq> Release" using dump_body_returns [OF Suc.prems(1) ma r] by blast
    moreover have "dump_run ?body (Suc n) s \<noteq> Ret x" for x
      using False by (auto simp: bnd_Ret_iff)
    ultimately show ?thesis by blast
  qed
qed simp

lemma dump_inv_safe:
  assumes "dump_inv ok held kind window dq_ok queued area s" and "ma_wf area"
  shows "owned (live_bufs queued (dump_app s)) + held (du_world s) = mset (frame_addrs area)
     \<and> apart (live_bufs queued (dump_app s))"
proof -
  have own: "own_inv ok held window dq_ok queued area (dump_app s)" by (rule dump_inv_facts [OF assms(1)])
  then have "owned (live_bufs queued (dump_app s)) + held (a_world (dump_app s)) = mset (frame_addrs area)"
    unfolding own_inv_def by blast
  moreover have "apart (live_bufs queued (dump_app s))"
    unfolding sorted_wrt_iff_nth_less using own_inv_live_disjoint [OF own assms(2)] by simp
  ultimately show ?thesis by (simp add: dump_app_def)
qed

end

text \<open>
  Property C24. An iteration of \<open>dump\<close>: for every descriptor in the window that its peek at the rx ring
  opens, in the order of the ring, it prints the bytes of that descriptor's frame exactly once, leaves no
  packet pending, returns or refills every buffer, and keeps
  \<open>rx_packets = fq_bufs + fq_deficit\<close>.
\<close>

theorem dump_body_prints:
  assumes "xsk_link api ok held kind window staged libc dq dq_ok queued" and "256 \<le> buf_len area"
    and "dump_inv ok held kind window dq_ok queued area s" and "queued (du_v s) = []"
    and "rx_packets (du_stats s) + PENDING_LEN < 2 ^ 64"
    and "dump_body api libc prof dq custom batch s = Ret (s', out)"
  shows "\<exists>n i w1. cons_peek api (rx_ring (ds_rx (du_state s))) (of_nat (min PENDING_LEN batch)) 0 (du_world s) = (n, i, w1)
     \<and> packets out = map (\<lambda>d. Packet (slice_read (du_mem s) (frame_slice area (desc_addr d))))
         (rx_entries api (rx_ring (ds_rx (du_state s))) i (unat n) w1)
     \<and> own_inv ok held window dq_ok queued area (dump_app s') \<and> queued (du_v s') = []
     \<and> rx_packets (du_stats s') = rx_packets (du_stats s) + unat n
     \<and> rx_packets (du_stats s') = fq_bufs (du_stats s') + ds_deficit (du_state s')"
proof -
  obtain r q w where r: "try_recv api prof dq (ds_rx (du_state s)) (du_v s) batch custom (du_world s) = Ret (r, q, w)"
    and out: "packets out = map (\<lambda>b. Packet (bm_get_data (du_mem s) b)) (queued q)"
    and s': "own_inv ok held window dq_ok queued area (dump_app s') \<and> queued (du_v s') = []
     \<and> rx_packets (du_stats s') = rx_packets (du_stats s) + length (queued q)
     \<and> rx_packets (du_stats s') = fq_bufs (du_stats s') + ds_deficit (du_state s')"
    using xsk_link.dump_body_inv [OF assms(1,6,3,2,5,4)] by (auto simp: dump_inv_def)
  have inv: "ok (du_world s)" "\<forall>p. snd (window p (du_world s)) = 0" "dq_ok (du_v s)"
    "kind (rx_ring (ds_rx (du_state s))) = Rx" "um_area (so_umem (rx_socket (ds_rx (du_state s)))) = area"
    using assms(3) by (auto simp: dump_inv_def own_inv_def env_ok_def dump_env_def dump_app_def)
  show ?thesis
    using xsk_link.recv_ret_entries [OF assms(1) r inv(1,4,2) _ inv(3)] assms(2,4) out s'
    by (auto simp: inv(5) bm_get_data_def frame_buf_def comp_def)
qed

text \<open>
  Property C23. The program \<open>dump\<close> from its first line: once its set-up returned, after any number of
  iterations the number of packets it printed is the number it counted as received, nothing is pending,
  every counted packet is refilled or owed, its buffers occupy disjoint memory and every frame is in
  exactly one place. A release build completes every iteration.
\<close>

theorem dump_program_correct:
  assumes "xsk_setup api ok held kind window staged libc dq dq_ok queued"
    and "256 \<le> d_bufsize opt" and "d_bufnum opt * d_bufsize opt < 2 ^ 64"
    and "ok w" and "held w = {#}" and "\<forall>r. snd (window r w) = 0"
    and "dump_setup api libc prof dq dflt rlimit_ok cons_descs prod_descs opt m w = Ret s0"
    and "n * PENDING_LEN < 2 ^ 64"
  shows "(prof = Release \<longrightarrow> (\<exists>s out. dump_run (dump_body api libc prof dq dflt (d_batch_size opt)) n s0 = Ret (s, out)))
     \<and> (\<forall>s out. dump_run (dump_body api libc prof dq dflt (d_batch_size opt)) n s0 = Ret (s, out) \<longrightarrow>
          length (packets out) = rx_packets (du_stats s) \<and> queued (du_v s) = []
        \<and> rx_packets (du_stats s) = fq_bufs (du_stats s) + ds_deficit (du_state s)
        \<and> apart (live_bufs queued (dump_app s))
        \<and> (\<exists>area. ma_wf area \<and> buf_num area = d_bufnum opt \<and> buf_len area = d_bufsize opt
             \<and> owned (live_bufs queued (dump_app s)) + held (du_world s) = mset (frame_addrs area)))"
proof -
  note link = xsk_setup.axioms(1) [OF assms(1)]
  obtain area where a: "ma_wf area" "buf_num area = d_bufnum opt" "buf_len area = d_bufsize opt"
    "dump_inv ok held kind window dq_ok queued area s0" "queued (du_v s0) = []"
    "rx_packets (du_stats s0) = 0"
    using xsk_setup.dump_setup_inv [OF assms(1,7,2,3,4,5,6)] by blast
  have "256 \<le> buf_len area" "rx_packets (du_stats s0) + n * PENDING_LEN < 2 ^ 64"
    using a(3,6) assms(2,8) by simp_all
  note run = xsk_link.dump_run_correct [OF link a(4,5) this(2,1), of prof dflt "d_batch_size opt"]
  show ?thesis
    using run a(1-3,6) xsk_link.dump_inv_safe [OF link _ a(1)] by (auto simp: dump_inv_def)
qed

section \<open>Examples\<close>

definition ex_dump :: "kworld \<Rightarrow> (kring_id, unit, unit buf_mmap list, kworld) dump_loop" where
  "ex_dump w = \<lparr>du_bufs = ex_bufs [4352, 6400, 8448, 10496, 12544, 14592], du_v = [],
     du_state = \<lparr>ds_fq = ex_fq, ds_rx = ex_rx, ds_deficit = 0\<rparr>, du_stats = stats_default,
     du_mem = (\<lambda>_. 7), du_world = w\<rparr>"

lemma ex_dump_inv:
  assumes "k_ok w" and "\<And>r. snd (k_window r w) = 0" and "k_held w = {#256, 2304#}"
  shows "dump_inv k_ok k_held snd k_window (\<lambda>q. length q \<le> PENDING_LEN) (\<lambda>q. q) ex_area (ex_dump w)"
proof -
  have "own_inv k_ok k_held k_window (\<lambda>q. length q \<le> PENDING_LEN) (\<lambda>q. q) ex_area (dump_app (ex_dump w))"
    using assms
    by (simp add: own_inv_def dump_app_def ex_dump_def live_bufs_def ex_bufs_def bpv_new_def
        vec_wf_def PENDING_LEN_def ex_area_frames del: split_paired_All)
  then show ?thesis
    by (simp add: dump_inv_def env_ok_def dump_env_def ex_dump_def ex_fq_def ex_rx_def
        ex_umem_def ex_socket_def stats_default_def)
qed

theorem dump_body_prints_witness:
  "\<exists>s' out. dump_body ref_api quiet_libc Release list_deque () 2 (ex_dump (ex_rx_world 0)) = Ret (s', out)
     \<and> packets out = map (\<lambda>a. Packet (slice_read (\<lambda>_. 7) (frame_slice ex_area a))) [256, 2304]"
proof -
  let ?s = "ex_dump (ex_rx_world 0)"
  note i = ex_dump_inv [OF ex_rx_world_facts(1) ex_rx_world_facts(2) ex_rx_world_facts(3), of 0]
  have c: "256 \<le> buf_len ex_area" "du_v ?s = []" "rx_packets (du_stats ?s) + PENDING_LEN < 2 ^ 64"
    "ds_rx (du_state ?s) = ex_rx" "du_world ?s = ex_rx_world 0" "du_mem ?s = (\<lambda>_. 7)"
    by (simp_all add: ex_dump_def ex_area_def PENDING_LEN_def stats_default_def)
  obtain s' out where b: "dump_body ref_api quiet_libc Release list_deque () 2 ?s = Ret (s', out)"
    using quietlink.dump_body_returns [OF i c(1,3)] by blast
  obtain w1 where w1: "cons_peek ref_api (rx_ring ex_rx) 2 0 (ex_rx_world 0) = (2, 0, w1)"
    and k1: "w1 = set_ring (False, Rx) ((k_ring (ex_rx_world 0) (False, Rx))\<lparr>kr_ccons := 2\<rparr>) (ex_rx_world 0)"
    by (simp add: ref_api_simps ex_rx_def ex_rx_world_def mk_kring_def)
  have ds: "rx_entries ref_api (rx_ring ex_rx) 0 2 w1 = [mk_desc 256 60, mk_desc 2304 64]"
    by (simp add: k1 rx_entries_def upt_conv_Cons ref_api_simps ex_rx_def ex_rx_world_def
        mk_kring_def mk_desc_def kr_slot_def)
  from dump_body_prints [OF xsk_link_quiet c(1) i c(2,3) b] b ds show ?thesis
    unfolding c(2,4,5,6) by (simp add: PENDING_LEN_def w1 mk_desc_def)
qed

lemma ref_socket_new_rx:
  assumes "is_pow_of_two rsz" and "k_next w = (b, Rx) # rs"
  shows "\<exists>so. expect (socket_new_rx ref_api quiet_libc um ''link1'' q rsz options w)
    = Ret ((so, \<lparr>rx_socket = so, rx_fd = 3, rx_ring = (b, Rx)\<rparr>), w\<lparr>k_next := rs\<rparr>)"
  unfolding expect_Ret using assms
  by (simp add: socket_new_rx_def ref_api_def Let_def cstring_new_def)

definition ex_dump_opt :: dump_opt where
  "ex_dump_opt = \<lparr>d_bufsize = 2048, d_bufnum = 8, d_batch_size = 2, d_link_name = ''link1'',
     d_link_channel = 0, d_huge_tlb = False, d_zero_copy = False, d_copy = False\<rparr>"

abbreviation "ex_dump_setup \<equiv> dump_setup ref_api quiet_libc Release
  (list_deque :: (unit buf_mmap, unit buf_mmap list) deque_api) () True 4 4 ex_dump_opt (\<lambda>_. 0)
  (ex_boot [(False, Completion), (False, Fill), (False, Rx)])"

lemma ex_dump_setup_returns: "\<exists>s. ex_dump_setup = Ret s"
proof -
  let ?rs = "[(False, Completion), (False, Fill), (False, Rx)]"
  obtain bs :: "unit buf_mmap vec" where a: "expect (mmap_area_new quiet_libc Release () 8 2048 \<lparr>huge_tlb = False\<rparr> (ex_boot ?rs))
     = Ret ((ex_area, bs), ex_boot ?rs)" "length (items bs) = 8"
    using ex_area_new [of Release "ex_boot ?rs"] by blast
  obtain v w' where f: "fq_fill ref_api Release \<lparr>fq_umem = ex_umem, fq_ring = (False, Fill)\<rparr> bs 4 (ex_boot [])
      = Ret (Ok 4, v, w')"
    using ex_fill [of "ex_boot []" False 4 bs ex_umem] ex_boot_facts(4) a(2) by auto
  have p: "is_pow_of_two 4" by (simp add: is_pow_of_two_def)
  let ?opts = "socket_options_default\<lparr>zero_copy_mode := False, copy_mode := False\<rparr>"
  obtain so where "expect (socket_new_rx ref_api quiet_libc ex_umem ''link1'' 0 4 ?opts (ex_boot [(False, Rx)]))
      = Ret ((so, \<lparr>rx_socket = so, rx_fd = 3, rx_ring = (False, Rx)\<rparr>), ex_boot [])"
    using ref_socket_new_rx [where rsz = 4 and w = "ex_boot [(False, Rx)]" and b = False and rs = "[]"
        and um = ex_umem and q = 0 and options = ?opts] p ex_boot_facts(5,6)
    by auto
  with a f show ?thesis
    using ex_umem_new [of 4 4] p
    by (simp add: dump_setup_def ex_dump_opt_def Let_def)
qed

theorem dump_program_correct_witness:
  "\<exists>s0 s out. ex_dump_setup = Ret s0
     \<and> dump_run (dump_body ref_api quiet_libc Release list_deque () 2) 1000 s0 = Ret (s, out)
     \<and> length (packets out) = rx_packets (du_stats s)"
proof -
  obtain s0 where s0: "ex_dump_setup = Ret s0" using ex_dump_setup_returns by blast
  have o: "256 \<le> d_bufsize ex_dump_opt" "d_bufnum ex_dump_opt * d_bufsize ex_dump_opt < 2 ^ 64"
    "d_batch_size ex_dump_opt = 2" "1000 * PENDING_LEN < 2 ^ 64"
    by (simp_all add: ex_dump_opt_def PENDING_LEN_def)
  from dump_program_correct [OF xsk_setup_quiet o(1,2) ex_boot_facts(1-3) s0 o(4)]
  show ?thesis using s0 unfolding o(3) by blast
qed

text \<open>
  The line \<open>under filled\<close> of \<open>dump\<close> compares the number of refilled buffers with the
  threshold instead of the deficit it asked for: a fill that refilled everything it was asked to
  reports itself as incomplete whenever more than 64 buffers were owed.
\<close>

lemma dump_reports_complete_fill:
  assumes "64 < ds_deficit (du_state s)"
    and "fq_fill api prof (ds_fq (du_state s)) (du_bufs s) (ds_deficit (du_state s)) (du_world s)
         = Ret (Ok (ds_deficit (du_state s)), bs, w)"
    and "fq_bufs (du_stats s) + ds_deficit (du_state s) < 2 ^ 64"
  shows "\<exists>s'. dump_fill api prof s = Ret (s', [UnderFilled (ds_deficit (du_state s)) 64])
     \<and> ds_deficit (du_state s') = 0"
  using assms by (simp add: dump_fill_def Let_def usize_add_ok usize_sub_ok FILL_THRESHOLD_def)

lemma dump_reports_complete_fill_witness:
  "\<exists>s s' :: (kring_id, unit, unit buf_mmap list, kworld) dump_loop.
     dump_fill ref_api Release s = Ret (s', [UnderFilled 65 64]) \<and> ds_deficit (du_state s') = 0"
proof -
  let ?w = "(mk_world (\<lambda>_. []) 0)\<lparr>k_ring := \<lambda>_. mk_kring (of_nat 65) 0 []\<rparr>"
  let ?bs = "\<lparr>items = replicate 70 (frame_buf ex_area 256 0 ()), capacity = 70\<rparr>"
  let ?f = "\<lparr>fq_umem = ex_umem, fq_ring = (False, Fill)\<rparr>"
  let ?s = "(ex_dump ?w)\<lparr>du_bufs := ?bs, du_state := \<lparr>ds_fq = ?f, ds_rx = ex_rx, ds_deficit = 65\<rparr>\<rparr>"
  have s: "du_state ?s = \<lparr>ds_fq = ?f, ds_rx = ex_rx, ds_deficit = 65\<rparr>" "du_bufs ?s = ?bs"
    "du_world ?s = ?w" "du_stats ?s = stats_default"
    by (simp_all add: ex_dump_def)
  have "k_ring ?w (False, Fill) = mk_kring (of_nat 65) 0 []" by simp
  then obtain v w where f: "fq_fill ref_api Release ?f ?bs 65 ?w = Ret (Ok 65, v, w)"
    using ex_fill [of ?w False 65 ?bs ex_umem] by auto
  have "64 < ds_deficit (du_state ?s)"
    "fq_fill ref_api Release (ds_fq (du_state ?s)) (du_bufs ?s) (ds_deficit (du_state ?s)) (du_world ?s)
         = Ret (Ok (ds_deficit (du_state ?s)), v, w)"
    "fq_bufs (du_stats ?s) + ds_deficit (du_state ?s) < 2 ^ 64"
    unfolding s using f by (simp_all add: stats_default_def)
  from dump_reports_complete_fill [OF this] show ?thesis unfolding s(1) by fastforce
qed

end
