(* ===== verification/Workers.thy ===== *)
theory Workers
  imports Setup
begin

text \<open>
  The multi-threaded programs \<open>examples/l2fwd-2link-multicore.rs\<close> and \<open>examples/rxdrop.rs\<close>: the
  worker threads (first buffers from the shared pool, commands, loop), the controller thread, and
  the rates it prints. A worker and the controller share two bounded single-producer
  single-consumer rings of the crate rtrb, which is not part of the repository: a parameter
  (\<open>spsc_api\<close>) with the laws of the locale \<open>spsc\<close>. The clock is a parameter too.
\<close>

section \<open>The rings between the threads\<close>

record ('m, 'c) spsc_api =
  rb_new :: "usize \<Rightarrow> 'c"
  rb_push :: "'m \<Rightarrow> 'c \<Rightarrow> (unit, 'm) result \<times> 'c"
  rb_pop :: "'c \<Rightarrow> ('m, unit) result \<times> 'c"

locale spsc =
  fixes rb :: "('m, 'c) spsc_api"
    and slots :: "'c \<Rightarrow> usize"
    and msgs :: "'c \<Rightarrow> 'm list"
  assumes new_ring_empty: "msgs (rb_new rb n) = [] \<and> slots (rb_new rb n) = n"
    and push_room: "length (msgs c) < slots c \<Longrightarrow> rb_push rb x c = (r, c') \<Longrightarrow>
          r = Ok () \<and> msgs c' = msgs c @ [x] \<and> slots c' = slots c"
    and push_full: "slots c \<le> length (msgs c) \<Longrightarrow> rb_push rb x c = (r, c') \<Longrightarrow>
          r = Err x \<and> msgs c' = msgs c \<and> slots c' = slots c"
    and pop_front: "rb_pop rb c = (popped, c') \<Longrightarrow>
          popped = (case msgs c of [] \<Rightarrow> Err () | x # xs \<Rightarrow> Ok x) \<and> msgs c' = tl (msgs c)
          \<and> slots c' = slots c"
begin

lemma push_msgs:
  "msgs (snd (rb_push rb x c)) = (if length (msgs c) < slots c then msgs c @ [x] else msgs c)"
proof -
  obtain r c' where p: "rb_push rb x c = (r, c')" by fastforce
  show ?thesis using push_room [OF _ p] push_full [OF _ p] by (simp add: p not_less)
qed

lemma pop_msgs:
  "fst (rb_pop rb c) = (case msgs c of [] \<Rightarrow> Err () | x # xs \<Rightarrow> Ok x)"
  "msgs (snd (rb_pop rb c)) = tl (msgs c)" "slots (snd (rb_pop rb c)) = slots c"
  using pop_front [OF surjective_pairing, of c] by simp_all

end

definition list_ring :: "('m, usize \<times> 'm list) spsc_api" where
  "list_ring = \<lparr>
     rb_new = (\<lambda>n. (n, [])),
     rb_push = (\<lambda>x (n, xs). if length xs < n then (Ok (), (n, xs @ [x])) else (Err x, (n, xs))),
     rb_pop = (\<lambda>(n, xs). case xs of [] \<Rightarrow> (Err (), (n, [])) | x # xs \<Rightarrow> (Ok x, (n, xs)))\<rparr>"

interpretation listring: spsc list_ring fst snd
  by unfold_locales (auto simp: list_ring_def split: list.splits if_splits)

section \<open>Messages\<close>

datatype command = Exit | GetStats

record stats_message =
  msg_core :: usize
  msg_stats :: "stats list"

datatype response = Stats stats_message

text \<open>The two rings of one worker; the worker and the controller each hold one end of both.\<close>

record ('c, 'd) queues =
  commands :: 'c
  responses :: 'd

section \<open>Workers\<close>

text \<open>The look for a command, at the head of every iteration. False: the loop ends.\<close>

definition poll_command :: "(command, 'c) spsc_api \<Rightarrow> (response, 'd) spsc_api \<Rightarrow> usize \<Rightarrow> stats list
    \<Rightarrow> ('c, 'd) queues \<Rightarrow> bool \<times> ('c, 'd) queues" where
  "poll_command cr rr core st qs =
     (let (r, c) = rb_pop cr (commands qs); qs = qs\<lparr>commands := c\<rparr> in
      case r of
        Err _ \<Rightarrow> (True, qs)
      | Ok Exit \<Rightarrow> (False, qs)
      | Ok GetStats \<Rightarrow>
          let (_, d) = rb_push rr (Stats \<lparr>msg_core = core, msg_stats = st\<rparr>) (responses qs) in
          (True, qs\<lparr>responses := d\<rparr>))"

record 'r worker_config =
  wc_core :: usize
  link1_rx :: "'r socket_rx"
  link1_tx :: "'r socket_tx"
  link1_cq :: "'r umem_completion_queue"
  link1_fq :: "'r umem_fill_queue"
  link2_rx :: "'r socket_rx"
  link2_tx :: "'r socket_tx"
  link2_cq :: "'r umem_completion_queue"
  link2_fq :: "'r umem_fill_queue"

definition START_BUFS :: usize where
  "START_BUFS = 8192"

text \<open>\<open>do_worker\<close> of the two-link program up to its loop; \<open>bp\<close> is the shared pool.\<close>

definition worker_start :: "('r, 'w) xsk_api \<Rightarrow> profile \<Rightarrow> ('u buf_mmap, 'q) deque_api \<Rightarrow> 'r worker_config
    \<Rightarrow> 'u buf_mmap buf_pool_vec \<Rightarrow> memory \<Rightarrow> 'w
    \<Rightarrow> (('r, 'u, 'q, 'w) loop \<times> 'u buf_mmap buf_pool_vec) outcome" where
  "worker_start api prof dq config bp m w =
     (let initial_fill_num = unat RING_SIZE in
      bnd (bpv_get prof bp (vec_with_capacity START_BUFS) START_BUFS) (\<lambda>(r, bp, bs).
      bnd (initial_fill api prof (link1_fq config) bs initial_fill_num w) (\<lambda>(bs, w).
      bnd (initial_fill api prof (link2_fq config) bs initial_fill_num w) (\<lambda>(bs, w).
      Ret (\<lparr>lp_bufs = bs, lp_queues = [dq_new dq, dq_new dq],
            lp_ports = [\<lparr>p_cq = link1_cq config, p_fq = link1_fq config, p_rx = link1_rx config,
                         p_tx = link1_tx config, fq_deficit = 0\<rparr>,
                        \<lparr>p_cq = link2_cq config, p_fq = link2_fq config, p_rx = link2_rx config,
                         p_tx = link2_tx config, fq_deficit = 0\<rparr>],
            lp_stats = [stats_default, stats_default], lp_mem = m, lp_world = w\<rparr>, bp)))))"

text \<open>One iteration: a command, then both links. The link bodies are those of \<open>l2fwd-2link\<close>.\<close>

definition worker_iter :: "('r, 'w) xsk_api \<Rightarrow> 'w libc_api \<Rightarrow> profile \<Rightarrow> ('u buf_mmap, 'q) deque_api
    \<Rightarrow> (command, 'c) spsc_api \<Rightarrow> (response, 'd) spsc_api \<Rightarrow> 'u \<Rightarrow> usize
    \<Rightarrow> ('r, 'u, 'q, 'w) loop \<times> ('c, 'd) queues
    \<Rightarrow> (bool \<times> ('r, 'u, 'q, 'w) loop \<times> ('c, 'd) queues) outcome" where
  "worker_iter api libc prof dq cr rr bc core = (\<lambda>(s, qs).
     let (go, qs) = poll_command cr rr core (lp_stats s) qs in
     if \<not> go then Ret (False, s, qs)
     else bnd (l2_body api libc prof dq bc (0, s)) (\<lambda>(pos, s).
          bnd (l2_body api libc prof dq bc (pos, s)) (\<lambda>(pos, s).
            Ret (True, s, qs))))"

text \<open>
  \<open>do_worker\<close> of \<open>rxdrop\<close>: one link. Its program drops the completion queue and the sending half
  that the set-up made with the link; the port \<open>p\<close> keeps them unused.
\<close>

definition rxdrop_start :: "('r, 'w) xsk_api \<Rightarrow> profile \<Rightarrow> ('u buf_mmap, 'q) deque_api \<Rightarrow> 'r port
    \<Rightarrow> 'u buf_mmap buf_pool_vec \<Rightarrow> memory \<Rightarrow> 'w
    \<Rightarrow> (('r, 'u, 'q, 'w) loop \<times> 'u buf_mmap buf_pool_vec) outcome" where
  "rxdrop_start api prof dq p bp m w =
     (let initial_fill_num = unat RING_SIZE in
      bnd (bpv_get prof bp (vec_with_capacity START_BUFS) START_BUFS) (\<lambda>(r, bp, bs).
      bnd (initial_fill api prof (p_fq p) bs initial_fill_num w) (\<lambda>(bs, w).
      Ret (\<lparr>lp_bufs = bs, lp_queues = [dq_new dq], lp_ports = [p\<lparr>fq_deficit := 0\<rparr>],
            lp_stats = [stats_default], lp_mem = m, lp_world = w\<rparr>, bp))))"

definition rxdrop_iter :: "('r, 'w) xsk_api \<Rightarrow> 'w libc_api \<Rightarrow> profile \<Rightarrow> ('u buf_mmap, 'q) deque_api
    \<Rightarrow> (command, 'c) spsc_api \<Rightarrow> (response, 'd) spsc_api \<Rightarrow> 'u \<Rightarrow> usize
    \<Rightarrow> ('r, 'u, 'q, 'w) loop \<times> ('c, 'd) queues
    \<Rightarrow> (bool \<times> ('r, 'u, 'q, 'w) loop \<times> ('c, 'd) queues) outcome" where
  "rxdrop_iter api libc prof dq cr rr bc core = (\<lambda>(s, qs).
     let (go, qs) = poll_command cr rr core (lp_stats s) qs in
     if \<not> go then Ret (False, s, qs)
     else bnd (rxdrop_body api libc prof dq bc s) (\<lambda>s. Ret (True, s, qs)))"

section \<open>Rates\<close>

record stats_row =
  row_core :: usize
  row_tx_packets :: usize
  row_tx_packets_rate :: usize
  row_rx_packets :: usize
  row_rx_packets_rate :: usize

text \<open>A \<open>SystemTime\<close> is the number of nanoseconds since the epoch.\<close>

record stat_state =
  ss_time :: nat
  ss_stats :: stats_message

text \<open>\<open>now.duration_since(earlier).unwrap().as_secs()\<close>, and the division of two \<open>usize\<close>.\<close>

definition secs_since :: "nat \<Rightarrow> nat \<Rightarrow> usize outcome" where
  "secs_since now earlier =
     (if earlier \<le> now then Ret ((now - earlier) div 10 ^ 9) else Panic UnwrapFailed)"

definition usize_div :: "usize \<Rightarrow> usize \<Rightarrow> usize outcome" where
  "usize_div a b = (if b = 0 then Panic DivideByZero else Ret (a div b))"

definition rate :: "profile \<Rightarrow> usize \<Rightarrow> usize \<Rightarrow> usize \<Rightarrow> usize outcome" where
  "rate prof cur old time_diff =
     bnd (usize_sub prof cur old) (\<lambda>diff. usize_div diff time_diff)"

primrec diff_rows :: "profile \<Rightarrow> usize \<Rightarrow> stat_state \<Rightarrow> stat_state \<Rightarrow> nat list \<Rightarrow> stats_row list outcome" where
  "diff_rows prof time_diff self b [] = Ret []"
| "diff_rows prof time_diff self b (i # is) =
     (let cur = msg_stats (ss_stats self) ! i; old = msg_stats (ss_stats b) ! i in
      bnd (rate prof (tx_packets cur) (tx_packets old) time_diff) (\<lambda>tx.
      bnd (rate prof (rx_packets cur) (rx_packets old) time_diff) (\<lambda>rx.
      bnd (diff_rows prof time_diff self b is) (\<lambda>rows.
        Ret (\<lparr>row_core = msg_core (ss_stats self), row_tx_packets = tx_packets cur,
              row_tx_packets_rate = tx, row_rx_packets = rx_packets cur,
              row_rx_packets_rate = rx\<rparr> # rows)))))"

text \<open>\<open>StatState::diff\<close>; \<open>now\<close> is the clock it reads.\<close>

definition stat_diff :: "profile \<Rightarrow> nat \<Rightarrow> stat_state \<Rightarrow> stat_state \<Rightarrow> stats_row list outcome" where
  "stat_diff prof now self b =
     bnd (secs_since now (ss_time b)) (\<lambda>time_diff. diff_rows prof time_diff self b [0, 1])"

text \<open>The \<open>diff\<close> of \<open>rxdrop\<close>, whose worker has one link and sends nothing.\<close>

record drop_row =
  dr_core :: usize
  dr_rx_packets :: usize
  dr_rx_packets_rate :: usize

definition rxdrop_diff :: "profile \<Rightarrow> nat \<Rightarrow> stat_state \<Rightarrow> stat_state \<Rightarrow> drop_row outcome" where
  "rxdrop_diff prof now self b =
     (let cur = msg_stats (ss_stats self) ! 0; old = msg_stats (ss_stats b) ! 0 in
      bnd (secs_since now (ss_time b)) (\<lambda>time_diff.
      bnd (rate prof (rx_packets cur) (rx_packets old) time_diff) (\<lambda>rx.
        Ret \<lparr>dr_core = msg_core (ss_stats self), dr_rx_packets = rx_packets cur,
             dr_rx_packets_rate = rx\<rparr>)))"

section \<open>The controller\<close>

record controller =
  ct_map :: "usize \<rightharpoonup> stat_state"
  ct_pending :: "stats_message list"

primrec collect_stats :: "(response, 'd) spsc_api \<Rightarrow> ('c, 'd) queues list \<Rightarrow> stats_message list
    \<Rightarrow> ('c, 'd) queues list \<times> stats_message list" where
  "collect_stats rr [] pending = ([], pending)"
| "collect_stats rr (qs # qss) pending =
     (let (r, d) = rb_pop rr (responses qs);
          pending = (case r of Ok (Stats msg) \<Rightarrow> pending @ [msg] | Err _ \<Rightarrow> pending);
          (qss, pending) = collect_stats rr qss pending
      in (qs\<lparr>responses := d\<rparr> # qss, pending))"

text \<open>
  \<open>diff\<close> is the program's \<open>StatState::diff\<close>: the clock it reads, the new and the old state, to rows.
\<close>

primrec show_stats :: "('k \<Rightarrow> nat \<times> 'k) \<Rightarrow> (nat \<Rightarrow> stat_state \<Rightarrow> stat_state \<Rightarrow> 'row list outcome)
    \<Rightarrow> stats_message list \<Rightarrow> (usize \<rightharpoonup> stat_state) \<Rightarrow> 'k
    \<Rightarrow> ('row list list \<times> (usize \<rightharpoonup> stat_state) \<times> 'k) outcome" where
  "show_stats clock diff [] seen k = Ret ([], seen, k)"
| "show_stats clock diff (stat # pending) seen k =
     (case seen (msg_core stat) of
        Some old \<Rightarrow>
          let (t, k) = clock k; current = \<lparr>ss_time = t, ss_stats = stat\<rparr>; (now, k) = clock k in
          bnd (diff now current old) (\<lambda>d.
          bnd (show_stats clock diff pending (seen(msg_core stat \<mapsto> current)) k) (\<lambda>(ds, seen, k).
            Ret (d # ds, seen, k)))
      | None \<Rightarrow>
          let (t, k) = clock k in
          show_stats clock diff pending (seen(msg_core stat \<mapsto> \<lparr>ss_time = t, ss_stats = stat\<rparr>)) k)"

definition broadcast :: "(command, 'c) spsc_api \<Rightarrow> command \<Rightarrow> ('c, 'd) queues list \<Rightarrow> ('c, 'd) queues list" where
  "broadcast cr cmd qss = map (\<lambda>qs. qs\<lparr>commands := snd (rb_push cr cmd (commands qs))\<rparr>) qss"

text \<open>
  One iteration of \<open>do_controller\<close> after its sleep: whether the loop goes on, the printed rows, the
  controller's state, the rings, the clock. \<open>exit\<close> is the flag that Ctrl-C sets.
\<close>

definition controller_iter :: "('k \<Rightarrow> nat \<times> 'k) \<Rightarrow> (command, 'c) spsc_api \<Rightarrow> (response, 'd) spsc_api
    \<Rightarrow> (nat \<Rightarrow> stat_state \<Rightarrow> stat_state \<Rightarrow> 'row list outcome) \<Rightarrow> bool \<Rightarrow> controller
    \<Rightarrow> ('c, 'd) queues list \<Rightarrow> 'k
    \<Rightarrow> (bool \<times> 'row list \<times> controller \<times> ('c, 'd) queues list \<times> 'k) outcome" where
  "controller_iter clock cr rr diff exit ct qss k =
     (let (qss, pending) = collect_stats rr qss (ct_pending ct) in
      bnd (if pending \<noteq> [] then show_stats clock diff pending (ct_map ct) k
           else Ret ([], ct_map ct, k)) (\<lambda>(diffs, seen, k).
        let ct = \<lparr>ct_map = seen, ct_pending = []\<rparr> in
        if exit then Ret (False, concat diffs, ct, broadcast cr Exit qss, k)
        else Ret (True, concat diffs, ct, broadcast cr GetStats qss, k)))"

text \<open>The controller of \<open>rxdrop\<close> is the same but for the rows it prints, one for each answer.\<close>

definition rxdrop_controller_iter :: "('k \<Rightarrow> nat \<times> 'k) \<Rightarrow> (command, 'c) spsc_api \<Rightarrow> (response, 'd) spsc_api
    \<Rightarrow> profile \<Rightarrow> bool \<Rightarrow> controller \<Rightarrow> ('c, 'd) queues list \<Rightarrow> 'k
    \<Rightarrow> (bool \<times> drop_row list \<times> controller \<times> ('c, 'd) queues list \<times> 'k) outcome" where
  "rxdrop_controller_iter clock cr rr prof =
     controller_iter clock cr rr (\<lambda>now self b. bnd (rxdrop_diff prof now self b) (\<lambda>d. Ret [d]))"

text \<open>The rings that \<open>main\<close> makes for each worker.\<close>

definition new_queues :: "(command, 'c) spsc_api \<Rightarrow> (response, 'd) spsc_api \<Rightarrow> nat \<Rightarrow> ('c, 'd) queues list" where
  "new_queues cr rr n = replicate n \<lparr>commands = rb_new cr 2, responses = rb_new rr 2\<rparr>"

section \<open>Commands reach the workers\<close>

lemma poll_command_go:
  assumes "spsc cr slots msgs"
  shows "fst (poll_command cr rr core st qs) \<longleftrightarrow> (\<forall>cs. msgs (commands qs) \<noteq> Exit # cs)"
    and "msgs (commands (snd (poll_command cr rr core st qs))) = tl (msgs (commands qs))"
proof -
  obtain r c where p: "rb_pop cr (commands qs) = (r, c)" by fastforce
  have "r = (case msgs (commands qs) of [] \<Rightarrow> Err () | x # xs \<Rightarrow> Ok x)" "msgs c = tl (msgs (commands qs))"
    using spsc.pop_front [OF assms p] by simp_all
  then show "fst (poll_command cr rr core st qs) \<longleftrightarrow> (\<forall>cs. msgs (commands qs) \<noteq> Exit # cs)"
    "msgs (commands (snd (poll_command cr rr core st qs))) = tl (msgs (commands qs))"
    by (auto simp: poll_command_def p Let_def split: list.splits command.splits prod.splits)
qed

text \<open>Asked for its counters, a worker answers with them, if the ring of answers has room.\<close>

lemma poll_command_stats:
  assumes "spsc cr slots msgs" and "spsc rr rslots rmsgs" and "msgs (commands qs) = GetStats # cs"
    and "length (rmsgs (responses qs)) < rslots (responses qs)"
  shows "rmsgs (responses (snd (poll_command cr rr core st qs)))
    = rmsgs (responses qs) @ [Stats \<lparr>msg_core = core, msg_stats = st\<rparr>]"
proof -
  obtain r c where p: "rb_pop cr (commands qs) = (r, c)" by fastforce
  then have "r = Ok GetStats" using spsc.pop_front [OF assms(1) p] assms(3) by simp
  then show ?thesis
    using spsc.push_msgs [OF assms(2)] assms(4)
    by (simp add: poll_command_def p Let_def case_prod_beta)
qed

lemma collect_stats_commands:
  "map commands (fst (collect_stats rr qss pending)) = map commands qss"
  by (induction qss arbitrary: pending) (auto simp: Let_def case_prod_beta)

lemma controller_exit:
  assumes "controller_iter clock cr rr diff True ct qss k = Ret (go, rows, ct', qss', k')"
  shows "\<not> go \<and> length qss' = length qss
     \<and> (\<forall>i < length qss. commands (qss' ! i) = snd (rb_push cr Exit (commands (qss ! i))))"
proof -
  let ?q = "fst (collect_stats rr qss (ct_pending ct))"
  have q: "qss' = broadcast cr Exit ?q" "\<not> go"
    using assms by (auto simp: controller_iter_def Let_def case_prod_beta bnd_Ret_iff)
  have c: "map commands ?q = map commands qss" by (rule collect_stats_commands)
  then have l: "length ?q = length qss" using length_map by metis
  have "commands (?q ! i) = commands (qss ! i)" if "i < length qss" for i
    using c that l by (metis nth_map)
  with q l show ?thesis by (simp add: broadcast_def)
qed

abbreviation "ex_queues cmds \<equiv> \<lparr>commands = (2, cmds), responses = (2, [])\<rparr>"

section \<open>Rates\<close>

lemma rate_Ret:
  "rate prof cur old d = Ret r \<longleftrightarrow> d \<noteq> 0 \<and> (\<exists>x. usize_sub prof cur old = Ret x \<and> r = x div d)"
  by (auto simp: rate_def usize_div_def bnd_Ret_iff)

lemma rate_returns: "(\<exists>r. rate prof cur old d = Ret r) \<longleftrightarrow> d \<noteq> 0 \<and> (prof = Release \<or> old \<le> cur)"
  by (cases prof) (auto simp: rate_Ret usize_sub_def)

lemma bnd_returns: "(\<exists>y. bnd m f = Ret y) \<longleftrightarrow> (\<exists>x. m = Ret x \<and> (\<exists>y. f x = Ret y))"
  by (cases m) auto

lemma diff_rows_returns:
  "(\<exists>rows. diff_rows prof d self b is = Ret rows) \<longleftrightarrow>
   (\<forall>i \<in> set is. (\<exists>r. rate prof (tx_packets (msg_stats (ss_stats self) ! i)) (tx_packets (msg_stats (ss_stats b) ! i)) d = Ret r)
              \<and> (\<exists>r. rate prof (rx_packets (msg_stats (ss_stats self) ! i)) (rx_packets (msg_stats (ss_stats b) ! i)) d = Ret r))"
  by (induction "is") (simp_all add: Let_def bnd_returns)

abbreviation cur_rows :: "usize \<Rightarrow> stat_state \<Rightarrow> stat_state \<Rightarrow> stats_row list" where
  "cur_rows secs self b \<equiv> map (\<lambda>i. let cur = msg_stats (ss_stats self) ! i; old = msg_stats (ss_stats b) ! i in
     \<lparr>row_core = msg_core (ss_stats self), row_tx_packets = tx_packets cur,
      row_tx_packets_rate = (tx_packets cur - tx_packets old) div secs, row_rx_packets = rx_packets cur,
      row_rx_packets_rate = (rx_packets cur - rx_packets old) div secs\<rparr>) [0, 1]"

abbreviation monotone_stats :: "stat_state \<Rightarrow> stat_state \<Rightarrow> bool" where
  "monotone_stats self b \<equiv> \<forall>i \<in> {0, 1}.
     tx_packets (msg_stats (ss_stats b) ! i) \<le> tx_packets (msg_stats (ss_stats self) ! i)
     \<and> rx_packets (msg_stats (ss_stats b) ! i) \<le> rx_packets (msg_stats (ss_stats self) ! i)"

text \<open>
  Property C27. \<open>StatState::diff\<close> returns exactly when a full second has passed between the two clock
  readings (it divides by the whole seconds that elapsed, and a clock that went backwards fails its
  \<open>unwrap\<close>) and, with overflow checks, no counter went back. For counters that only grow the rates
  are the increments per elapsed second, rounded down, of each of the two links.
\<close>

theorem stat_diff_cases:
  "((\<exists>rows. stat_diff prof now self b = Ret rows)
     \<longleftrightarrow> ss_time b + 10 ^ 9 \<le> now \<and> (prof = Release \<or> monotone_stats self b))
   \<and> (ss_time b + 10 ^ 9 \<le> now \<and> monotone_stats self b \<longrightarrow>
        stat_diff prof now self b = Ret (cur_rows ((now - ss_time b) div 10 ^ 9) self b))"
proof (intro conjI impI)
  have d: "(\<exists>rows. diff_rows prof d self b [0, 1] = Ret rows)
      \<longleftrightarrow> d \<noteq> 0 \<and> (prof = Release \<or> monotone_stats self b)" for d
    unfolding diff_rows_returns rate_returns by auto
  have z: "(now - ss_time b) div 10 ^ 9 \<noteq> 0 \<longleftrightarrow> ss_time b + 10 ^ 9 \<le> now"
    by (simp add: div_eq_0_iff) arith
  have "(\<exists>rows. stat_diff prof now self b = Ret rows)
      \<longleftrightarrow> ss_time b \<le> now \<and> (\<exists>rows. diff_rows prof ((now - ss_time b) div 10 ^ 9) self b [0, 1] = Ret rows)"
    by (simp add: stat_diff_def secs_since_def)
  also have "\<dots> \<longleftrightarrow> ss_time b + 10 ^ 9 \<le> now \<and> (prof = Release \<or> monotone_stats self b)"
    unfolding d z by auto
  finally show "(\<exists>rows. stat_diff prof now self b = Ret rows)
     \<longleftrightarrow> ss_time b + 10 ^ 9 \<le> now \<and> (prof = Release \<or> monotone_stats self b)" .
  assume a: "ss_time b + 10 ^ 9 \<le> now \<and> monotone_stats self b"
  then have "rate prof (tx_packets (msg_stats (ss_stats self) ! i)) (tx_packets (msg_stats (ss_stats b) ! i))
        ((now - ss_time b) div 10 ^ 9) = Ret ((tx_packets (msg_stats (ss_stats self) ! i)
        - tx_packets (msg_stats (ss_stats b) ! i)) div ((now - ss_time b) div 10 ^ 9))"
    "rate prof (rx_packets (msg_stats (ss_stats self) ! i)) (rx_packets (msg_stats (ss_stats b) ! i))
        ((now - ss_time b) div 10 ^ 9) = Ret ((rx_packets (msg_stats (ss_stats self) ! i)
        - rx_packets (msg_stats (ss_stats b) ! i)) div ((now - ss_time b) div 10 ^ 9))"
    if "i \<in> {0, 1}" for i
    using z that by (auto simp: rate_Ret usize_sub_ok)
  then show "stat_diff prof now self b = Ret (cur_rows ((now - ss_time b) div 10 ^ 9) self b)"
    using a by (simp add: stat_diff_def secs_since_def Let_def)
qed

abbreviation "ex_stat t tx rx \<equiv> \<lparr>ss_time = t, ss_stats = \<lparr>msg_core = 3, msg_stats =
   [\<lparr>cq_bufs = 0, fq_bufs = 0, rx_packets = rx, tx_packets = tx\<rparr>,
    \<lparr>cq_bufs = 0, fq_bufs = 0, rx_packets = tx, tx_packets = rx\<rparr>]\<rparr>\<rparr>"

theorem stat_diff_cases_witness:
  "\<exists>rows. stat_diff Debug (5 * 10 ^ 9) (ex_stat (5 * 10 ^ 9) 900 70) (ex_stat (2 * 10 ^ 9) 300 40) = Ret rows
     \<and> map row_tx_packets_rate rows = [200, 10]"
  using conjunct2 [OF stat_diff_cases [of Debug "5 * 10 ^ 9" "ex_stat (5 * 10 ^ 9) 900 70"
        "ex_stat (2 * 10 ^ 9) 300 40"]]
  by (simp add: Let_def)

text \<open>
  Property C28. Nothing stops a configuration file from placing two workers on the same core, and the
  controller keys its table by core. When the first two workers share a core the controller has no entry
  for, and the answers of both arrive in one round, the second is compared with the first, which was
  stored in the same round: less than a second has passed, and the controller thread panics in its very
  first report, in both build profiles. It divides by zero, unless overflow checks find first that the
  second worker has sent fewer packets on its first link than the first worker.
\<close>

theorem same_core_controller_panics:
  assumes "spsc rr slots msgs"
    and "msgs (responses q1) = Stats a # as" and "msgs (responses q2) = Stats b # bs"
    and "msg_core a = msg_core b" and "ct_map ct (msg_core a) = None" and "ct_pending ct = []"
    and "clock k = (t1, k1)" and "clock k1 = (t2, k2)" and "clock k2 = (t3, k3)"
    and "t1 \<le> t3" and "t3 < t1 + 10 ^ 9"
  shows "controller_iter clock cr rr (stat_diff prof) exit ct (q1 # q2 # qss) k
     = Panic (if prof = Debug \<and> tx_packets (msg_stats b ! 0) < tx_packets (msg_stats a ! 0)
              then Overflow else DivideByZero)"
proof -
  have pop: "\<exists>d. rb_pop rr (responses q1) = (Ok (Stats a), d)"
    "\<exists>d. rb_pop rr (responses q2) = (Ok (Stats b), d)"
    using spsc.pop_msgs(1) [OF assms(1)] assms(2,3)
    by (metis list.simps(5) prod.collapse)+
  obtain rest where c: "snd (collect_stats rr (q1 # q2 # qss) []) = a # b # rest"
  proof -
    have "\<exists>rest. snd (collect_stats rr qss pending) = pending @ rest" for pending
    proof (induction qss arbitrary: pending)
      case (Cons q qss)
      then show ?case
        by (auto simp: Let_def case_prod_beta split: result.splits response.splits) (metis append_assoc)+
    qed simp
    from this [of "[a, b]"] obtain rest where "snd (collect_stats rr qss [a, b]) = a # b # rest" by auto
    with pop that show thesis by (auto simp: Let_def case_prod_beta)
  qed
  let ?p = "if prof = Debug \<and> tx_packets (msg_stats b ! 0) < tx_packets (msg_stats a ! 0)
              then Overflow else DivideByZero"
  have "(t3 - t1) div 10 ^ 9 = 0" using assms(10,11) by simp
  then have "stat_diff prof t3 \<lparr>ss_time = t2, ss_stats = b\<rparr> \<lparr>ss_time = t1, ss_stats = a\<rparr> = Panic ?p"
    using assms(10)
    by (cases prof) (auto simp: stat_diff_def secs_since_def rate_def usize_div_def usize_sub_def Let_def)
  then have "show_stats clock (stat_diff prof) (a # b # rest) (ct_map ct) k = Panic ?p"
    using assms(4,5,7-9) by simp
  then show ?thesis
    using c assms(6) by (simp add: controller_iter_def case_prod_beta del: collect_stats.simps)
qed

theorem same_core_controller_panics_witness:
  "controller_iter (\<lambda>k. (k, k + 1)) list_ring list_ring (stat_diff Release) False
        \<lparr>ct_map = Map.empty, ct_pending = []\<rparr>
        [\<lparr>commands = (2, []), responses = (2, [Stats \<lparr>msg_core = 3, msg_stats = [stats_default, stats_default]\<rparr>])\<rparr>,
         \<lparr>commands = (2, []), responses = (2, [Stats \<lparr>msg_core = 3, msg_stats = [stats_default, stats_default]\<rparr>])\<rparr>]
        (0 :: nat) = Panic DivideByZero"
  using same_core_controller_panics [OF listring.spsc_axioms, where clock = "\<lambda>k. (k, k + 1)" and k = "0 :: nat"
      and cr = list_ring and prof = Release and exit = False and qss = "[]"
      and ct = "\<lparr>ct_map = Map.empty, ct_pending = []\<rparr>"
      and a = "\<lparr>msg_core = 3, msg_stats = [stats_default, stats_default]\<rparr>"
      and b = "\<lparr>msg_core = 3, msg_stats = [stats_default, stats_default]\<rparr>"]
  by simp

section \<open>Starting a worker\<close>

lemma RING_SIZE_unat: "unat RING_SIZE = 2048"
  by (simp add: RING_SIZE_def)

lemma bpv_get_Ret:
  assumes "bpv_get prof p v n = Ret (r, p', v')"
  shows "r = min n (bpv_len p) \<and> bpv_len p' = bpv_len p - r
     \<and> length (items v') = length (items v) + r"
  using assms by (auto simp: bpv_get_eq Let_def bpv_len_def)

context xsk_link
begin

lemma pool_get_keeps:
  assumes inv: "own_inv ok held window dq_ok queued area a" and env: "256 \<le> buf_len area"
    and i: "i < length (a_vecs a)" and g: "bpv_get prof (a_pool a) (a_vecs a ! i) n = Ret (r, p, v)"
  shows "own_inv ok held window dq_ok queued area (a\<lparr>a_vecs := (a_vecs a)[i := v], a_pool := p\<rparr>)"
proof -
  let ?env = "\<lparr>env_cqs = [], env_fqs = [], env_rxs = [], env_txs = []\<rparr>"
  have "app_step api libc prof dq undefined ?env a (a\<lparr>a_vecs := (a_vecs a)[i := v], a_pool := p\<rparr>)"
    using g i by (intro pool_get) simp_all
  moreover have "env_ok kind area ?env" by (simp add: env_ok_def)
  ultimately show ?thesis using step_preserves [OF inv _ env] by blast
qed

end

text \<open>
  Property C15. Starting a worker. From any state of the whole program (any number of threads, the
  frames in one place each) in which a worker's vector is still empty, \<open>do_worker\<close> up to its loop
  keeps every frame in one place, and it returns only if the shared pool had the 4096 buffers the
  two first fills need; it then took \<open>min 8192 len\<close> buffers from the pool, gave 4096 to the kernel
  and keeps the rest.
\<close>

theorem worker_start_keeps:
  assumes "xsk_link api ok held kind window staged libc dq dq_ok queued" and "256 \<le> buf_len area"
    and "own_inv ok held window dq_ok queued area a" and "i < length (a_vecs a)"
    and "a_vecs a ! i = vec_with_capacity START_BUFS"
    and "kind (fq_ring (link1_fq config)) = Fill" and "kind (fq_ring (link2_fq config)) = Fill"
    and "worker_start api prof dq config (a_pool a) m (a_world a) = Ret (s, bp)"
  shows "own_inv ok held window dq_ok queued area
       (a\<lparr>a_vecs := (a_vecs a)[i := lp_bufs s], a_pool := bp, a_world := lp_world s\<rparr>)
     \<and> 4096 \<le> bpv_len (a_pool a)
     \<and> bpv_len bp = bpv_len (a_pool a) - 8192
     \<and> length (items (lp_bufs s)) = min 8192 (bpv_len (a_pool a)) - 4096
     \<and> size (held (lp_world s)) = size (held (a_world a)) + 4096"
proof -
  let ?n = "unat RING_SIZE"
  obtain r bp' v w1 v1 w2 v2 where
    g: "bpv_get prof (a_pool a) (a_vecs a ! i) START_BUFS = Ret (r, bp', v)"
    and f1: "initial_fill api prof (link1_fq config) v ?n (a_world a) = Ret (v1, w1)"
    and f2: "initial_fill api prof (link2_fq config) v1 ?n w1 = Ret (v2, w2)"
    and s: "lp_bufs s = v2" "lp_world s = w2" "bp' = bp"
    using assms(8) by (auto simp: worker_start_def bnd_Ret_iff Let_def assms(5))
  have n: "?n < 2 ^ 64" by (simp add: RING_SIZE_unat)
  note link = assms(1)
  let ?a1 = "a\<lparr>a_vecs := (a_vecs a)[i := v], a_pool := bp\<rparr>"
  note g1 = xsk_link.pool_get_keeps [OF link assms(3,2,4) g [unfolded s(3)]]
  let ?a2 = "?a1\<lparr>a_vecs := (a_vecs ?a1)[i := v1], a_world := w1\<rparr>"
  have "initial_fill api prof (link1_fq config) (a_vecs ?a1 ! i) ?n (a_world ?a1) = Ret (v1, w1)"
    "i < length (a_vecs ?a1)"
    using f1 assms(4) by simp_all
  note k1 = xsk_link.initial_fill_keeps [OF link this(1) g1 assms(2,6) this(2) n]
  have "initial_fill api prof (link2_fq config) (a_vecs ?a2 ! i) ?n (a_world ?a2) = Ret (v2, w2)"
    "i < length (a_vecs ?a2)"
    using f2 assms(4) by simp_all
  note k2 = xsk_link.initial_fill_keeps [OF link this(1) conjunct1 [OF k1] assms(2,7) this(2) n]
  have "own_inv ok held window dq_ok queued area
      (a\<lparr>a_vecs := (a_vecs a)[i := lp_bufs s], a_pool := bp, a_world := lp_world s\<rparr>)"
    using conjunct1 [OF k2] by (cases a) (simp add: s)
  moreover have "length (items v) = min 8192 (bpv_len (a_pool a))" "bpv_len bp = bpv_len (a_pool a) - 8192"
    using bpv_get_Ret [OF g] by (auto simp: assms(5) START_BUFS_def s(3))
  ultimately show ?thesis
    using k1 k2 assms(4) by (auto simp: s RING_SIZE_unat)
qed

text \<open>The example: an area of 4096 frames, all in the pool, and empty rings of 2048 slots.\<close>

definition big_area :: mmap_area where
  "big_area = \<lparr>buf_num = 4096, buf_len = 2048, ma_ptr = 65536\<rparr>"

definition big_world :: kworld where
  "big_world = (mk_world (\<lambda>_. []) 0)\<lparr>k_ring := \<lambda>_. mk_kring 2048 0 []\<rparr>"

definition big_app :: "(unit, unit buf_mmap list, kworld) app" where
  "big_app = \<lparr>a_vecs = [vec_with_capacity START_BUFS], a_queues = [],
     a_pool = \<lparr>bufs = \<lparr>items = map (\<lambda>a. frame_buf big_area a 0 ()) (frame_addrs big_area), capacity = 4096\<rparr>\<rparr>,
     a_world = big_world\<rparr>"

lemma big_world_facts:
  "k_ok big_world" "k_held big_world = {#}" "snd (k_window r big_world) = 0"
  "k_ring big_world r = mk_kring 2048 0 []"
  by (simp_all add: big_world_def k_ok_def k_held_def k_window_def kring_ok_def kr_window_def
      kr_entries_def mk_kring_def is_pow_of_two_def)

lemma big_app_inv: "own_inv k_ok k_held k_window (\<lambda>q. length q \<le> PENDING_LEN) (\<lambda>q. q) big_area big_app"
  by (simp add: own_inv_def big_app_def big_world_facts live_bufs_def comp_def del: split_paired_All)

definition big_config :: "kring_id worker_config" where
  "big_config = \<lparr>wc_core = 1, link1_rx = ex_rx, link1_tx = ex_tx, link1_cq = ex_cq, link1_fq = ex_fq,
     link2_rx = ex_rx\<lparr>rx_ring := (True, Rx)\<rparr>, link2_tx = ex_tx\<lparr>tx_ring := (True, Tx)\<rparr>,
     link2_cq = ex_cq\<lparr>cq_ring := (True, Completion)\<rparr>,
     link2_fq = \<lparr>fq_umem = ex_umem, fq_ring = (True, Fill)\<rparr>\<rparr>"

lemma big_start: "\<exists>s bp. worker_start ref_api Release (list_deque :: (unit buf_mmap, unit buf_mmap list) deque_api)
    big_config (a_pool big_app) (\<lambda>_. 0) big_world = Ret (s, bp)"
proof -
  let ?v = "vec_with_capacity START_BUFS :: unit buf_mmap vec"
  obtain p v where g: "bpv_get Release (a_pool big_app) ?v START_BUFS = Ret (4096, p, v)" "length (items v) = 4096"
    by (simp add: bpv_get_eq bpv_len_def big_app_def START_BUFS_def Let_def big_area_def)
  obtain v1 w1 where f1: "fq_fill ref_api Release ex_fq v 2048 big_world = Ret (Ok 2048, v1, w1)"
    "length (items v1) = 2048" "k_ring w1 (True, Fill) = mk_kring 2048 0 []"
    using ex_fill [of big_world False 2048 v ex_umem] g(2) big_world_facts(4) by (auto simp: ex_fq_def)
  obtain v2 w2 where f2: "fq_fill ref_api Release \<lparr>fq_umem = ex_umem, fq_ring = (True, Fill)\<rparr> v1 2048 w1
      = Ret (Ok 2048, v2, w2)"
    using ex_fill [of w1 True 2048 v1 ex_umem] f1(2,3) by auto
  show ?thesis
    using g(1) f1(1) f2 by (simp add: worker_start_def RING_SIZE_unat initial_fill_def big_config_def)
qed

theorem worker_start_keeps_witness:
  "\<exists>s bp. worker_start ref_api Release (list_deque :: (unit buf_mmap, unit buf_mmap list) deque_api)
      big_config (a_pool big_app) (\<lambda>_. 0) big_world = Ret (s, bp)
    \<and> bpv_len bp = 0 \<and> size (k_held (lp_world s)) = 4096"
proof -
  obtain s bp where s: "worker_start ref_api Release
      (list_deque :: (unit buf_mmap, unit buf_mmap list) deque_api) big_config (a_pool big_app) (\<lambda>_. 0)
      (a_world big_app) = Ret (s, bp)"
    using big_start by (auto simp: big_app_def)
  have c: "256 \<le> buf_len big_area" "0 < length (a_vecs big_app)"
    "a_vecs big_app ! 0 = vec_with_capacity START_BUFS" "snd (fq_ring (link1_fq big_config)) = Fill"
    "snd (fq_ring (link2_fq big_config)) = Fill"
    by (simp_all add: big_area_def big_app_def big_config_def ex_fq_def)
  have l: "bpv_len (a_pool big_app) = 4096" "k_held (a_world big_app) = {#}" "a_world big_app = big_world"
    by (simp_all add: bpv_len_def big_app_def big_area_def big_world_facts)
  from worker_start_keeps [OF xsk_link_ref c(1) big_app_inv c(2-5) s] l
  show ?thesis using s by auto
qed

section \<open>An iteration of a worker\<close>

text \<open>
  Property C16. An iteration of a worker of \<open>l2fwd-2link-multicore\<close>: it ends the loop exactly when the
  next command is \<open>Exit\<close>, and then touches no buffer; otherwise it serves link 0 and then link 1 and keeps
  their books: link 1 starts from the state in which link 0 was left, and every packet received on one link
  has been sent on the other or is pending. A request for its counters is answered with the values before
  the iteration.
\<close>

theorem worker_iter_keeps:
  assumes "xsk_link api ok held kind window staged libc dq dq_ok queued" and "256 \<le> buf_len area"
    and "spsc cr slots msgs" and "spsc rr rslots rmsgs"
    and "loop_inv ok held kind window dq_ok queued area s"
    and "flow_ok queued (\<lambda>p. (p + 1) mod 2) s" and "length (lp_ports s) = 2"
    and "\<forall>p < 2. rx_packets (lp_stats s ! p) + 2 * PENDING_LEN < 2 ^ 64"
    and "worker_iter api libc prof dq cr rr bc core (s, qs) = Ret (go, s', qs')"
  shows "loop_inv ok held kind window dq_ok queued area s'
     \<and> flow_ok queued (\<lambda>p. (p + 1) mod 2) s' \<and> length (lp_ports s') = 2
     \<and> (go \<longleftrightarrow> (\<forall>cs. msgs (commands qs) \<noteq> Exit # cs))
     \<and> (\<not> go \<longrightarrow> s' = s)
     \<and> (go \<longrightarrow> (\<exists>t. l2_body api libc prof dq bc (0, s) = Ret (1, t) \<and> l2_body api libc prof dq bc (1, t) = Ret (0, s')))
     \<and> msgs (commands qs') = tl (msgs (commands qs))
     \<and> (\<forall>cs. msgs (commands qs) = GetStats # cs \<and> length (rmsgs (responses qs)) < rslots (responses qs) \<longrightarrow>
          rmsgs (responses qs') = rmsgs (responses qs) @ [Stats \<lparr>msg_core = core, msg_stats = lp_stats s\<rparr>])"
proof -
  obtain g q where p: "poll_command cr rr core (lp_stats s) qs = (g, q)" by fastforce
  have qs: "qs' = q" "go = g" using assms(9) by (auto simp: worker_iter_def p bnd_Ret_iff split: if_split_asm)
  note pc = poll_command_go [OF assms(3), of rr core "lp_stats s" qs, unfolded p]
    poll_command_stats [OF assms(3,4), of qs, where core = core and st = "lp_stats s", unfolded p]
  have inv: "loop_inv ok held kind window dq_ok queued area s' \<and> flow_ok queued (\<lambda>p. (p + 1) mod 2) s'
      \<and> length (lp_ports s') = 2 \<and> (\<not> g \<longrightarrow> s' = s)
      \<and> (g \<longrightarrow> (\<exists>t. l2_body api libc prof dq bc (0, s) = Ret (1, t) \<and> l2_body api libc prof dq bc (1, t) = Ret (0, s')))"
  proof (cases g)
    case False
    then show ?thesis using assms(5-7,9) by (simp add: worker_iter_def p)
  next
    case True
    obtain p1 s1 p2 s2 where b: "l2_body api libc prof dq bc (0, s) = Ret (p1, s1)"
      "l2_body api libc prof dq bc (p1, s1) = Ret (p2, s')"
      using assms(9) True by (auto simp: worker_iter_def p bnd_Ret_iff)
    let ?n = "SERVICE_BATCH_SIZE" and ?m = "SOCKET_BATCH_SIZE" and ?t = "FILL_THRESHOLD"
    have n: "?n < 2 ^ 64" by (simp add: SERVICE_BATCH_SIZE_def)
    have ph1: "phases api libc prof dq bc (\<lambda>_. Ret) ?n ?m ?t 0 (peer 0) s = Ret s1" and p1: "p1 = 1"
      using b(1) unfolding l2_body_phases by (auto simp: bnd_Ret_iff)
    have ph2: "phases api libc prof dq bc (\<lambda>_. Ret) ?n ?m ?t 1 (peer 1) s1 = Ret s'" and p2: "p2 = 0"
      using b(2) unfolding p1 l2_body_phases by (auto simp: bnd_Ret_iff)
    have c: "0 < length (lp_ports s)" "inj_on peer {..<length (lp_ports s)}"
      "rx_packets (lp_stats s ! 0) + PENDING_LEN < 2 ^ 64"
      using assms(7,8) inj_peer by (simp_all, fastforce)
    note i1 = xsk_link.phases_inv [where out = peer, OF assms(1,5,6,2) c n ph1]
    have "rx_packets (lp_stats s1 ! 1) \<le> rx_packets (lp_stats s ! 1) + PENDING_LEN"
      by (rule xsk_link.phases_rx [OF assms(1,5,2) c(1,3) n ph1])
    moreover have "rx_packets (lp_stats s ! 1) + 2 * PENDING_LEN < 2 ^ 64" using assms(8) by simp
    ultimately have r: "rx_packets (lp_stats s1 ! 1) + PENDING_LEN < 2 ^ 64" by linarith
    have c1: "1 < length (lp_ports s1)" "inj_on peer {..<length (lp_ports s1)}"
      using i1 assms(7) inj_peer by simp_all
    show ?thesis
      using xsk_link.phases_inv [where out = peer, OF assms(1) conjunct1 [OF i1] _ assms(2) c1 r n ph2]
        i1 assms(7) True b by (simp add: p1 p2)
  qed
  then show ?thesis using pc by (auto simp: qs)
qed

theorem worker_iter_keeps_witness:
  "\<exists>s'. worker_iter ref_api quiet_libc Release list_deque list_ring list_ring () 1
        (ex_loop2 (ex_rx_world 0), ex_queues [GetStats]) = Ret (True, s', ex_queues []
          \<lparr>responses := (2, [Stats \<lparr>msg_core = 1, msg_stats = lp_stats (ex_loop2 (ex_rx_world 0))\<rparr>])\<rparr>)
     \<and> flow_ok (\<lambda>q. q) (\<lambda>p. (p + 1) mod 2) s'"
proof -
  let ?s = "ex_loop2 (ex_rx_world 0)"
  note i = ex_loop2_inv [OF ex_rx_world_facts(1) ex_rx_world_facts(2) ex_rx_world_facts(3), of 0]
  let ?n = "SERVICE_BATCH_SIZE" and ?m = "SOCKET_BATCH_SIZE" and ?t = "FILL_THRESHOLD"
  have c: "length (lp_ports ?s) = 2" "268 \<le> buf_len ex_area" "256 \<le> buf_len ex_area" "?n < 2 ^ 64"
    "0 < length (lp_ports ?s)"
    by (simp_all add: ex_loop2_def ex_area_def SERVICE_BATCH_SIZE_def)
  have ij: "inj_on peer {..<length (lp_ports ?s)}" unfolding c(1) by (rule inj_peer)
  have rxs: "rx_packets (lp_stats ?s ! 0) + 2 * PENDING_LEN < 2 ^ 64"
    "rx_packets (lp_stats ?s ! 1) + 2 * PENDING_LEN < 2 ^ 64"
    by (simp_all add: ex_loop2_def PENDING_LEN_def)
  then have rxa: "\<forall>p < 2. rx_packets (lp_stats ?s ! p) + 2 * PENDING_LEN < 2 ^ 64"
    by (auto dest: less_2_cases)
  have rx: "rx_packets (lp_stats ?s ! 0) + PENDING_LEN < 2 ^ 64"
    "rx_packets (lp_stats ?s ! 1) + 2 * PENDING_LEN < 2 ^ 64"
    by (simp_all add: ex_loop2_def PENDING_LEN_def)
  obtain s1 where s1: "phases ref_api quiet_libc Release list_deque () (\<lambda>_. Ret) ?n ?m ?t 0 (peer 0) ?s = Ret s1"
    using quietlink.phases_outcome [where out = peer, OF i ex_area_wf c(2,5) ij rx(1) c(4) disjI2 [OF refl]]
      quiet_wakeup by blast
  note i1 = quietlink.phases_inv [where out = peer, OF i c(3,5) ij rx(1) c(4) s1]
  have "rx_packets (lp_stats s1 ! 1) \<le> rx_packets (lp_stats ?s ! 1) + PENDING_LEN"
    by (rule quietlink.phases_rx [OF i(1) c(3,5) rx(1) c(4) s1])
  then have r1: "rx_packets (lp_stats s1 ! 1) + PENDING_LEN < 2 ^ 64" using rx(2) by linarith
  have c1: "1 < length (lp_ports s1)" "inj_on peer {..<length (lp_ports s1)}"
    using i1 c(1) inj_peer by simp_all
  obtain s2 where s2: "phases ref_api quiet_libc Release list_deque () (\<lambda>_. Ret) ?n ?m ?t 1 (peer 1) s1 = Ret s2"
    using quietlink.phases_outcome [where out = peer, OF conjunct1 [OF i1] _ ex_area_wf c(2) c1 r1 c(4)
        disjI2 [OF refl]] i1 quiet_wakeup by blast
  have w: "worker_iter ref_api quiet_libc Release list_deque list_ring list_ring () 1 (?s, ex_queues [GetStats])
      = Ret (True, s2, ex_queues []\<lparr>responses := (2, [Stats \<lparr>msg_core = 1, msg_stats = lp_stats ?s\<rparr>])\<rparr>)"
    using s1 s2 by (simp add: worker_iter_def poll_command_def list_ring_def l2_body_phases)
  show ?thesis
    using worker_iter_keeps [OF xsk_link_quiet c(3) listring.spsc_axioms listring.spsc_axioms i c(1) rxa w] w
    by blast
qed

end
