(* ===== verification/Threads.thy ===== *)
theory Threads
  imports Workers
begin

text \<open>
  The threads of \<open>l2fwd-2link-multicore\<close> and \<open>rxdrop\<close> running together. The workers share the
  kernel and the pool of buffers, the controller shares a pair of rings with each of them, and
  Ctrl-C sets a flag. A worker is broken into the phases between which the others may run: the calls of
  the crate in its start and in an iteration of its loop. The whole program is a state machine driven by a
  schedule; a theorem about every schedule is one about every interleaving.
\<close>

section \<open>The phases of a worker\<close>

text \<open>
  \<open>Take\<close> and \<open>First\<close> are the start of a worker (buffers from the pool, first fill of a link), the others
  the parts of an iteration.
\<close>

datatype phase = Take | First nat | Service nat | Receive nat | Forward nat | Drop nat | Refill nat

fun run_phase :: "('r, 'w) xsk_api \<Rightarrow> 'w libc_api \<Rightarrow> profile \<Rightarrow> ('u buf_mmap, 'q) deque_api \<Rightarrow> 'u
    \<Rightarrow> phase \<Rightarrow> ('r, 'u, 'q, 'w) loop \<times> 'u buf_mmap buf_pool_vec
    \<Rightarrow> (('r, 'u, 'q, 'w) loop \<times> 'u buf_mmap buf_pool_vec) outcome" where
  "run_phase api libc prof dq bc Take (s, bp) =
     bnd (bpv_get prof bp (lp_bufs s) START_BUFS) (\<lambda>(r, bp, bs). Ret (s\<lparr>lp_bufs := bs\<rparr>, bp))"
| "run_phase api libc prof dq bc (First pos) (s, bp) =
     bnd (initial_fill api prof (p_fq (lp_ports s ! pos)) (lp_bufs s) (unat RING_SIZE) (lp_world s))
       (\<lambda>(bs, w). Ret (s\<lparr>lp_bufs := bs, lp_world := w\<rparr>, bp))"
| "run_phase api libc prof dq bc (Service pos) (s, bp) =
     bnd (service_phase api prof bc SERVICE_BATCH_SIZE pos s) (\<lambda>s. Ret (s, bp))"
| "run_phase api libc prof dq bc (Receive pos) (s, bp) =
     bnd (recv_phase api libc prof dq (\<lambda>_. Ret) SOCKET_BATCH_SIZE bc pos s) (\<lambda>s. Ret (s, bp))"
| "run_phase api libc prof dq bc (Forward pos) (s, bp) =
     bnd (forward_phase api libc prof dq SOCKET_BATCH_SIZE pos ((pos + 1) mod 2) s) (\<lambda>s. Ret (s, bp))"
| "run_phase api libc prof dq bc (Drop pos) (s, bp) = Ret (drop_phase dq pos s, bp)"
| "run_phase api libc prof dq bc (Refill pos) (s, bp) =
     bnd (fill_phase api prof FILL_THRESHOLD pos s) (\<lambda>s. Ret (s, bp))"

primrec run_phases :: "('r, 'w) xsk_api \<Rightarrow> 'w libc_api \<Rightarrow> profile \<Rightarrow> ('u buf_mmap, 'q) deque_api \<Rightarrow> 'u
    \<Rightarrow> phase list \<Rightarrow> ('r, 'u, 'q, 'w) loop \<times> 'u buf_mmap buf_pool_vec
    \<Rightarrow> (('r, 'u, 'q, 'w) loop \<times> 'u buf_mmap buf_pool_vec) outcome" where
  "run_phases api libc prof dq bc [] x = Ret x"
| "run_phases api libc prof dq bc (ph # phs) x =
     bnd (run_phase api libc prof dq bc ph x) (run_phases api libc prof dq bc phs)"

text \<open>There are not enough buffers for the first fill, or the ring has no room for it.\<close>

definition short_fill :: "('r, 'w) xsk_api \<Rightarrow> ('r, 'u, 'q, 'w) loop \<Rightarrow> nat \<Rightarrow> bool" where
  "short_fill api l pos \<longleftrightarrow> length (items (lp_bufs l)) < unat RING_SIZE
     \<or> fst (prod_reserve api (fq_ring (p_fq (lp_ports l ! pos))) (of_nat (unat RING_SIZE)) 0 (lp_world l)) = 0"

text \<open>One iteration of each program, after the look for a command.\<close>

definition l2_iteration :: "phase list" where
  "l2_iteration = [Service 0, Receive 0, Forward 0, Refill 0, Service 1, Receive 1, Forward 1, Refill 1]"

definition drop_iteration :: "phase list" where
  "drop_iteration = [Receive 0, Drop 0, Refill 0]"

text \<open>A worker's state before its first phase.\<close>

definition fresh_loop :: "('u buf_mmap, 'q) deque_api \<Rightarrow> 'r port list \<Rightarrow> memory \<Rightarrow> 'w
    \<Rightarrow> ('r, 'u, 'q, 'w) loop" where
  "fresh_loop dq ports m w =
     \<lparr>lp_bufs = vec_with_capacity START_BUFS, lp_queues = map (\<lambda>_. dq_new dq) ports, lp_ports = ports,
      lp_stats = map (\<lambda>_. stats_default) ports, lp_mem = m, lp_world = w\<rparr>"

definition config_ports :: "'r worker_config \<Rightarrow> 'r port list" where
  "config_ports config =
     [\<lparr>p_cq = link1_cq config, p_fq = link1_fq config, p_rx = link1_rx config, p_tx = link1_tx config,
       fq_deficit = 0\<rparr>,
      \<lparr>p_cq = link2_cq config, p_fq = link2_fq config, p_rx = link2_rx config, p_tx = link2_tx config,
       fq_deficit = 0\<rparr>]"

text \<open>Undisturbed, the phases are the code of the workers.\<close>

lemma worker_start_phases:
  "worker_start api prof dq config bp m w
   = run_phases api libc prof dq bc [Take, First 0, First 1] (fresh_loop dq (config_ports config) m w, bp)"
  by (simp add: worker_start_def fresh_loop_def config_ports_def bnd_assoc case_prod_unfold Let_def)

lemma rxdrop_start_phases:
  "rxdrop_start api prof dq (p\<lparr>fq_deficit := 0\<rparr>) bp m w
   = run_phases api libc prof dq bc [Take, First 0] (fresh_loop dq [p\<lparr>fq_deficit := 0\<rparr>] m w, bp)"
  by (simp add: rxdrop_start_def fresh_loop_def bnd_assoc case_prod_unfold Let_def)

lemma worker_iter_phases:
  "worker_iter api libc prof dq cr rr bc core (s, qs) =
   (let (go, qs) = poll_command cr rr core (lp_stats s) qs in
    if \<not> go then Ret (False, s, qs)
    else bnd (run_phases api libc prof dq bc l2_iteration (s, bp)) (\<lambda>(s, bp). Ret (True, s, qs)))"
  by (simp add: worker_iter_def l2_body_def l2_iteration_def bnd_assoc case_prod_unfold Let_def
      numeral_2_eq_2)

lemma rxdrop_iter_phases:
  "rxdrop_iter api libc prof dq cr rr bc core (s, qs) =
   (let (go, qs) = poll_command cr rr core (lp_stats s) qs in
    if \<not> go then Ret (False, s, qs)
    else bnd (run_phases api libc prof dq bc drop_iteration (s, bp)) (\<lambda>(s, bp). Ret (True, s, qs)))"
  by (simp add: rxdrop_iter_def rxdrop_body_def drop_iteration_def bnd_assoc case_prod_unfold Let_def)

section \<open>The whole program\<close>

record ('r, 'u, 'q, 'w) worker =
  th_core :: usize
  th_prog :: "phase list"
  th_todo :: "phase list"
  th_alive :: bool
  th_loop :: "('r, 'u, 'q, 'w) loop"

text \<open>What the threads share, and the controller (\<open>None\<close> once it ended) with the rows it printed.\<close>

record ('r, 'u, 'q, 'w, 'c, 'd, 'row, 'k) system =
  sy_workers :: "('r, 'u, 'q, 'w) worker list"
  sy_queues :: "('c, 'd) queues list"
  sy_pool :: "'u buf_mmap buf_pool_vec"
  sy_ctl :: "controller option"
  sy_exit :: bool
  sy_out :: "'row list"
  sy_clock :: 'k
  sy_world :: 'w

text \<open>What the program is given: the libraries, the build, the clock, its \<open>StatState::diff\<close>.\<close>

record ('r, 'u, 'q, 'w, 'c, 'd, 'row, 'k) outside =
  x_api :: "('r, 'w) xsk_api"
  x_libc :: "'w libc_api"
  x_prof :: profile
  x_dq :: "('u buf_mmap, 'q) deque_api"
  x_bc :: 'u
  x_cr :: "(command, 'c) spsc_api"
  x_rr :: "(response, 'd) spsc_api"
  x_clock :: "'k \<Rightarrow> nat \<times> 'k"
  x_diff :: "nat \<Rightarrow> stat_state \<Rightarrow> stat_state \<Rightarrow> 'row list outcome"

text \<open>
  A worker runs its next phase; with none left it looks for a command and begins an iteration, or
  ends. It sees the kernel and the pool as the other threads left them.
\<close>

definition worker_event :: "('r, 'u, 'q, 'w, 'c, 'd, 'row, 'k) outside \<Rightarrow> nat
    \<Rightarrow> ('r, 'u, 'q, 'w, 'c, 'd, 'row, 'k) system
    \<Rightarrow> ('r, 'u, 'q, 'w, 'c, 'd, 'row, 'k) system outcome" where
  "worker_event x i s =
     (let t = sy_workers s ! i in
      if \<not> th_alive t then Ret s
      else case th_todo t of
        [] \<Rightarrow>
          let (go, qs) = poll_command (x_cr x) (x_rr x) (th_core t) (lp_stats (th_loop t)) (sy_queues s ! i);
              t = (if go then t\<lparr>th_todo := th_prog t\<rparr> else t\<lparr>th_alive := False\<rparr>)
          in Ret (s\<lparr>sy_workers := (sy_workers s)[i := t], sy_queues := (sy_queues s)[i := qs]\<rparr>)
      | ph # phs \<Rightarrow>
          bnd (run_phase (x_api x) (x_libc x) (x_prof x) (x_dq x) (x_bc x) ph
                 ((th_loop t)\<lparr>lp_world := sy_world s\<rparr>, sy_pool s)) (\<lambda>(l, bp).
            Ret (s\<lparr>sy_workers := (sy_workers s)[i := t\<lparr>th_todo := phs, th_loop := l\<rparr>],
                   sy_pool := bp, sy_world := lp_world l\<rparr>)))"

datatype event = Worker nat | Control | Interrupt

fun sys_event :: "('r, 'u, 'q, 'w, 'c, 'd, 'row, 'k) outside \<Rightarrow> event
    \<Rightarrow> ('r, 'u, 'q, 'w, 'c, 'd, 'row, 'k) system
    \<Rightarrow> ('r, 'u, 'q, 'w, 'c, 'd, 'row, 'k) system outcome" where
  "sys_event x (Worker i) s = (if i < length (sy_workers s) then worker_event x i s else Ret s)"
| "sys_event x Control s =
     (case sy_ctl s of
        None \<Rightarrow> Ret s
      | Some ct \<Rightarrow>
          bnd (controller_iter (x_clock x) (x_cr x) (x_rr x) (x_diff x) (sy_exit s) ct (sy_queues s)
                 (sy_clock s)) (\<lambda>(go, rows, ct, qss, k).
            Ret (s\<lparr>sy_queues := qss, sy_ctl := if go then Some ct else None,
                   sy_out := sy_out s @ rows, sy_clock := k\<rparr>)))"
| "sys_event x Interrupt s = Ret (s\<lparr>sy_exit := True\<rparr>)"

primrec sys_run :: "('r, 'u, 'q, 'w, 'c, 'd, 'row, 'k) outside \<Rightarrow> event list
    \<Rightarrow> ('r, 'u, 'q, 'w, 'c, 'd, 'row, 'k) system
    \<Rightarrow> ('r, 'u, 'q, 'w, 'c, 'd, 'row, 'k) system outcome" where
  "sys_run x [] s = Ret s"
| "sys_run x (e # es) s = bnd (sys_event x e s) (sys_run x es)"

section \<open>Invariants\<close>

text \<open>Where a phase may run: on a link the worker has; packets are forwarded between two links only.\<close>

fun phase_ok :: "nat \<Rightarrow> phase \<Rightarrow> bool" where
  "phase_ok n Take = True"
| "phase_ok n (First p) = (p < n)"
| "phase_ok n (Service p) = (p < n)"
| "phase_ok n (Receive p) = (p < n)"
| "phase_ok n (Forward p) = (p < n \<and> n = 2)"
| "phase_ok n (Drop p) = (p < n \<and> n = 1)"
| "phase_ok n (Refill p) = (p < n)"

text \<open>The books of a worker after \<open>k\<close> events.\<close>

definition books_ok :: "('r \<Rightarrow> ring_kind) \<Rightarrow> ('q \<Rightarrow> 'u buf_mmap list) \<Rightarrow> mmap_area \<Rightarrow> nat
    \<Rightarrow> ('r, 'u, 'q, 'w) loop \<Rightarrow> bool" where
  "books_ok kind queued area k l \<longleftrightarrow> env_ok kind area (loop_env l) \<and> deficit_ok l
     \<and> (length (lp_ports l) = 2 \<longrightarrow> flow_ok queued peer l)
     \<and> (\<forall>p < length (lp_ports l). rx_packets (lp_stats l ! p) \<le> k * PENDING_LEN)"

section \<open>A worker among others\<close>

text \<open>
  What other threads hold a worker cannot touch. For its own reasoning these frames may as well be the
  kernel's: the laws of the rings hold for any larger \<open>held\<close>.
\<close>

context xsk_link
begin

lemmas link_rules = peek_ok peek_le peek_window peek_frame rx_len_fits release_ok release_closes release_frame
  reserve_ok reserve_all_or_none reserve_window reserve_frame put_fill_staged put_tx_staged submit_ok
  submit_closes submit_frame

lemma link_frame: "xsk_link api ok (\<lambda>w. held w + F) kind window staged libc dq dq_ok queued"
  by (unfold_locales;
      ((rule link_rules; assumption) | (drule (3) peek_held, simp) | (drule (3) reserve_held, simp)
       | (drule (2) release_comp, simp) | (drule (2) release_rx, simp)
       | (drule (2) submit_held, simp) | (drule (4) put_fill_keeps, simp) | (drule (4) put_tx_keeps, simp)
       | (drule (1) poll_keeps, simp) | (drule (1) sendto_keeps, simp)))

text \<open>Every phase but \<open>Take\<close> keeps the invariant of a loop.\<close>

lemma loop_phase_keeps:
  assumes inv: "loop_inv ok held kind window dq_ok queued area l" and books: "books_ok kind queued area k l"
    and ph: "phase_ok (length (lp_ports l)) ph" "ph \<noteq> Take" and ma: "256 \<le> buf_len area"
    and room: "Suc k * PENDING_LEN < 2 ^ 64"
    and run: "run_phase api libc prof dq bc ph (l, bp) = Ret (l', bp')"
  shows "own_inv ok held window dq_ok queued area (loop_app l') \<and> bp' = bp
     \<and> books_ok kind queued area (Suc k) l' \<and> length (lp_ports l') = length (lp_ports l)"
proof -
  let ?n = "length (lp_ports l)"
  have rx: "rx_packets (lp_stats l ! p) \<le> k * PENDING_LEN" if "p < ?n" for p
    using books that by (simp add: books_ok_def)
  have "k * PENDING_LEN + PENDING_LEN < 2 ^ 64" using room by simp
  then have r: "rx_packets (lp_stats l ! p) + PENDING_LEN < 2 ^ 64" if "p < ?n" for p
    using rx [OF that] by linarith
  have flow: "flow_ok queued peer l" if "?n = 2" using books that by (simp add: books_ok_def)
  have goal: ?thesis if "loop_inv ok held kind window dq_ok queued area l'" "bp' = bp"
    "length (lp_ports l') = ?n" "?n = 2 \<longrightarrow> flow_ok queued peer l'"
    "\<forall>p < ?n. rx_packets (lp_stats l' ! p) \<le> rx_packets (lp_stats l ! p) + PENDING_LEN"
    using that rx by (fastforce simp: loop_inv_def books_ok_def)
  show ?thesis
  proof (cases ph)
    case (First pos)
    then obtain bs w where f: "initial_fill api prof (p_fq (lp_ports l ! pos)) (lp_bufs l) (unat RING_SIZE)
        (lp_world l) = Ret (bs, w)" and l': "l' = l\<lparr>lp_bufs := bs, lp_world := w\<rparr>" "bp' = bp"
      using run by (auto simp: bnd_Ret_iff)
    have i: "own_inv ok held window dq_ok queued area (loop_app l)" "env_ok kind area (loop_env l)"
      using inv by (simp_all add: loop_inv_def)
    have "initial_fill api prof (p_fq (lp_ports l ! pos)) (a_vecs (loop_app l) ! 0) (unat RING_SIZE)
        (a_world (loop_app l)) = Ret (bs, w)" using f by (simp add: loop_app_def)
    moreover have "kind (fq_ring (p_fq (lp_ports l ! pos))) = Fill"
      using i(2) ph(1) First by (auto simp: env_ok_def loop_env_def list_all_iff)
    moreover have "0 < length (a_vecs (loop_app l))" "unat RING_SIZE < 2 ^ 64"
      by (simp_all add: loop_app_def RING_SIZE_unat)
    ultimately have "own_inv ok held window dq_ok queued area
        ((loop_app l)\<lparr>a_vecs := (a_vecs (loop_app l))[0 := bs], a_world := w\<rparr>)"
      using initial_fill_keeps [OF _ i(1) ma] by blast
    moreover have "deficit_ok l' = deficit_ok l" by (simp add: l' deficit_ok_def)
    then have "deficit_ok l'" using inv by (simp add: loop_inv_def)
    ultimately have "loop_inv ok held kind window dq_ok queued area l'"
      using i(2) by (simp add: loop_inv_def l' loop_app_def loop_env_def)
    then show ?thesis using flow by (intro goal) (simp_all add: l' flow_ok_def)
  next
    case (Service pos)
    then have s: "service_phase api prof bc SERVICE_BATCH_SIZE pos l = Ret l'" "bp' = bp"
      using run by (auto simp: bnd_Ret_iff)
    have "pos < ?n" "SERVICE_BATCH_SIZE < 2 ^ 64" using ph(1) Service by (simp_all add: SERVICE_BATCH_SIZE_def)
    from service_phase_inv [OF s(1) inv ma this, of peer] show ?thesis
      using s(2) flow service_phase_rx [OF s(1)] by (intro goal) auto
  next
    case (Receive pos)
    then have s: "recv_phase api libc prof dq (\<lambda>_. Ret) SOCKET_BATCH_SIZE bc pos l = Ret l'" "bp' = bp"
      using run by (auto simp: bnd_Ret_iff)
    have pos: "pos < ?n" using ph(1) Receive by simp
    show ?thesis
      using recv_phase_inv [OF s(1) inv ma pos r [OF pos], of peer] s(2) flow
        recv_phase_rx [OF s(1) inv ma pos r [OF pos]] by (intro goal) auto
  next
    case (Forward pos)
    then have s: "forward_phase api libc prof dq SOCKET_BATCH_SIZE pos (peer pos) l = Ret l'" "bp' = bp"
      using run by (auto simp: bnd_Ret_iff)
    have c: "pos < ?n" "?n = 2" using ph(1) Forward by simp_all
    then have "inj_on peer {..<?n}" using inj_peer by simp
    from forward_phase_inv [where out = peer, OF s(1) inv ma c(1) this flow [OF c(2)]] show ?thesis
      using s(2) forward_phase_rx [OF s(1)] by (intro goal) auto
  next
    case (Drop pos)
    then have s: "l' = drop_phase dq pos l" "bp' = bp" using run by auto
    have c: "pos < ?n" "?n = 1" using ph(1) Drop by simp_all
    have "lp_stats l' = lp_stats l" by (simp add: s drop_phase_def case_prod_beta Let_def)
    then show ?thesis using drop_phase_inv [OF inv ma c(1)] c(2) s by (intro goal) auto
  next
    case (Refill pos)
    then have s: "fill_phase api prof FILL_THRESHOLD pos l = Ret l'" "bp' = bp"
      using run by (auto simp: bnd_Ret_iff)
    have pos: "pos < ?n" using ph(1) Refill by simp
    from fill_phase_inv [OF s(1) inv ma this, of peer] show ?thesis
      using s(2) flow fill_phase_ports [OF s(1)] fill_phase_rx [OF s(1)] by (intro goal) auto
  qed (use ph in simp)
qed

text \<open>The pool may be counted with the worker or with the others.\<close>

lemma own_inv_pool:
  "own_inv ok held window dq_ok queued area ((loop_app l)\<lparr>a_pool := bp\<rparr>) \<longleftrightarrow>
   (\<forall>b \<in> set (pool_items bp). on_frame area b)
   \<and> own_inv ok (\<lambda>w. held w + owned (pool_items bp)) window dq_ok queued area (loop_app l)"
  by (auto simp: own_inv_def live_bufs_def loop_app_def bpv_new_def ac_simps)

lemma run_phase_keeps:
  assumes inv: "own_inv ok held window dq_ok queued area ((loop_app l)\<lparr>a_pool := bp\<rparr>)"
    and books: "books_ok kind queued area k l" and ph: "phase_ok (length (lp_ports l)) ph"
    and ma: "256 \<le> buf_len area" and room: "Suc k * PENDING_LEN < 2 ^ 64"
    and run: "run_phase api libc prof dq bc ph (l, bp) = Ret (l', bp')"
  shows "own_inv ok held window dq_ok queued area ((loop_app l')\<lparr>a_pool := bp'\<rparr>)
     \<and> books_ok kind queued area (Suc k) l' \<and> length (lp_ports l') = length (lp_ports l)"
proof (cases "ph = Take")
  case True
  let ?a = "(loop_app l)\<lparr>a_pool := bp\<rparr>"
  from True run obtain r bs where g: "bpv_get prof (a_pool ?a) (a_vecs ?a ! 0) START_BUFS = Ret (r, bp', bs)"
    and l': "l' = l\<lparr>lp_bufs := bs\<rparr>" by (auto simp: bnd_Ret_iff loop_app_def)
  have "0 < length (a_vecs ?a)" by (simp add: loop_app_def)
  from pool_get_keeps [OF inv ma this g]
  have "own_inv ok held window dq_ok queued area ((loop_app l')\<lparr>a_pool := bp'\<rparr>)"
    by (simp add: l' loop_app_def)
  moreover have "deficit_ok l' = deficit_ok l" "flow_ok queued peer l' = flow_ok queued peer l"
    by (simp_all add: l' deficit_ok_def flow_ok_def)
  ultimately show ?thesis
    using books by (auto simp: books_ok_def l' loop_env_def intro: le_trans)
next
  case False
  let ?held = "\<lambda>w. held w + owned (pool_items bp)"
  have pool: "\<forall>b \<in> set (pool_items bp). on_frame area b"
    and own: "own_inv ok ?held window dq_ok queued area (loop_app l)"
    using inv unfolding own_inv_pool by simp_all
  have "loop_inv ok ?held kind window dq_ok queued area l"
    using own books by (simp add: loop_inv_def books_ok_def)
  from xsk_link.loop_phase_keeps [OF link_frame this books ph False ma room run]
  show ?thesis using pool unfolding own_inv_pool by simp
qed

text \<open>In a release build a phase returns, but for the wake-up and an incomplete first fill.\<close>

lemma first_fill_cases:
  assumes "ok (lp_world l)" and "kind (fq_ring (p_fq (lp_ports l ! pos))) = Fill"
    and "snd (window (fq_ring (p_fq (lp_ports l ! pos))) (lp_world l)) = 0" and "\<not> short_fill api l pos"
  shows "\<exists>v w. fq_fill api Release (p_fq (lp_ports l ! pos)) (lp_bufs l) (unat RING_SIZE) (lp_world l)
       = Ret (Ok (unat RING_SIZE), v, w)"
proof -
  let ?r = "fq_ring (p_fq (lp_ports l ! pos))"
  have len: "min (length (items (lp_bufs l))) (unat RING_SIZE) = unat RING_SIZE"
    using assms(4) by (simp add: short_fill_def)
  obtain n i w1 where rs: "prod_reserve api ?r (of_nat (unat RING_SIZE)) 0 (lp_world l) = (n, i, w1)"
    by (cases "prod_reserve api ?r (of_nat (unat RING_SIZE)) 0 (lp_world l)") auto
  have "n = 0 \<or> n = of_nat (unat RING_SIZE)"
    using reserve_all_or_none [OF assms(1) _ assms(3) rs] assms(2) by auto
  moreover have "n \<noteq> 0" using assms(4) rs by (simp add: short_fill_def)
  ultimately have n: "unat n = unat RING_SIZE" using unat_of_nat_u64 [of "unat RING_SIZE"] by (simp add: RING_SIZE_unat)
  then show ?thesis
    using fq_fill_eq [of "lp_bufs l" "unat RING_SIZE" api "p_fq (lp_ports l ! pos)" "lp_world l" n i w1 Release]
      rs len by (simp add: RING_SIZE_unat)
qed

lemma run_phase_returns:
  assumes inv: "own_inv ok held window dq_ok queued area ((loop_app l)\<lparr>a_pool := bp\<rparr>)"
    and books: "books_ok kind queued area k l" and ph: "phase_ok (length (lp_ports l)) ph"
    and wf: "ma_wf area" and len: "268 \<le> buf_len area"
  shows "(\<exists>y. run_phase api libc Release dq bc ph (l, bp) = Ret y)
     \<or> run_phase api libc Release dq bc ph (l, bp) = Panic ExplicitPanic
       \<and> ((\<exists>pos. ph = First pos \<and> short_fill api l pos) \<or> (\<exists>t v. wakeup_if_required api libc t v = Panic ExplicitPanic))"
proof -
  let ?held = "\<lambda>w. held w + owned (pool_items bp)"
  have own: "own_inv ok ?held window dq_ok queued area (loop_app l)"
    using inv unfolding own_inv_pool by simp
  then have li: "loop_inv ok ?held kind window dq_ok queued area l"
    using books by (simp add: loop_inv_def books_ok_def)
  have ma: "256 \<le> buf_len area" using len by simp
  note f = link_frame [of "owned (pool_items bp)"]
  show ?thesis
  proof (cases ph)
    case Take
    then show ?thesis by (simp add: bpv_get_eq Let_def)
  next
    case (First pos)
    have k: "kind (fq_ring (p_fq (lp_ports l ! pos))) = Fill"
      using books ph First by (auto simp: books_ok_def env_ok_def loop_env_def list_all_iff)
    have w: "ok (lp_world l)" and c: "\<forall>p. snd (window p (lp_world l)) = 0" and r: "unat RING_SIZE < 2 ^ 64"
      using own by (simp_all add: own_inv_def loop_app_def RING_SIZE_unat)
    obtain c' v u where f: "fq_fill api Release (p_fq (lp_ports l ! pos)) (lp_bufs l) (unat RING_SIZE)
        (lp_world l) = Ret (Ok c', v, u)"
      using fill_returns [OF w k c r] by blast
    show ?thesis
    proof (cases "short_fill api l pos")
      case True
      with f show ?thesis by (simp add: First initial_fill_def)
    next
      case False
      with first_fill_cases [OF w k spec [OF c]] show ?thesis by (auto simp: First initial_fill_def)
    qed
  next
    case (Service pos)
    have "pos < length (lp_ports l)" "SERVICE_BATCH_SIZE < 2 ^ 64"
      using ph Service by (simp_all add: SERVICE_BATCH_SIZE_def)
    from xsk_link.service_phase_returns [where dflt = bc, OF f li ma this] Service show ?thesis by fastforce
  next
    case (Receive pos)
    have "pos < length (lp_ports l)" using ph Receive by simp
    from xsk_link.recv_phase_returns [where custom = bc and n = SOCKET_BATCH_SIZE, OF f li wf len this disjI2 [OF refl]] Receive
    show ?thesis by fastforce
  next
    case (Forward pos)
    have "pos < length (lp_ports l)" "peer pos < length (lp_ports l)" using ph Forward by simp_all
    from xsk_link.forward_phase_returns [OF f li this, of SOCKET_BATCH_SIZE] Forward show ?thesis by fastforce
  next
    case (Refill pos)
    have "pos < length (lp_ports l)" using ph Refill by simp
    from xsk_link.fill_phase_returns [OF f li this, of FILL_THRESHOLD] Refill show ?thesis by fastforce
  qed simp
qed

end

section \<open>The invariant of the program\<close>

text \<open>Every buffer of the program, and the program as one holder of buffers.\<close>

abbreviation worker_bufs :: "('q \<Rightarrow> 'u buf_mmap list) \<Rightarrow> ('r, 'u, 'q, 'w) worker \<Rightarrow> 'u buf_mmap list" where
  "worker_bufs queued t \<equiv> live_bufs queued (loop_app (th_loop t))"

definition sys_bufs :: "('q \<Rightarrow> 'u buf_mmap list) \<Rightarrow> ('r, 'u, 'q, 'w, 'c, 'd, 'row, 'k) system
    \<Rightarrow> 'u buf_mmap list" where
  "sys_bufs queued s = concat (map (worker_bufs queued) (sy_workers s)) @ pool_items (sy_pool s)"

definition sys_app :: "('q \<Rightarrow> 'u buf_mmap list) \<Rightarrow> ('r, 'u, 'q, 'w, 'c, 'd, 'row, 'k) system
    \<Rightarrow> ('u, 'q, 'w) app" where
  "sys_app queued s = \<lparr>a_vecs = [\<lparr>items = sys_bufs queued s, capacity = length (sys_bufs queued s)\<rparr>],
     a_queues = [], a_pool = bpv_new 0, a_world = sy_world s\<rparr>"

definition worker_ok :: "('r \<Rightarrow> ring_kind) \<Rightarrow> ('q \<Rightarrow> bool) \<Rightarrow> ('q \<Rightarrow> 'u buf_mmap list) \<Rightarrow> mmap_area \<Rightarrow> nat
    \<Rightarrow> nat \<Rightarrow> ('r, 'u, 'q, 'w) worker \<Rightarrow> bool" where
  "worker_ok kind dq_ok queued area n k t \<longleftrightarrow> books_ok kind queued area k (th_loop t)
     \<and> length (lp_ports (th_loop t)) = n \<and> list_all (phase_ok n) (th_prog t @ th_todo t)
     \<and> vec_wf (lp_bufs (th_loop t)) \<and> (\<forall>q \<in> set (lp_queues (th_loop t)). dq_ok q)"

definition sys_inv :: "('w \<Rightarrow> bool) \<Rightarrow> ('w \<Rightarrow> u64 multiset) \<Rightarrow> ('r \<Rightarrow> ring_kind)
    \<Rightarrow> ('r \<Rightarrow> 'w \<Rightarrow> u32 \<times> nat) \<Rightarrow> ('q \<Rightarrow> bool) \<Rightarrow> ('q \<Rightarrow> 'u buf_mmap list) \<Rightarrow> mmap_area
    \<Rightarrow> nat \<Rightarrow> nat \<Rightarrow> ('r, 'u, 'q, 'w, 'c, 'd, 'row, 'k) system \<Rightarrow> bool" where
  "sys_inv ok held kind window dq_ok queued area n k s \<longleftrightarrow>
     own_inv ok held window dq_ok queued area (sys_app queued s)
   \<and> (\<forall>t \<in> set (sy_workers s). worker_ok kind dq_ok queued area n k t)"

text \<open>One worker and the pool on the one side, the other workers on the other.\<close>

definition others :: "('q \<Rightarrow> 'u buf_mmap list) \<Rightarrow> nat \<Rightarrow> ('r, 'u, 'q, 'w) worker list \<Rightarrow> 'u buf_mmap list" where
  "others queued i ts = concat (map (worker_bufs queued) (take i ts @ drop (Suc i) ts))"

lemma others_update [simp]: "others queued i (ts[i := t]) = others queued i ts"
  by (simp add: others_def)

lemma sys_bufs_split:
  assumes "i < length (sy_workers s)"
  shows "mset (sys_bufs queued s) = mset (live_bufs queued ((loop_app (th_loop (sy_workers s ! i)))
           \<lparr>a_pool := sy_pool s\<rparr>)) + mset (others queued i (sy_workers s))"
proof -
  have "mset (concat (map f ts)) = mset (f (ts ! i)) + mset (concat (map f (take i ts @ drop (Suc i) ts)))"
    if "i < length ts" for f :: "('a, 'b, 'c, 'd) worker \<Rightarrow> 'b buf_mmap list" and ts
    by (subst id_take_nth_drop [OF that]) simp
  from this [OF assms, of "worker_bufs queued"] show ?thesis
    by (simp add: sys_bufs_def others_def live_bufs_def loop_app_def bpv_new_def)
qed

lemma own_inv_split:
  assumes i: "i < length (sy_workers s)" and "vec_wf (lp_bufs (th_loop (sy_workers s ! i)))"
    and "\<forall>q \<in> set (lp_queues (th_loop (sy_workers s ! i))). dq_ok q"
  shows "own_inv ok held window dq_ok queued area (sys_app queued s) \<longleftrightarrow>
     (\<forall>b \<in> set (others queued i (sy_workers s)). on_frame area b)
   \<and> own_inv ok (\<lambda>w. held w + owned (others queued i (sy_workers s))) window dq_ok queued area
       ((loop_app ((th_loop (sy_workers s ! i))\<lparr>lp_world := sy_world s\<rparr>))\<lparr>a_pool := sy_pool s\<rparr>)"
proof -
  let ?l = "(loop_app (th_loop (sy_workers s ! i)))\<lparr>a_pool := sy_pool s\<rparr>"
    and ?o = "others queued i (sy_workers s)"
  have a: "(loop_app ((th_loop (sy_workers s ! i))\<lparr>lp_world := sy_world s\<rparr>))\<lparr>a_pool := sy_pool s\<rparr>
      = ?l\<lparr>a_world := sy_world s\<rparr>" by (simp add: loop_app_def)
  have m: "mset (sys_bufs queued s) = mset (live_bufs queued ?l) + mset ?o" by (rule sys_bufs_split [OF i])
  then have "set (sys_bufs queued s) = set (live_bufs queued ?l) \<union> set ?o"
    by (metis set_mset_mset set_mset_union)
  moreover have "live_bufs queued (sys_app queued s) = sys_bufs queued s"
    "a_vecs (sys_app queued s) = [\<lparr>items = sys_bufs queued s, capacity = length (sys_bufs queued s)\<rparr>]"
    "a_queues (sys_app queued s) = []" "a_world (sys_app queued s) = sy_world s"
    by (simp_all add: live_bufs_def sys_app_def bpv_new_def)
  moreover have "a_vecs ?l = [lp_bufs (th_loop (sy_workers s ! i))]"
    "a_queues ?l = lp_queues (th_loop (sy_workers s ! i))"
    by (simp_all add: loop_app_def)
  ultimately show ?thesis
    using assms(2,3) unfolding a own_inv_def by (auto simp: m vec_wf_def ac_simps)
qed

lemma worker_ok_Suc: "worker_ok kind dq_ok queued area n k t \<Longrightarrow> worker_ok kind dq_ok queued area n (Suc k) t"
  by (fastforce simp: worker_ok_def books_ok_def)

lemma sys_inv_Suc:
  "sys_inv ok held kind window dq_ok queued area n k s \<Longrightarrow> sys_inv ok held kind window dq_ok queued area n (Suc k) s"
  by (auto simp: sys_inv_def intro: worker_ok_Suc)

text \<open>A worker that takes all the turns runs its phases as one piece of code.\<close>

lemma worker_alone:
  assumes "i < length (sy_workers s)" and "sy_workers s ! i = t" and "th_alive t"
    and "th_todo t = phs @ rest" and "lp_world (th_loop t) = sy_world s"
    and "run_phases (x_api x) (x_libc x) (x_prof x) (x_dq x) (x_bc x) phs (th_loop t, sy_pool s) = Ret (l, bp)"
  shows "sys_run x (replicate (length phs) (Worker i)) s
    = Ret (s\<lparr>sy_workers := (sy_workers s)[i := t\<lparr>th_todo := rest, th_loop := l\<rparr>],
             sy_pool := bp, sy_world := lp_world l\<rparr>)"
  using assms
proof (induction phs arbitrary: s t)
  case Nil
  then have "l = th_loop t" "bp = sy_pool s" "rest = th_todo t" "(sy_workers s)[i := t] = sy_workers s"
    by auto
  with Nil.prems(5) show ?case by simp
next
  case (Cons ph phs)
  from Cons.prems(6) obtain l1 bp1 where r:
    "run_phase (x_api x) (x_libc x) (x_prof x) (x_dq x) (x_bc x) ph (th_loop t, sy_pool s) = Ret (l1, bp1)"
    "run_phases (x_api x) (x_libc x) (x_prof x) (x_dq x) (x_bc x) phs (l1, bp1) = Ret (l, bp)"
    by (auto simp: bnd_Ret_iff)
  let ?t = "t\<lparr>th_todo := phs @ rest, th_loop := l1\<rparr>"
  let ?s = "s\<lparr>sy_workers := (sy_workers s)[i := ?t], sy_pool := bp1, sy_world := lp_world l1\<rparr>"
  have "(th_loop t)\<lparr>lp_world := sy_world s\<rparr> = th_loop t" using Cons.prems(5) by simp
  then have e: "sys_event x (Worker i) s = Ret ?s"
    using Cons.prems(1-4) r(1) by (simp add: worker_event_def)
  have "sys_run x (replicate (length phs) (Worker i)) ?s
      = Ret (?s\<lparr>sy_workers := (sy_workers ?s)[i := ?t\<lparr>th_todo := rest, th_loop := l\<rparr>],
             sy_pool := bp, sy_world := lp_world l\<rparr>)"
    by (rule Cons.IH) (use Cons.prems r(2) in simp_all)
  with e show ?case by simp
qed

lemma sys_run_append: "sys_run x (es @ fs) s = bnd (sys_run x es s) (sys_run x fs)"
proof (induction es arbitrary: s)
  case (Cons e es)
  then show ?case by (cases "sys_event x e s") simp_all
qed simp

lemma sys_run_length: "sys_run x es s = Ret s' \<Longrightarrow> length (sy_workers s') = length (sy_workers s)"
proof (induction es arbitrary: s)
  case (Cons e es)
  then obtain t where t: "sys_event x e s = Ret t" "sys_run x es t = Ret s'" by (auto simp: bnd_Ret_iff)
  then have "length (sy_workers t) = length (sy_workers s)"
    by (cases e) (auto simp: worker_event_def Let_def bnd_Ret_iff
        split: if_split_asm list.splits option.splits prod.splits)
  with Cons.IH [OF t(2)] show ?case by simp
qed simp

context xsk_link
begin

lemma poll_keeps_inv:
  assumes "sys_inv ok held kind window dq_ok queued area n k s" and i: "i < length (sy_workers s)"
    and t: "th_loop t = th_loop (sy_workers s ! i)" "th_prog t = th_prog (sy_workers s ! i)"
      "set (th_todo t) \<subseteq> set (th_prog t)"
  shows "sys_inv ok held kind window dq_ok queued area n k
    (s\<lparr>sy_workers := (sy_workers s)[i := t], sy_queues := qss\<rparr>)"
proof -
  have "map (worker_bufs queued) ((sy_workers s)[i := t]) = map (worker_bufs queued) (sy_workers s)"
    using i t(1) by (simp add: map_update list_update_same_conv)
  then have "sys_app queued (s\<lparr>sy_workers := (sy_workers s)[i := t], sy_queues := qss\<rparr>) = sys_app queued s"
    by (simp add: sys_app_def sys_bufs_def)
  moreover have "worker_ok kind dq_ok queued area n k (sy_workers s ! i)"
    using assms(1) i by (simp add: sys_inv_def)
  then have "worker_ok kind dq_ok queued area n k t"
    using t by (auto simp: worker_ok_def list_all_iff)
  ultimately show ?thesis
    using assms(1) by (auto simp: sys_inv_def dest!: in_set_update)
qed

lemma worker_view:
  assumes inv: "sys_inv ok held kind window dq_ok queued area n k s" and i: "i < length (sy_workers s)"
    and l: "l = (th_loop (sy_workers s ! i))\<lparr>lp_world := sy_world s\<rparr>"
  shows "own_inv ok (\<lambda>w. held w + owned (others queued i (sy_workers s))) window dq_ok queued area
       ((loop_app l)\<lparr>a_pool := sy_pool s\<rparr>)
     \<and> (\<forall>b \<in> set (others queued i (sy_workers s)). on_frame area b)
     \<and> books_ok kind queued area k l \<and> length (lp_ports l) = n
     \<and> list_all (phase_ok n) (th_todo (sy_workers s ! i))"
proof -
  let ?t = "sy_workers s ! i"
  have t: "worker_ok kind dq_ok queued area n k ?t" using inv i by (simp add: sys_inv_def)
  then have tv: "vec_wf (lp_bufs (th_loop ?t))" "\<forall>q \<in> set (lp_queues (th_loop ?t)). dq_ok q"
    by (simp_all add: worker_ok_def)
  have "own_inv ok held window dq_ok queued area (sys_app queued s)" using inv by (simp add: sys_inv_def)
  then have o: "\<forall>b \<in> set (others queued i (sy_workers s)). on_frame area b"
    "own_inv ok (\<lambda>w. held w + owned (others queued i (sy_workers s))) window dq_ok queued area
       ((loop_app l)\<lparr>a_pool := sy_pool s\<rparr>)"
    unfolding own_inv_split [OF i tv] l by simp_all
  have "deficit_ok l = deficit_ok (th_loop ?t)" "flow_ok queued peer l = flow_ok queued peer (th_loop ?t)"
    by (simp_all add: l deficit_ok_def flow_ok_def)
  then have "books_ok kind queued area k l"
    using t by (simp add: worker_ok_def books_ok_def loop_env_def l)
  with t o show ?thesis by (simp add: worker_ok_def l)
qed

lemma phase_keeps_inv:
  assumes inv: "sys_inv ok held kind window dq_ok queued area n k s" and i: "i < length (sy_workers s)"
    and todo: "th_todo (sy_workers s ! i) = ph # phs" and ma: "256 \<le> buf_len area"
    and room: "Suc k * PENDING_LEN < 2 ^ 64"
    and run: "run_phase api libc prof dq bc ph
        ((th_loop (sy_workers s ! i))\<lparr>lp_world := sy_world s\<rparr>, sy_pool s) = Ret (l, bp)"
    and s': "s' = s\<lparr>sy_workers := (sy_workers s)[i := (sy_workers s ! i)\<lparr>th_todo := phs, th_loop := l\<rparr>],
        sy_pool := bp, sy_world := lp_world l\<rparr>"
  shows "sys_inv ok held kind window dq_ok queued area n (Suc k) s'"
proof -
  let ?t = "sy_workers s ! i" and ?o = "others queued i (sy_workers s)"
  let ?l = "(th_loop ?t)\<lparr>lp_world := sy_world s\<rparr>" and ?held = "\<lambda>w. held w + owned ?o"
  have t: "worker_ok kind dq_ok queued area n k ?t" using inv i by (simp add: sys_inv_def)
  have v: "own_inv ok ?held window dq_ok queued area ((loop_app ?l)\<lparr>a_pool := sy_pool s\<rparr>)"
    "\<forall>b \<in> set ?o. on_frame area b" "books_ok kind queued area k ?l" "phase_ok (length (lp_ports ?l)) ph"
    using worker_view [OF inv i refl] todo by simp_all
  from xsk_link.run_phase_keeps [OF link_frame v(1,3,4) ma room run]
  have r: "own_inv ok ?held window dq_ok queued area ((loop_app l)\<lparr>a_pool := bp\<rparr>)"
    "books_ok kind queued area (Suc k) l" "length (lp_ports l) = length (lp_ports (th_loop ?t))"
    by simp_all
  have t': "sy_workers s' ! i = ?t\<lparr>th_todo := phs, th_loop := l\<rparr>" "i < length (sy_workers s')"
    using i by (simp_all add: s')
  have "vec_wf (lp_bufs l)" "\<forall>q \<in> set (lp_queues l). dq_ok q"
    using r(1) by (simp_all add: own_inv_def loop_app_def)
  then have lv: "vec_wf (lp_bufs (th_loop (sy_workers s' ! i)))"
    "\<forall>q \<in> set (lp_queues (th_loop (sy_workers s' ! i))). dq_ok q"
    and tok: "worker_ok kind dq_ok queued area n (Suc k) (?t\<lparr>th_todo := phs, th_loop := l\<rparr>)"
    using t r(2,3) todo by (simp_all add: t' worker_ok_def)
  have "own_inv ok held window dq_ok queued area (sys_app queued s')"
    unfolding own_inv_split [OF t'(2) lv] using v(2) r(1) by (simp add: s' i)
  moreover have "\<forall>t \<in> set (sy_workers s'). worker_ok kind dq_ok queued area n (Suc k) t"
    using inv tok by (auto simp: s' sys_inv_def intro: worker_ok_Suc dest!: in_set_update)
  ultimately show ?thesis by (simp add: sys_inv_def)
qed

lemma sys_event_keeps:
  assumes inv: "sys_inv ok held kind window dq_ok queued area n k s" and ma: "256 \<le> buf_len area"
    and room: "Suc k * PENDING_LEN < 2 ^ 64" and x: "x_api x = api" "x_libc x = libc" "x_dq x = dq"
    and ev: "sys_event x e s = Ret s'"
  shows "sys_inv ok held kind window dq_ok queued area n (Suc k) s'"
proof (cases e)
  case (Worker i)
  show ?thesis
  proof (cases "i < length (sy_workers s) \<and> th_alive (sy_workers s ! i)")
    case False
    then show ?thesis using ev Worker sys_inv_Suc [OF inv] by (auto simp: worker_event_def split: if_split_asm)
  next
    case True
    let ?t = "sy_workers s ! i"
    show ?thesis
    proof (cases "th_todo ?t")
      case Nil
      obtain go qs where p: "poll_command (x_cr x) (x_rr x) (th_core ?t) (lp_stats (th_loop ?t))
          (sy_queues s ! i) = (go, qs)" by fastforce
      let ?u = "if go then ?t\<lparr>th_todo := th_prog ?t\<rparr> else ?t\<lparr>th_alive := False\<rparr>"
      have "s' = s\<lparr>sy_workers := (sy_workers s)[i := ?u], sy_queues := (sy_queues s)[i := qs]\<rparr>"
        using ev Worker True Nil p by (simp add: worker_event_def Let_def)
      moreover have "sys_inv ok held kind window dq_ok queued area n k
          (s\<lparr>sy_workers := (sy_workers s)[i := ?u], sy_queues := (sy_queues s)[i := qs]\<rparr>)"
        using True Nil by (intro poll_keeps_inv [OF inv]) auto
      ultimately show ?thesis by (simp add: sys_inv_Suc)
    next
      case (Cons ph phs)
      then obtain l bp where "run_phase api libc (x_prof x) dq (x_bc x) ph
          ((th_loop ?t)\<lparr>lp_world := sy_world s\<rparr>, sy_pool s) = Ret (l, bp)"
        "s' = s\<lparr>sy_workers := (sy_workers s)[i := ?t\<lparr>th_todo := phs, th_loop := l\<rparr>],
           sy_pool := bp, sy_world := lp_world l\<rparr>"
        using ev Worker True x by (auto simp: worker_event_def Let_def bnd_Ret_iff)
      then show ?thesis using True Cons by (intro phase_keeps_inv [OF inv _ _ ma room]) auto
    qed
  qed
next
  case Control
  then have "sy_workers s' = sy_workers s" "sys_app queued s' = sys_app queued s"
    using ev by (auto simp: sys_app_def sys_bufs_def bnd_Ret_iff split: option.splits)
  then show ?thesis using sys_inv_Suc [OF inv] by (simp add: sys_inv_def)
next
  case Interrupt
  then have "sy_workers s' = sy_workers s" "sys_app queued s' = sys_app queued s"
    using ev by (auto simp: sys_app_def sys_bufs_def)
  then show ?thesis using sys_inv_Suc [OF inv] by (simp add: sys_inv_def)
qed

lemma sys_run_keeps:
  assumes "sys_inv ok held kind window dq_ok queued area n k s" and "256 \<le> buf_len area"
    and "(k + length es) * PENDING_LEN < 2 ^ 64" and "x_api x = api" "x_libc x = libc" "x_dq x = dq"
    and "sys_run x es s = Ret s'"
  shows "sys_inv ok held kind window dq_ok queued area n (k + length es) s'"
  using assms(1,3,7)
proof (induction es arbitrary: k s)
  case (Cons e es)
  then obtain t where t: "sys_event x e s = Ret t" "sys_run x es t = Ret s'" by (auto simp: bnd_Ret_iff)
  have "Suc k * PENDING_LEN < 2 ^ 64" using Suc_k_room [of k "k + length (e # es)"] Cons.prems(2) by simp
  from Cons.IH [OF sys_event_keeps [OF Cons.prems(1) assms(2) this assms(4-6) t(1)] _ t(2)] Cons.prems(2)
  show ?case by simp
qed simp

text \<open>What the invariant says.\<close>

lemma sys_inv_safe:
  assumes "sys_inv ok held kind window dq_ok queued area n k s" and "ma_wf area"
  shows "owned (sys_bufs queued s) + held (sy_world s) = mset (frame_addrs area)
     \<and> apart (sys_bufs queued s)"
proof -
  have own: "own_inv ok held window dq_ok queued area (sys_app queued s)"
    using assms(1) by (simp add: sys_inv_def)
  have l: "live_bufs queued (sys_app queued s) = sys_bufs queued s" "a_world (sys_app queued s) = sy_world s"
    by (simp_all add: live_bufs_def sys_app_def bpv_new_def)
  have "apart (sys_bufs queued s)"
    unfolding sorted_wrt_iff_nth_less using own_inv_live_disjoint [OF own assms(2)] by (simp add: l)
  then show ?thesis using own by (simp add: own_inv_def l)
qed

end

section \<open>Shutting down\<close>

lemma worker_event_frame:
  assumes "worker_event x j s = Ret s'"
  shows "length (sy_workers s') = length (sy_workers s) \<and> length (sy_queues s') = length (sy_queues s)
     \<and> sy_ctl s' = sy_ctl s
     \<and> (i \<noteq> j \<longrightarrow> sy_workers s' ! i = sy_workers s ! i \<and> sy_queues s' ! i = sy_queues s ! i)"
  using assms
  by (auto simp: worker_event_def Let_def bnd_Ret_iff split: if_split_asm list.splits prod.splits)

text \<open>A turn of a live worker: its next phase, or a look for a command.\<close>

lemma worker_turn:
  assumes "spsc (x_cr x) slots msgs" and "worker_event x i s = Ret s'" and "th_alive (sy_workers s ! i)"
    and "i < length (sy_workers s)" and "i < length (sy_queues s)"
  shows "(\<exists>ph phs l. th_todo (sy_workers s ! i) = ph # phs
        \<and> sy_workers s' ! i = (sy_workers s ! i)\<lparr>th_todo := phs, th_loop := l\<rparr>
        \<and> sy_queues s' ! i = sy_queues s ! i)
    \<or> (th_todo (sy_workers s ! i) = []
        \<and> msgs (commands (sy_queues s' ! i)) = tl (msgs (commands (sy_queues s ! i)))
        \<and> sy_workers s' ! i = (if \<forall>cs. msgs (commands (sy_queues s ! i)) \<noteq> Exit # cs
             then (sy_workers s ! i)\<lparr>th_todo := th_prog (sy_workers s ! i)\<rparr>
             else (sy_workers s ! i)\<lparr>th_alive := False\<rparr>))"
proof (cases "th_todo (sy_workers s ! i)")
  case Nil
  let ?t = "sy_workers s ! i"
  obtain go qs where p: "poll_command (x_cr x) (x_rr x) (th_core ?t) (lp_stats (th_loop ?t)) (sy_queues s ! i)
      = (go, qs)" by fastforce
  note g = poll_command_go [OF assms(1), of "x_rr x" "th_core ?t" "lp_stats (th_loop ?t)" "sy_queues s ! i", unfolded p]
  have "s' = s\<lparr>sy_workers := (sy_workers s)[i := if go then ?t\<lparr>th_todo := th_prog ?t\<rparr> else ?t\<lparr>th_alive := False\<rparr>],
      sy_queues := (sy_queues s)[i := qs]\<rparr>"
    using assms(2,3) Nil p by (simp add: worker_event_def Let_def)
  with g assms(4,5) Nil show ?thesis by simp
next
  case (Cons ph phs)
  with assms show ?thesis by (auto simp: worker_event_def Let_def bnd_Ret_iff)
qed

lemma shutdown_run:
  assumes "spsc (x_cr x) slots msgs" and "sys_run x es s = Ret s'" and "sy_ctl s = None"
    and "i < length (sy_workers s)" and "i < length (sy_queues s)"
    and "th_alive (sy_workers s ! i) \<longrightarrow>
      (\<exists>cs ds. msgs (commands (sy_queues s ! i)) = cs @ Exit # ds \<and> Exit \<notin> set cs
         \<and> length (th_todo (sy_workers s ! i)) + length cs * Suc (length (th_prog (sy_workers s ! i)))
           < count_list es (Worker i))"
  shows "\<not> th_alive (sy_workers s' ! i)"
  using assms(2-)
proof (induction es arbitrary: s)
  case (Cons e es)
  from Cons.prems(1) obtain t where t: "sys_event x e s = Ret t" "sys_run x es t = Ret s'"
    by (auto simp: bnd_Ret_iff)
  have same: ?case if "sy_ctl t = sy_ctl s" "length (sy_workers t) = length (sy_workers s)"
    "length (sy_queues t) = length (sy_queues s)" "sy_workers t ! i = sy_workers s ! i"
    "sy_queues t ! i = sy_queues s ! i" "e = Worker i \<longrightarrow> \<not> th_alive (sy_workers s ! i)"
    by (rule Cons.IH [OF t(2)]) (use Cons.prems that in \<open>auto split: if_split_asm\<close>)
  show ?case
  proof (cases "e = Worker i \<and> th_alive (sy_workers s ! i)")
    case False
    show ?thesis
    proof (cases e)
      case (Worker j)
      show ?thesis
      proof (cases "j = i")
        case True
        with False Worker t(1) show ?thesis by (intro same) (auto simp: worker_event_def split: if_split_asm)
      next
        case False
        with Worker t(1) worker_event_frame [of x j s t i] show ?thesis
          by (intro same) (auto split: if_split_asm)
      qed
    next
      case Control
      then show ?thesis using t(1) Cons.prems(2) by (intro same) auto
    next
      case Interrupt
      then show ?thesis using t(1) by (intro same) auto
    qed
  next
    case True
    then have w: "worker_event x i s = Ret t" using t(1) Cons.prems(3) by simp
    note f = worker_event_frame [OF w, of i]
    obtain cs ds where c: "msgs (commands (sy_queues s ! i)) = cs @ Exit # ds" "Exit \<notin> set cs"
      "length (th_todo (sy_workers s ! i)) + length cs * Suc (length (th_prog (sy_workers s ! i)))
       < Suc (count_list es (Worker i))"
      using Cons.prems(5) True by auto
    show ?thesis
    proof (rule Cons.IH [OF t(2)])
      from worker_turn [OF assms(1) w conjunct2 [OF True] Cons.prems(3,4)]
      show "th_alive (sy_workers t ! i) \<longrightarrow>
          (\<exists>cs ds. msgs (commands (sy_queues t ! i)) = cs @ Exit # ds \<and> Exit \<notin> set cs
             \<and> length (th_todo (sy_workers t ! i)) + length cs * Suc (length (th_prog (sy_workers t ! i)))
               < count_list es (Worker i))"
      proof (elim disjE exE conjE)
        fix ph phs l assume "th_todo (sy_workers s ! i) = ph # phs"
          "sy_workers t ! i = (sy_workers s ! i)\<lparr>th_todo := phs, th_loop := l\<rparr>"
          "sy_queues t ! i = sy_queues s ! i"
        with c show ?thesis by auto
      next
        assume p: "th_todo (sy_workers s ! i) = []"
          "msgs (commands (sy_queues t ! i)) = tl (msgs (commands (sy_queues s ! i)))"
          "sy_workers t ! i = (if \<forall>cs. msgs (commands (sy_queues s ! i)) \<noteq> Exit # cs
             then (sy_workers s ! i)\<lparr>th_todo := th_prog (sy_workers s ! i)\<rparr>
             else (sy_workers s ! i)\<lparr>th_alive := False\<rparr>)"
        show ?thesis using p c by (cases cs) auto
      qed
    qed (use f Cons.prems in auto)
  qed
qed simp

text \<open>Without an \<open>Exit\<close> in its ring and without a controller a worker never ends.\<close>

lemma no_exit_run:
  assumes "spsc (x_cr x) slots msgs" and "sys_run x es s = Ret s'" and "sy_ctl s = None"
    and "i < length (sy_workers s)" and "i < length (sy_queues s)"
    and "th_alive (sy_workers s ! i)" and "Exit \<notin> set (msgs (commands (sy_queues s ! i)))"
  shows "th_alive (sy_workers s' ! i)"
  using assms(2-)
proof (induction es arbitrary: s)
  case (Cons e es)
  from Cons.prems(1) obtain t where t: "sys_event x e s = Ret t" "sys_run x es t = Ret s'"
    by (auto simp: bnd_Ret_iff)
  have "sy_ctl t = None \<and> length (sy_workers t) = length (sy_workers s)
      \<and> length (sy_queues t) = length (sy_queues s) \<and> th_alive (sy_workers t ! i)
      \<and> Exit \<notin> set (msgs (commands (sy_queues t ! i)))"
  proof (cases "e = Worker i")
    case True
    then have w: "worker_event x i s = Ret t" using t(1) Cons.prems(3) by simp
    from worker_turn [OF assms(1) w Cons.prems(5,3,4)] show ?thesis
      using worker_event_frame [OF w, of i] Cons.prems
      by (cases "msgs (commands (sy_queues s ! i))") (auto split: if_split_asm)
  next
    case False
    then show ?thesis
      using t(1) Cons.prems worker_event_frame [of x _ s t i]
      by (cases e) (auto split: if_split_asm)
  qed
  with Cons show ?case using t(2) by auto
qed simp

text \<open>
  Property C18. Shutting down. Ctrl-C is seen by the next turn of the controller, which pushes \<open>Exit\<close> to
  every worker and ends. A worker whose command ring had room then stops, whatever the schedule, as
  soon as it had one turn more than its unfinished iteration and one iteration for each command
  before \<open>Exit\<close> take. A worker whose ring was full of unread commands never stops: the failed push is only
  printed, and nobody will push again (\<open>main\<close> waits for the worker in \<open>join\<close>).
\<close>

theorem shutdown:
  assumes "spsc (x_cr x) slots msgs"
    and "sy_ctl s = Some ct" and "sy_exit s" and "i < length (sy_workers s)" and "i < length (sy_queues s)"
    and "Exit \<notin> set (msgs (commands (sy_queues s ! i)))"
    and "sys_run x (Control # es) s = Ret s'"
  shows "(length (msgs (commands (sy_queues s ! i))) < slots (commands (sy_queues s ! i))
       \<and> length (th_todo (sy_workers s ! i))
         + length (msgs (commands (sy_queues s ! i))) * Suc (length (th_prog (sy_workers s ! i)))
         < count_list es (Worker i) \<longrightarrow> \<not> th_alive (sy_workers s' ! i))
   \<and> (slots (commands (sy_queues s ! i)) \<le> length (msgs (commands (sy_queues s ! i)))
       \<and> th_alive (sy_workers s ! i) \<longrightarrow> th_alive (sy_workers s' ! i))"
proof -
  from assms(7) obtain t where t: "sys_event x Control s = Ret t" "sys_run x es t = Ret s'"
    by (auto simp: bnd_Ret_iff)
  then obtain go rows ct' qss k where c: "controller_iter (x_clock x) (x_cr x) (x_rr x) (x_diff x) True ct
      (sy_queues s) (sy_clock s) = Ret (go, rows, ct', qss, k)"
    and e: "t = s\<lparr>sy_queues := qss, sy_ctl := if go then Some ct' else None,
        sy_out := sy_out s @ rows, sy_clock := k\<rparr>"
    using assms(2,3) by (auto simp: bnd_Ret_iff)
  note ce = controller_exit [OF c]
  let ?m = "msgs (commands (sy_queues s ! i))"
  have "commands (qss ! i) = snd (rb_push (x_cr x) Exit (commands (sy_queues s ! i)))"
    using ce assms(5) by simp
  then have q: "msgs (commands (sy_queues t ! i))
      = (if length ?m < slots (commands (sy_queues s ! i)) then ?m @ [Exit] else ?m)"
    by (simp add: e spsc.push_msgs [OF assms(1)])
  have w: "sy_ctl t = None" "sy_workers t = sy_workers s" "i < length (sy_workers t)" "i < length (sy_queues t)"
    using ce assms(4,5) by (simp_all add: e)
  show ?thesis
    using shutdown_run [OF assms(1) t(2) w(1,3,4)] no_exit_run [OF assms(1) t(2) w(1,3,4)] assms(6) q w(2)
    by (cases "length ?m < slots (commands (sy_queues s ! i))") fastforce+
qed

text \<open>The example: two workers between iterations; the second has two unread commands, a full ring.\<close>

definition ex_outside :: "(nat \<Rightarrow> stat_state \<Rightarrow> stat_state \<Rightarrow> 'row list outcome)
    \<Rightarrow> (kring_id, unit, unit buf_mmap list, kworld, usize \<times> command list, usize \<times> response list, 'row, nat) outside"
  where
  "ex_outside diff = \<lparr>x_api = ref_api, x_libc = quiet_libc, x_prof = Release, x_dq = list_deque, x_bc = (),
     x_cr = list_ring, x_rr = list_ring, x_clock = (\<lambda>k. (k, k + 1)), x_diff = diff\<rparr>"

definition ex_system :: "(kring_id, unit, unit buf_mmap list, kworld, usize \<times> command list,
    usize \<times> response list, stats_row, nat) system" where
  "ex_system = (let t = \<lparr>th_core = 1, th_prog = l2_iteration, th_todo = [], th_alive = True,
       th_loop = ex_loop2 (ex_rx_world 0)\<rparr> in
     \<lparr>sy_workers = [t, t\<lparr>th_core := 2\<rparr>], sy_queues = [ex_queues [], ex_queues [GetStats, GetStats]],
      sy_pool = bpv_new 0, sy_ctl = Some \<lparr>ct_map = Map.empty, ct_pending = []\<rparr>, sy_exit = True,
      sy_out = [], sy_clock = 0, sy_world = ex_rx_world 0\<rparr>)"

theorem shutdown_witness:
  "\<exists>s. sys_run (ex_outside (stat_diff Release)) [Control, Worker 0, Worker 1] ex_system = Ret s
     \<and> \<not> th_alive (sy_workers s ! 0) \<and> th_alive (sy_workers s ! 1)"
proof -
  let ?x = "ex_outside (stat_diff Release)"
  obtain s where s: "sys_run ?x [Control, Worker 0, Worker 1] ex_system = Ret s"
    by (simp add: ex_outside_def ex_system_def controller_iter_def broadcast_def list_ring_def
        worker_event_def poll_command_def Let_def)
  have r: "spsc (x_cr ?x) fst snd" by (simp add: ex_outside_def listring.spsc_axioms)
  have c: "sy_ctl ex_system = Some \<lparr>ct_map = Map.empty, ct_pending = []\<rparr>" "sy_exit ex_system"
    "i < 2 \<Longrightarrow> i < length (sy_workers ex_system)" "i < 2 \<Longrightarrow> i < length (sy_queues ex_system)" for i
    by (simp_all add: ex_system_def)
  have "\<not> th_alive (sy_workers s ! 0)"
    using shutdown [OF r c(1-4) _ s, of 0] by (simp add: ex_system_def)
  moreover have "th_alive (sy_workers s ! 1)"
    using shutdown [OF r c(1-4) _ s, of 1] by (simp add: ex_system_def)
  ultimately show ?thesis using s by blast
qed

end
