(* ===== verification/Multicore.thy ===== *)
theory Multicore
  imports Threads "HOL-Library.List_Lexorder" "HOL-Library.Char_ord"
begin

text \<open>
  The \<open>main\<close> functions of \<open>examples/l2fwd-2link-multicore.rs\<close> and \<open>examples/rxdrop.rs\<close>, from the parsed
  options and configuration to the running threads, and the removal of the XDP programs at the end.
  The theorems join this set-up with \<open>Threads\<close>: what holds of the whole program under every schedule.
\<close>

section \<open>Options and configuration\<close>

text \<open>Both programs have the same options; the file they name has been read and parsed.\<close>

record mt_opt =
  m_bufsize :: usize
  m_bufnum :: usize
  m_huge_tlb :: bool
  m_zero_copy :: bool
  m_copy :: bool

record yaml_worker =
  yw_core :: usize
  yw_link1_name :: string
  yw_link1_channel :: usize
  yw_link2_name :: string
  yw_link2_channel :: usize

record yaml_drop =
  yd_core :: usize
  yd_link_name :: string
  yd_link_channel :: usize

section \<open>Set-up\<close>

text \<open>The area, with all buffers in the pool. The message about it multiplies, in \<open>usize\<close>.\<close>

definition fill_pool :: "'w libc_api \<Rightarrow> profile \<Rightarrow> 'u \<Rightarrow> mt_opt \<Rightarrow> 'w
    \<Rightarrow> ((mmap_area \<times> 'u buf_mmap buf_pool_vec) \<times> 'w) outcome" where
  "fill_pool libc prof dflt opt w =
     bnd (expect (mmap_area_new libc prof dflt (m_bufnum opt) (m_bufsize opt)
                    \<lparr>huge_tlb = m_huge_tlb opt\<rparr> w)) (\<lambda>((area, bs), w).
     bnd (usize_mul prof (length (items bs)) (m_bufsize opt)) (\<lambda>_.
       let bp = bpv_new (length (items bs)); len = length (items bs) in
       bnd (bpv_put prof bp bs len) (\<lambda>(r, bp, bs).
         if r = len then Ret ((area, bp), w) else Panic ExplicitPanic)))"

definition mt_socket_options :: "mt_opt \<Rightarrow> socket_options" where
  "mt_socket_options opt =
     socket_options_default\<lparr>zero_copy_mode := m_zero_copy opt, copy_mode := m_copy opt\<rparr>"

text \<open>One round of the loop over the configuration.\<close>

definition make_worker :: "('r, 'w) xsk_api \<Rightarrow> 'w libc_api \<Rightarrow> profile \<Rightarrow> mt_opt \<Rightarrow> mmap_area \<Rightarrow> yaml_worker
    \<Rightarrow> 'w \<Rightarrow> (('r worker_config \<times> string list) \<times> 'w) outcome" where
  "make_worker api libc prof opt area y w =
     bnd (expect (umem_new api libc prof area RING_SIZE RING_SIZE w)) (\<lambda>((um1, cq1, fq1), w).
     bnd (expect (umem_new api libc prof area RING_SIZE RING_SIZE w)) (\<lambda>((um2, cq2, fq2), w).
     bnd (expect (socket_new api libc um1 (yw_link1_name y) (yw_link1_channel y) RING_SIZE RING_SIZE
                    (mt_socket_options opt) w)) (\<lambda>((skt1, rx1, tx1), w).
     bnd (expect (socket_new api libc um2 (yw_link2_name y) (yw_link2_channel y) RING_SIZE RING_SIZE
                    (mt_socket_options opt) w)) (\<lambda>((skt2, rx2, tx2), w).
     Ret ((\<lparr>wc_core = yw_core y, link1_rx = rx1, link1_tx = tx1, link1_cq = cq1, link1_fq = fq1,
            link2_rx = rx2, link2_tx = tx2, link2_cq = cq2, link2_fq = fq2\<rparr>,
           [yw_link1_name y, yw_link2_name y]), w)))))"

primrec make_workers :: "('y \<Rightarrow> 'w \<Rightarrow> (('a \<times> string list) \<times> 'w) outcome) \<Rightarrow> 'y list \<Rightarrow> 'w
    \<Rightarrow> (('a list \<times> string list) \<times> 'w) outcome" where
  "make_workers mk [] w = Ret (([], []), w)"
| "make_workers mk (y # ys) w =
     bnd (mk y w) (\<lambda>((a, ns), w).
     bnd (make_workers mk ys w) (\<lambda>((as, ms), w). Ret ((a # as, ns @ ms), w)))"

text \<open>A thread that was spawned and has not run yet.\<close>

definition spawn_worker :: "('u buf_mmap, 'q) deque_api \<Rightarrow> memory \<Rightarrow> 'w \<Rightarrow> 'r worker_config
    \<Rightarrow> ('r, 'u, 'q, 'w) worker" where
  "spawn_worker dq m w config =
     \<lparr>th_core = wc_core config, th_prog = l2_iteration, th_todo = [Take, First 0, First 1],
      th_alive = True, th_loop = fresh_loop dq (config_ports config) m w\<rparr>"

definition start_threads :: "('r, 'u, 'q, 'w, 'c, 'd, 'row, 'k) outside
    \<Rightarrow> ('r, 'u, 'q, 'w) worker list \<Rightarrow> 'u buf_mmap buf_pool_vec \<Rightarrow> 'k \<Rightarrow> 'w
    \<Rightarrow> ('r, 'u, 'q, 'w, 'c, 'd, 'row, 'k) system" where
  "start_threads x ts bp k w =
     \<lparr>sy_workers = ts, sy_queues = new_queues (x_cr x) (x_rr x) (length ts), sy_pool = bp,
      sy_ctl = Some \<lparr>ct_map = Map.empty, ct_pending = []\<rparr>, sy_exit = False, sy_out = [],
      sy_clock = k, sy_world = w\<rparr>"

text \<open>\<open>main\<close> up to the join of the threads, with the names of the links for the end.\<close>

definition multicore_main :: "('r, 'u, 'q, 'w, 'c, 'd, 'row, 'k) outside \<Rightarrow> bool \<Rightarrow> mt_opt
    \<Rightarrow> yaml_worker list \<Rightarrow> memory \<Rightarrow> 'k \<Rightarrow> 'w
    \<Rightarrow> (('r, 'u, 'q, 'w, 'c, 'd, 'row, 'k) system \<times> string list) outcome" where
  "multicore_main x rlimit_ok opt ys m k w =
     (if \<not> rlimit_ok then Panic ExplicitPanic
      else
        bnd (fill_pool (x_libc x) (x_prof x) (x_bc x) opt w) (\<lambda>((area, bp), w).
        bnd (make_workers (make_worker (x_api x) (x_libc x) (x_prof x) opt area) ys w)
          (\<lambda>((configs, names), w).
          Ret (start_threads x (map (spawn_worker (x_dq x) m w) configs) bp k w, names))))"

text \<open>\<open>rxdrop\<close>: one link, of which only the fill queue and the receiving half are kept.\<close>

definition make_drop :: "('r, 'w) xsk_api \<Rightarrow> 'w libc_api \<Rightarrow> profile \<Rightarrow> mt_opt \<Rightarrow> mmap_area \<Rightarrow> yaml_drop
    \<Rightarrow> 'w \<Rightarrow> (((usize \<times> 'r port) \<times> string list) \<times> 'w) outcome" where
  "make_drop api libc prof opt area y w =
     bnd (expect (umem_new api libc prof area RING_SIZE RING_SIZE w)) (\<lambda>((um, cq, fq), w).
     bnd (expect (socket_new api libc um (yd_link_name y) (yd_link_channel y) RING_SIZE RING_SIZE
                    (mt_socket_options opt) w)) (\<lambda>((skt, rx, tx), w).
     Ret (((yd_core y, \<lparr>p_cq = cq, p_fq = fq, p_rx = rx, p_tx = tx, fq_deficit = 0\<rparr>),
           [yd_link_name y]), w)))"

definition spawn_drop :: "('u buf_mmap, 'q) deque_api \<Rightarrow> memory \<Rightarrow> 'w \<Rightarrow> usize \<times> 'r port
    \<Rightarrow> ('r, 'u, 'q, 'w) worker" where
  "spawn_drop dq m w = (\<lambda>(core, port).
     \<lparr>th_core = core, th_prog = drop_iteration, th_todo = [Take, First 0], th_alive = True,
      th_loop = fresh_loop dq [port] m w\<rparr>)"

definition rxdrop_main :: "('r, 'u, 'q, 'w, 'c, 'd, 'row, 'k) outside \<Rightarrow> bool \<Rightarrow> mt_opt
    \<Rightarrow> yaml_drop list \<Rightarrow> memory \<Rightarrow> 'k \<Rightarrow> 'w
    \<Rightarrow> (('r, 'u, 'q, 'w, 'c, 'd, 'row, 'k) system \<times> string list) outcome" where
  "rxdrop_main x rlimit_ok opt ys m k w =
     (if \<not> rlimit_ok then Panic ExplicitPanic
      else
        bnd (fill_pool (x_libc x) (x_prof x) (x_bc x) opt w) (\<lambda>((area, bp), w).
        bnd (make_workers (make_drop (x_api x) (x_libc x) (x_prof x) opt area) ys w)
          (\<lambda>((configs, names), w).
          Ret (start_threads x (map (spawn_drop (x_dq x) m w) configs) bp k w, names))))"

section \<open>Removing the XDP programs\<close>

text \<open>
  \<open>if_nametoindex\<close> and \<open>set_link_xdp_fd\<close> are the functions of libc and libbpf; the link names are
  ordered as byte strings.
\<close>

definition remove_link :: "(string \<Rightarrow> 'w \<Rightarrow> u32) \<Rightarrow> (c_int \<Rightarrow> c_int \<Rightarrow> u32 \<Rightarrow> 'w \<Rightarrow> 'w) \<Rightarrow> string \<Rightarrow> 'w
    \<Rightarrow> 'w outcome" where
  "remove_link if_nametoindex set_link_xdp_fd link_name w =
     bnd (cstring_new link_name) (\<lambda>c.
       let link_index = if_nametoindex c w in
       Ret (if 0 < link_index then set_link_xdp_fd (sint link_index) (-1) 0 w else w))"

primrec remove_each :: "(string \<Rightarrow> 'w \<Rightarrow> u32) \<Rightarrow> (c_int \<Rightarrow> c_int \<Rightarrow> u32 \<Rightarrow> 'w \<Rightarrow> 'w) \<Rightarrow> string list \<Rightarrow> 'w
    \<Rightarrow> 'w outcome" where
  "remove_each if_nametoindex set_link_xdp_fd [] w = Ret w"
| "remove_each if_nametoindex set_link_xdp_fd (n # ns) w =
     bnd (remove_link if_nametoindex set_link_xdp_fd n w) (remove_each if_nametoindex set_link_xdp_fd ns)"

definition remove_links :: "(string \<Rightarrow> 'w \<Rightarrow> u32) \<Rightarrow> (c_int \<Rightarrow> c_int \<Rightarrow> u32 \<Rightarrow> 'w \<Rightarrow> 'w) \<Rightarrow> string list \<Rightarrow> 'w
    \<Rightarrow> 'w outcome" where
  "remove_links if_nametoindex set_link_xdp_fd link_names w =
     (let link_names = sort link_names; link_names = remdups_adj link_names in
      remove_each if_nametoindex set_link_xdp_fd link_names w)"

section \<open>What the set-up establishes\<close>

lemma make_workers_all:
  assumes "make_workers mk ys w = Ret ((as, ns), w')" and "Q w"
    and step: "\<And>y w a ns w'. mk y w = Ret ((a, ns), w') \<Longrightarrow> Q w \<Longrightarrow> Q w' \<and> P a"
  shows "Q w' \<and> (\<forall>a \<in> set as. P a) \<and> length as = length ys"
  using assms(1,2)
proof (induction ys arbitrary: w as ns)
  case (Cons y ys)
  from Cons.prems(1) obtain a n1 w1 bs n2 where m: "mk y w = Ret ((a, n1), w1)"
    "make_workers mk ys w1 = Ret ((bs, n2), w')" "as = a # bs"
    by (auto simp: bnd_Ret_iff)
  from step [OF m(1) Cons.prems(2)] have "Q w1" "P a" by simp_all
  with Cons.IH [OF m(2)] m(3) show ?case by simp
qed simp

definition ports_ok :: "('r \<Rightarrow> ring_kind) \<Rightarrow> mmap_area \<Rightarrow> 'r port list \<Rightarrow> bool" where
  "ports_ok kind area ps \<longleftrightarrow> list_all (\<lambda>p. kind (cq_ring (p_cq p)) = Completion
     \<and> um_area (cq_umem (p_cq p)) = area \<and> kind (fq_ring (p_fq p)) = Fill
     \<and> kind (rx_ring (p_rx p)) = Rx \<and> um_area (so_umem (rx_socket (p_rx p))) = area
     \<and> kind (tx_ring (p_tx p)) = Tx \<and> fq_deficit p = 0) ps"

context xsk_setup
begin

abbreviation (input) same_world :: "'w \<Rightarrow> 'w \<Rightarrow> bool" where
  "same_world w w' \<equiv> ok w' \<and> held w' = held w \<and> (\<forall>q. window q w' = window q w)"

lemma make_worker_keeps:
  assumes "make_worker api libc prof opt area y w = Ret ((config, names), w')" and "same_world v w"
  shows "same_world v w' \<and> ports_ok kind area (config_ports config)"
proof -
  from assms(1) obtain um1 cq1 fq1 w1 um2 cq2 fq2 w2 s1 rx1 tx1 w3 s2 rx2 tx2 where
    u1: "expect (umem_new api libc prof area RING_SIZE RING_SIZE w) = Ret ((um1, cq1, fq1), w1)"
    and u2: "expect (umem_new api libc prof area RING_SIZE RING_SIZE w1) = Ret ((um2, cq2, fq2), w2)"
    and k1: "expect (socket_new api libc um1 (yw_link1_name y) (yw_link1_channel y) RING_SIZE RING_SIZE
        (mt_socket_options opt) w2) = Ret ((s1, rx1, tx1), w3)"
    and k2: "expect (socket_new api libc um2 (yw_link2_name y) (yw_link2_channel y) RING_SIZE RING_SIZE
        (mt_socket_options opt) w3) = Ret ((s2, rx2, tx2), w')"
    and c: "config = \<lparr>wc_core = yw_core y, link1_rx = rx1, link1_tx = tx1, link1_cq = cq1,
        link1_fq = fq1, link2_rx = rx2, link2_tx = tx2, link2_cq = cq2, link2_fq = fq2\<rparr>"
    by (auto simp: make_worker_def bnd_Ret_iff)
  have o: "ok w" using assms(2) by simp
  note c1 = umem_new_keeps [OF u1 o]
  then have o1: "ok w1" by simp
  note c2 = umem_new_keeps [OF u2 o1]
  then have o2: "ok w2" by simp
  note c3 = socket_new_keeps [OF k1 o2]
  then have o3: "ok w3" by simp
  note c4 = socket_new_keeps [OF k2 o3]
  show ?thesis using c1 c2 c3 c4 assms(2) by (simp add: c config_ports_def ports_ok_def)
qed

lemma make_drop_keeps:
  assumes "make_drop api libc prof opt area y w = Ret ((config, names), w')" and "same_world v w"
  shows "same_world v w' \<and> ports_ok kind area [snd config]"
proof -
  from assms(1) obtain um cq fq w1 s rx tx where
    u: "expect (umem_new api libc prof area RING_SIZE RING_SIZE w) = Ret ((um, cq, fq), w1)"
    and k: "expect (socket_new api libc um (yd_link_name y) (yd_link_channel y) RING_SIZE RING_SIZE
        (mt_socket_options opt) w1) = Ret ((s, rx, tx), w')"
    and c: "config = (yd_core y, \<lparr>p_cq = cq, p_fq = fq, p_rx = rx, p_tx = tx, fq_deficit = 0\<rparr>)"
    by (auto simp: make_drop_def bnd_Ret_iff)
  have o: "ok w" using assms(2) by simp
  note c1 = umem_new_keeps [OF u o]
  then have o1: "ok w1" by simp
  note c2 = socket_new_keeps [OF k o1]
  show ?thesis using c1 c2 assms(2) by (simp add: c ports_ok_def)
qed

lemma all_workers_keep:
  assumes "make_workers (make_worker api libc prof opt area) ys w = Ret ((configs, names), w')" and "ok w"
  shows "same_world w w' \<and> (\<forall>c \<in> set configs. ports_ok kind area (config_ports c))
     \<and> length configs = length ys"
proof (rule make_workers_all [OF assms(1)])
  show "same_world w w" using assms(2) by simp
qed (rule make_worker_keeps)

lemma all_drops_keep:
  assumes "make_workers (make_drop api libc prof opt area) ys w = Ret ((configs, names), w')" and "ok w"
  shows "same_world w w' \<and> (\<forall>c \<in> set configs. ports_ok kind area [snd c])
     \<and> length configs = length ys"
proof (rule make_workers_all [OF assms(1)])
  show "same_world w w" using assms(2) by simp
qed (rule make_drop_keeps)

lemma fill_pool_start:
  assumes "fill_pool libc prof (dflt :: 'u) opt w = Ret ((area, bp), w')"
    and "256 \<le> m_bufsize opt" and "m_bufnum opt * m_bufsize opt < 2 ^ 64" and "ok w" and "held w = {#}"
    and "\<forall>r. snd (window r w) = 0" and "same_world w' v"
  shows "ma_wf area \<and> buf_num area = m_bufnum opt \<and> buf_len area = m_bufsize opt
     \<and> ok v \<and> (\<forall>r. snd (window r v) = 0) \<and> (\<forall>b \<in> set (pool_items bp). on_frame area b)
     \<and> owned (pool_items bp) + held v = mset (frame_addrs area)"
proof -
  from assms(1) obtain bs where a: "expect (mmap_area_new libc prof dflt (m_bufnum opt) (m_bufsize opt)
      \<lparr>huge_tlb = m_huge_tlb opt\<rparr> w) = Ret ((area, bs), w')" and "pool_items bp = items bs"
    by (auto simp: fill_pool_def bnd_Ret_iff Let_def bpv_put_eq bpv_new_def vec_extend_def
        vec_with_capacity_def split: if_split_asm)
  with area_start [where v = v and nq = 0, OF a assms(2-6)] assms(7) show ?thesis
    by (auto simp: own_inv_def app_start_def live_bufs_def bpv_new_def)
qed

lemma fill_pool_ok:
  assumes "ok w" and "fill_pool libc prof (dflt :: 'u) opt w = Ret ((area, bp), w')"
    and "m_bufnum opt * m_bufsize opt < 2 ^ 64"
  shows "ok w'"
proof -
  from assms(2) obtain bs where "expect (mmap_area_new libc prof dflt (m_bufnum opt) (m_bufsize opt)
      \<lparr>huge_tlb = m_huge_tlb opt\<rparr> w) = Ret ((area, bs), w')"
    by (auto simp: fill_pool_def bnd_Ret_iff Let_def split: if_split_asm)
  from area_new_keeps [OF this assms(1,3)] show ?thesis by simp
qed

lemma spawned_ok:
  assumes "ports_ok kind area ports" and "list_all (phase_ok n) (prog @ todo)"
    and "length ports = n"
  shows "worker_ok kind dq_ok queued area n 0
      \<lparr>th_core = core, th_prog = prog, th_todo = todo, th_alive = True, th_loop = fresh_loop dq ports m w\<rparr>
    \<and> worker_bufs queued
      \<lparr>th_core = core, th_prog = prog, th_todo = todo, th_alive = True, th_loop = fresh_loop dq ports m w\<rparr> = []"
proof -
  have "concat (map (\<lambda>x. queued (dq_new dq)) ports) = []" using new_deque by simp
  then show ?thesis
    using assms new_deque
    by (auto simp: worker_ok_def books_ok_def fresh_loop_def loop_env_def env_ok_def deficit_ok_def
        flow_ok_def ports_ok_def list_all_iff stats_default_def vec_wf_def vec_with_capacity_def
        live_bufs_def loop_app_def bpv_new_def comp_def)
qed

lemma spawn_worker_ok:
  "ports_ok kind area (config_ports c) \<Longrightarrow> worker_ok kind dq_ok queued area 2 0 (spawn_worker dq m (w :: 'w) c)
     \<and> worker_bufs queued (spawn_worker dq m w c) = []"
  unfolding spawn_worker_def by (rule spawned_ok) (simp_all add: l2_iteration_def config_ports_def)

lemma spawn_drop_ok:
  "ports_ok kind area [snd c] \<Longrightarrow> worker_ok kind dq_ok queued area 1 0 (spawn_drop dq m (w :: 'w) c)
     \<and> worker_bufs queued (spawn_drop dq m w c) = []"
  unfolding spawn_drop_def case_prod_beta by (rule spawned_ok) (simp_all add: drop_iteration_def)

lemma start_inv_sys:
  assumes "ok w" and "\<forall>r. snd (window r w) = 0" and "\<forall>b \<in> set (pool_items bp). on_frame area b"
    and "owned (pool_items bp) + held w = mset (frame_addrs area)"
    and "\<forall>t \<in> set ts. worker_ok kind dq_ok queued area n 0 t \<and> worker_bufs queued t = []"
  shows "sys_inv ok held kind window dq_ok queued area n 0 (start_threads x ts bp k w)"
proof -
  have "sys_bufs queued (start_threads x ts bp k w) = pool_items bp"
    using assms(5) by (simp add: sys_bufs_def start_threads_def)
  then show ?thesis
    using assms by (simp add: sys_inv_def own_inv_def sys_app_def live_bufs_def bpv_new_def vec_wf_def
        start_threads_def)
qed

end

lemma sys_run_start:
  assumes "xsk_setup (x_api x) ok held kind window staged (x_libc x) (x_dq x) dq_ok queued"
    and "256 \<le> m_bufsize opt" and "m_bufnum opt * m_bufsize opt < 2 ^ 64"
    and "ok w" and "held w = {#}" and "\<forall>r. snd (window r w) = 0"
    and "fill_pool (x_libc x) (x_prof x) (x_bc x) opt w = Ret ((area, bp), w1)"
    and "ok w2 \<and> held w2 = held w1 \<and> (\<forall>q. window q w2 = window q w1)"
    and "\<forall>t \<in> set ts. worker_ok kind dq_ok queued area n 0 t \<and> worker_bufs queued t = []"
    and "sys_run x es (start_threads x ts bp k w2) = Ret s" and "length es * PENDING_LEN < 2 ^ 64"
  shows "ma_wf area \<and> buf_num area = m_bufnum opt \<and> buf_len area = m_bufsize opt
     \<and> sys_inv ok held kind window dq_ok queued area n (length es) s \<and> length (sy_workers s) = length ts"
proof -
  note link = xsk_setup.axioms(1) [OF assms(1)]
  have st: "ma_wf area" "buf_num area = m_bufnum opt" "buf_len area = m_bufsize opt" "ok w2"
    "\<forall>r. snd (window r w2) = 0" "\<forall>b \<in> set (pool_items bp). on_frame area b"
    "owned (pool_items bp) + held w2 = mset (frame_addrs area)"
    using xsk_setup.fill_pool_start [OF assms(1,7,2-6,8)] by simp_all
  have "sys_inv ok held kind window dq_ok queued area n 0 (start_threads x ts bp k w2)"
    by (rule xsk_setup.start_inv_sys [OF assms(1) st(4-7) assms(9)])
  from xsk_link.sys_run_keeps [OF link this _ _ refl refl refl assms(10)] assms(2,11) st(3)
  have "sys_inv ok held kind window dq_ok queued area n (length es) s" by simp
  then show ?thesis using st(1-3) sys_run_length [OF assms(10)] by (simp add: start_threads_def)
qed

section \<open>The example of the witnesses\<close>

text \<open>
  The reference kernel with rings of 2048 slots, 4096 frames, one worker on two queues of the link
  \<open>link1\<close> (or two workers of \<open>rxdrop\<close>), a clock that counts.
\<close>

definition mt_world :: "kring_id list \<Rightarrow> kworld" where
  "mt_world rs = big_world\<lparr>k_next := rs\<rparr>"

lemma mt_world_facts:
  "k_ok (mt_world rs)" "k_held (mt_world rs) = {#}" "\<forall>r. snd (k_window r (mt_world rs)) = 0"
  "k_ring (mt_world rs) r = mk_kring 2048 0 []" "k_next (mt_world rs) = rs"
  "(mt_world rs)\<lparr>k_next := rs'\<rparr> = mt_world rs'"
  by (simp_all add: mt_world_def big_world_facts del: split_paired_All)

definition ex_mt_opt :: mt_opt where
  "ex_mt_opt = \<lparr>m_bufsize = 2048, m_bufnum = 4096, m_huge_tlb = False, m_zero_copy = False, m_copy = False\<rparr>"

lemma mt_fill_pool:
  "\<exists>bp. fill_pool quiet_libc Release () ex_mt_opt w = Ret ((big_area, bp), w) \<and> length (pool_items bp) = 4096"
proof -
  obtain bs where "expect (mmap_area_new quiet_libc Release () 4096 2048 \<lparr>huge_tlb = False\<rparr> w)
      = Ret ((big_area, bs), w)" "length (items bs) = 4096"
    using mmap_area_new_result [where libc = quiet_libc and num = 4096 and len = 2048 and w = w and w' = w
        and options = "\<lparr>huge_tlb = False\<rparr>" and p = 65536 and prof = Release and dflt = "()",
        OF xsk_setup.axioms(2) [OF xsk_setup_quiet]]
    by (auto simp: quiet_libc_def ref_libc_def big_area_def expect_Ret)
  then show ?thesis
    by (simp add: fill_pool_def ex_mt_opt_def usize_mul_ok bpv_put_eq bpv_new_def vec_extend_def
        vec_with_capacity_def)
qed

lemma mt_first_fill:
  assumes "k_ring w (b, Fill) = mk_kring 2048 0 []" and "2048 \<le> length (items v)"
  shows "\<exists>v' w'. initial_fill ref_api Release \<lparr>fq_umem = u, fq_ring = (b, Fill)\<rparr> v (unat RING_SIZE) w
      = Ret (v', w') \<and> length (items v') = length (items v) - 2048
      \<and> (\<forall>q. q \<noteq> (b, Fill) \<longrightarrow> k_ring w' q = k_ring w q)"
proof -
  have "k_ring w (b, Fill) = mk_kring (of_nat 2048) 0 []" using assms(1) by simp
  from ex_fill [OF this assms(2), of u] show ?thesis
    by (fastforce simp: initial_fill_def RING_SIZE_unat)
qed

lemma mt_take:
  assumes "length (pool_items bp) = n" and "n \<le> START_BUFS"
  shows "\<exists>bp' v. bpv_get Release bp (vec_with_capacity START_BUFS) START_BUFS = Ret (n, bp', v)
     \<and> length (items v) = n"
  using assms by (auto simp: bpv_get_eq bpv_len_def Let_def)

lemma pow_RING_SIZE: "is_pow_of_two RING_SIZE"
  by (simp add: is_pow_of_two_def RING_SIZE_def)

lemma multicore_run:
  assumes "xsk_setup (x_api x) ok held kind window staged (x_libc x) (x_dq x) dq_ok queued"
    and "256 \<le> m_bufsize opt" and "m_bufnum opt * m_bufsize opt < 2 ^ 64"
    and "ok w" and "held w = {#}" and "\<forall>r. snd (window r w) = 0"
    and "multicore_main x rlimit_ok opt ys m k w = Ret (s0, names)"
    and "sys_run x es s0 = Ret s" and "length es * PENDING_LEN < 2 ^ 64"
  shows "\<exists>area. ma_wf area \<and> buf_num area = m_bufnum opt \<and> buf_len area = m_bufsize opt
     \<and> sys_inv ok held kind window dq_ok queued area 2 (length es) s \<and> length (sy_workers s) = length ys"
proof -
  obtain area bp w1 configs w2 where f: "fill_pool (x_libc x) (x_prof x) (x_bc x) opt w = Ret ((area, bp), w1)"
    and mk: "make_workers (make_worker (x_api x) (x_libc x) (x_prof x) opt area) ys w1
        = Ret ((configs, names), w2)"
    and s0: "s0 = start_threads x (map (spawn_worker (x_dq x) m w2) configs) bp k w2"
    using assms(7) by (auto simp: multicore_main_def bnd_Ret_iff split: if_split_asm)
  note m = xsk_setup.all_workers_keep [OF assms(1) mk xsk_setup.fill_pool_ok [OF assms(1,4) f assms(3)]]
  have "\<forall>t \<in> set (map (spawn_worker (x_dq x) m w2) configs). worker_ok kind dq_ok queued area 2 0 t
      \<and> worker_bufs queued t = []"
    using m xsk_setup.spawn_worker_ok [OF assms(1)] by auto
  from sys_run_start [OF assms(1-6) f conjunct1 [OF m] this assms(8) [unfolded s0] assms(9)] m
  show ?thesis by auto
qed

text \<open>
  Property C2. The multi-threaded forwarder from its first line, under every schedule: whatever the
  order in which the workers, the controller and Ctrl-C take their turns, the buffers of all threads and of the
  shared pool occupy disjoint memory, every frame of the area is in exactly one place, and on each
  link of each worker the packets received are those sent on the other link and those pending, and the
  buffers consumed are those filled again and those still owed.
\<close>

theorem multicore_correct:
  assumes "xsk_setup (x_api x) ok held kind window staged (x_libc x) (x_dq x) dq_ok queued"
    and "256 \<le> m_bufsize opt" and "m_bufnum opt * m_bufsize opt < 2 ^ 64"
    and "ok w" and "held w = {#}" and "\<forall>r. snd (window r w) = 0"
    and "multicore_main x rlimit_ok opt ys m k w = Ret (s0, names)"
    and "sys_run x es s0 = Ret s" and "length es * PENDING_LEN < 2 ^ 64"
  shows "\<exists>area. ma_wf area \<and> buf_num area = m_bufnum opt \<and> buf_len area = m_bufsize opt
     \<and> owned (sys_bufs queued s) + held (sy_world s) = mset (frame_addrs area)
     \<and> apart (sys_bufs queued s) \<and> length (sy_workers s) = length ys
     \<and> (\<forall>t \<in> set (sy_workers s). \<forall>p < 2. let l = th_loop t in
          rx_packets (lp_stats l ! p) = fq_bufs (lp_stats l ! p) + fq_deficit (lp_ports l ! p)
          \<and> rx_packets (lp_stats l ! p)
            = tx_packets (lp_stats l ! peer p) + length (queued (lp_queues l ! p)))"
proof -
  obtain area where a: "ma_wf area" "buf_num area = m_bufnum opt" "buf_len area = m_bufsize opt"
    "sys_inv ok held kind window dq_ok queued area 2 (length es) s" "length (sy_workers s) = length ys"
    using multicore_run [OF assms] by blast
  have "let l = th_loop t in
          rx_packets (lp_stats l ! p) = fq_bufs (lp_stats l ! p) + fq_deficit (lp_ports l ! p)
          \<and> rx_packets (lp_stats l ! p)
            = tx_packets (lp_stats l ! peer p) + length (queued (lp_queues l ! p))"
    if "t \<in> set (sy_workers s)" "p < 2" for t p
  proof -
    have "worker_ok kind dq_ok queued area 2 (length es) t" using a(4) that(1) by (simp add: sys_inv_def)
    then have "deficit_ok (th_loop t)" "flow_ok queued peer (th_loop t)" "length (lp_ports (th_loop t)) = 2"
      by (simp_all add: worker_ok_def books_ok_def)
    with that(2) show ?thesis by (simp add: deficit_ok_def flow_ok_def)
  qed
  with xsk_link.sys_inv_safe [OF xsk_setup.axioms(1) [OF assms(1)] a(4,1)] a(1-3,5) show ?thesis by blast
qed

definition ex_yaml :: yaml_worker where
  "ex_yaml = \<lparr>yw_core = 1, yw_link1_name = ''link1'', yw_link1_channel = 0, yw_link2_name = ''link1'',
     yw_link2_channel = 1\<rparr>"

abbreviation "ex_rings \<equiv> [(False, Completion), (False, Fill), (True, Completion), (True, Fill),
   (False, Rx), (False, Tx), (True, Rx), (True, Tx)]"

lemma mt_main:
  "\<exists>c bp. multicore_main (ex_outside diff) True ex_mt_opt [ex_yaml] m k (mt_world ex_rings)
     = Ret (start_threads (ex_outside diff) [spawn_worker list_deque m (mt_world []) c] bp k (mt_world []),
            [''link1'', ''link1''])
   \<and> length (pool_items bp) = 4096
   \<and> (\<exists>u. link1_fq c = \<lparr>fq_umem = u, fq_ring = (False, Fill)\<rparr>)
   \<and> (\<exists>u. link2_fq c = \<lparr>fq_umem = u, fq_ring = (True, Fill)\<rparr>)"
proof -
  obtain bp where f: "fill_pool quiet_libc Release () ex_mt_opt (mt_world ex_rings)
      = Ret ((big_area, bp), mt_world ex_rings)" "length (pool_items bp) = 4096"
    using mt_fill_pool by blast
  have sz: "buf_num big_area * buf_len big_area < 2 ^ 64" by (simp add: big_area_def)
  note u = ref_umem_new [OF pow_RING_SIZE pow_RING_SIZE mt_world_facts(5) sz refl, unfolded mt_world_facts(6)]
  note s = ref_socket_new [OF pow_RING_SIZE pow_RING_SIZE mt_world_facts(5) refl, unfolded mt_world_facts(6)]
  show ?thesis
    using f by (fastforce simp: multicore_main_def make_worker_def ex_outside_def ex_yaml_def u s)
qed

theorem multicore_correct_witness:
  "\<exists>s0 names s. multicore_main (ex_outside (stat_diff Release)) True ex_mt_opt [ex_yaml] (\<lambda>_. 0) 0
        (mt_world ex_rings) = Ret (s0, names)
     \<and> sys_run (ex_outside (stat_diff Release)) (replicate 3 (Worker 0) @ [Interrupt, Control, Worker 0]) s0 = Ret s
     \<and> \<not> th_alive (sy_workers s ! 0) \<and> apart (sys_bufs (\<lambda>q. q) s)"
proof -
  let ?x = "ex_outside (stat_diff Release)"
  obtain c bp u1 u2 where m: "multicore_main ?x True ex_mt_opt [ex_yaml] (\<lambda>_. 0) 0 (mt_world ex_rings)
     = Ret (start_threads ?x [spawn_worker list_deque (\<lambda>_. 0) (mt_world []) c] bp 0 (mt_world []),
            [''link1'', ''link1''])" "length (pool_items bp) = 4096"
    "link1_fq c = \<lparr>fq_umem = u1, fq_ring = (False, Fill)\<rparr>" "link2_fq c = \<lparr>fq_umem = u2, fq_ring = (True, Fill)\<rparr>"
    using mt_main by blast
  let ?t = "spawn_worker list_deque (\<lambda>_. 0) (mt_world []) c"
  let ?s0 = "start_threads ?x [?t] bp 0 (mt_world [])"
  obtain bp' v where t: "bpv_get Release bp (vec_with_capacity START_BUFS) START_BUFS = Ret (4096, bp', v)"
    "length (items v) = 4096"
    using mt_take [OF m(2)] by (auto simp: START_BUFS_def)
  obtain v1 w1 where f1: "initial_fill ref_api Release (link1_fq c) v (unat RING_SIZE) (mt_world []) = Ret (v1, w1)"
    "length (items v1) = 2048" "k_ring w1 (True, Fill) = mk_kring 2048 0 []"
    using mt_first_fill [of "mt_world []" False v u1] t(2) m(3) mt_world_facts(4) by auto
  obtain v2 w2 where f2: "initial_fill ref_api Release (link2_fq c) v1 (unat RING_SIZE) w1 = Ret (v2, w2)"
    using mt_first_fill [of w1 True v1 u2] f1(2,3) m(4) by auto
  obtain l bp2 where "worker_start ref_api Release list_deque c bp (\<lambda>_. 0) (mt_world []) = Ret (l, bp2)"
    using t(1) f1(1) f2 by (simp add: worker_start_def)
  then have "run_phases ref_api quiet_libc Release list_deque () [Take, First 0, First 1]
      (th_loop ?t, bp) = Ret (l, bp2)"
    unfolding worker_start_phases [where libc = quiet_libc and bc = "()"] by (simp add: spawn_worker_def)
  then have r1: "sys_run ?x (replicate (length [Take, First 0, First 1]) (Worker 0)) ?s0
      = Ret (?s0\<lparr>sy_workers := [?t\<lparr>th_todo := [], th_loop := l\<rparr>], sy_pool := bp2, sy_world := lp_world l\<rparr>)"
    using worker_alone [of 0 ?s0 ?t "[Take, First 0, First 1]" "[]" ?x l bp2]
    by (simp add: ex_outside_def start_threads_def spawn_worker_def fresh_loop_def)
  obtain s where r2: "sys_run ?x [Interrupt, Control, Worker 0]
      (?s0\<lparr>sy_workers := [?t\<lparr>th_todo := [], th_loop := l\<rparr>], sy_pool := bp2, sy_world := lp_world l\<rparr>) = Ret s"
    "\<not> th_alive (sy_workers s ! 0)"
    by (simp add: ex_outside_def start_threads_def new_queues_def controller_iter_def broadcast_def
        list_ring_def worker_event_def poll_command_def spawn_worker_def)
  have l: "length [Take, First 0, First 1] = 3" by simp
  have s: "sys_run ?x (replicate 3 (Worker 0) @ [Interrupt, Control, Worker 0]) ?s0 = Ret s"
    unfolding sys_run_append r1 [unfolded l] bnd.simps by (rule r2)
  have x: "xsk_setup (x_api ?x) k_ok k_held snd k_window k_staged (x_libc ?x) (x_dq ?x)
      (\<lambda>q. length q \<le> PENDING_LEN) (\<lambda>q. q)"
    using xsk_setup_quiet by (simp add: ex_outside_def)
  have o: "256 \<le> m_bufsize ex_mt_opt" "m_bufnum ex_mt_opt * m_bufsize ex_mt_opt < 2 ^ 64"
    "length (replicate 3 (Worker 0) @ [Interrupt, Control, Worker 0]) * PENDING_LEN < 2 ^ 64"
    by (simp_all add: ex_mt_opt_def PENDING_LEN_def)
  from multicore_correct [OF x o(1,2) mt_world_facts(1-3) m(1) s o(3)] m(1) s r2(2) show ?thesis by blast
qed

text \<open>
  Property C17. In a release build, with frames of at least 268 bytes, the workers of that program do not fail. In every state it reaches, the next turn of every
  worker returns; the exceptions are a first fill for which the worker has fewer than 2048 buffers or the fill
  ring no room, and a kernel that refuses a wake-up with an error the crate does not expect.
\<close>

theorem workers_return:
  assumes "xsk_setup (x_api x) ok held kind window staged (x_libc x) (x_dq x) dq_ok queued"
    and "268 \<le> m_bufsize opt" and "m_bufnum opt * m_bufsize opt < 2 ^ 64"
    and "ok w" and "held w = {#}" and "\<forall>r. snd (window r w) = 0"
    and "multicore_main x rlimit_ok opt ys m k w = Ret (s0, names)"
    and "sys_run x es s0 = Ret s" and "length es * PENDING_LEN < 2 ^ 64"
    and "x_prof x = Release"
  shows "(\<exists>s'. sys_event x (Worker i) s = Ret s')
     \<or> sys_event x (Worker i) s = Panic ExplicitPanic
       \<and> ((\<exists>pos phs. th_todo (sy_workers s ! i) = First pos # phs
              \<and> short_fill (x_api x) ((th_loop (sy_workers s ! i))\<lparr>lp_world := sy_world s\<rparr>) pos)
          \<or> (\<exists>t v. wakeup_if_required (x_api x) (x_libc x) t v = Panic ExplicitPanic))"
proof (cases "i < length (sy_workers s) \<and> th_alive (sy_workers s ! i) \<and> th_todo (sy_workers s ! i) \<noteq> []")
  case False
  then show ?thesis by (auto simp: worker_event_def Let_def split: list.split prod.split)
next
  case True
  then obtain ph phs where todo: "th_todo (sy_workers s ! i) = ph # phs" by (auto simp: neq_Nil_conv)
  have "256 \<le> m_bufsize opt" using assms(2) by simp
  then obtain area where a: "ma_wf area" "buf_len area = m_bufsize opt"
    "sys_inv ok held kind window dq_ok queued area 2 (length es) s"
    using multicore_run [OF assms(1) _ assms(3-9)] by blast
  note link = xsk_setup.axioms(1) [OF assms(1)]
  let ?l = "(th_loop (sy_workers s ! i))\<lparr>lp_world := sy_world s\<rparr>"
  have v: "own_inv ok (\<lambda>w. held w + owned (others queued i (sy_workers s))) window dq_ok queued area
       ((loop_app ?l)\<lparr>a_pool := sy_pool s\<rparr>)" "books_ok kind queued area (length es) ?l"
    "phase_ok (length (lp_ports ?l)) ph"
    using xsk_link.worker_view [OF link a(3) conjunct1 [OF True] refl] todo by simp_all
  have "268 \<le> buf_len area" using a(2) assms(2) by simp
  from xsk_link.run_phase_returns [OF xsk_link.link_frame [OF link] v a(1) this, of "x_bc x"]
  show ?thesis using True todo by (auto simp: worker_event_def assms(10))
qed

theorem workers_return_witness:
  "\<exists>s0 names. multicore_main (ex_outside (stat_diff Release)) True ex_mt_opt [ex_yaml] (\<lambda>_. 0) 0
        (mt_world ex_rings) = Ret (s0, names)
     \<and> th_todo (sy_workers s0 ! 0) = [Take, First 0, First 1]
     \<and> (\<exists>s. sys_event (ex_outside (stat_diff Release)) (Worker 0) s0 = Ret s)"
proof -
  let ?x = "ex_outside (stat_diff Release)"
  obtain c bp where m: "multicore_main ?x True ex_mt_opt [ex_yaml] (\<lambda>_. 0) 0 (mt_world ex_rings)
     = Ret (start_threads ?x [spawn_worker list_deque (\<lambda>_. 0) (mt_world []) c] bp 0 (mt_world []),
            [''link1'', ''link1''])"
    using mt_main by blast
  let ?s0 = "start_threads ?x [spawn_worker list_deque (\<lambda>_. 0) (mt_world []) c] bp 0 (mt_world [])"
  have x: "xsk_setup (x_api ?x) k_ok k_held snd k_window k_staged (x_libc ?x) (x_dq ?x)
      (\<lambda>q. length q \<le> PENDING_LEN) (\<lambda>q. q)" "x_prof ?x = Release"
    using xsk_setup_quiet by (simp_all add: ex_outside_def)
  have o: "268 \<le> m_bufsize ex_mt_opt" "m_bufnum ex_mt_opt * m_bufsize ex_mt_opt < 2 ^ 64"
    "length ([] :: event list) * PENDING_LEN < 2 ^ 64" "sys_run ?x [] ?s0 = Ret ?s0"
    by (simp_all add: ex_mt_opt_def)
  have t: "th_todo (sy_workers ?s0 ! 0) = [Take, First 0, First 1]"
    by (simp add: start_threads_def spawn_worker_def)
  have "wakeup_if_required (x_api ?x) (x_libc ?x) t v \<noteq> Panic ExplicitPanic" for t v
    using quiet_wakeup by (simp add: ex_outside_def)
  with workers_return [OF x(1) o(1,2) mt_world_facts(1-3) m o(4,3) x(2), of 0] t
  have "\<exists>s. sys_event ?x (Worker 0) ?s0 = Ret s" by auto
  with m t show ?thesis by blast
qed

text \<open>
  Property C14. The same for \<open>rxdrop\<close>, whose workers share the area and the pool: under every schedule
  the buffers of all threads are disjoint, every frame is in exactly one place, and each worker has
  filled again, or still owes, exactly what it received.
\<close>

theorem rxdrop_correct:
  assumes "xsk_setup (x_api x) ok held kind window staged (x_libc x) (x_dq x) dq_ok queued"
    and "256 \<le> m_bufsize opt" and "m_bufnum opt * m_bufsize opt < 2 ^ 64"
    and "ok w" and "held w = {#}" and "\<forall>r. snd (window r w) = 0"
    and "rxdrop_main x rlimit_ok opt ys m k w = Ret (s0, names)"
    and "sys_run x es s0 = Ret s" and "length es * PENDING_LEN < 2 ^ 64"
  shows "\<exists>area. ma_wf area \<and> buf_num area = m_bufnum opt \<and> buf_len area = m_bufsize opt
     \<and> owned (sys_bufs queued s) + held (sy_world s) = mset (frame_addrs area)
     \<and> apart (sys_bufs queued s) \<and> length (sy_workers s) = length ys
     \<and> (\<forall>t \<in> set (sy_workers s). let l = th_loop t in
          rx_packets (lp_stats l ! 0) = fq_bufs (lp_stats l ! 0) + fq_deficit (lp_ports l ! 0))"
proof -
  obtain area bp w1 configs w2 where f: "fill_pool (x_libc x) (x_prof x) (x_bc x) opt w = Ret ((area, bp), w1)"
    and mk: "make_workers (make_drop (x_api x) (x_libc x) (x_prof x) opt area) ys w1
        = Ret ((configs, names), w2)"
    and s0: "s0 = start_threads x (map (spawn_drop (x_dq x) m w2) configs) bp k w2"
    using assms(7) by (auto simp: rxdrop_main_def bnd_Ret_iff split: if_split_asm)
  note m = xsk_setup.all_drops_keep [OF assms(1) mk xsk_setup.fill_pool_ok [OF assms(1,4) f assms(3)]]
  have "\<forall>t \<in> set (map (spawn_drop (x_dq x) m w2) configs). worker_ok kind dq_ok queued area 1 0 t
      \<and> worker_bufs queued t = []"
    using m xsk_setup.spawn_drop_ok [OF assms(1)] by auto
  from sys_run_start [OF assms(1-6) f conjunct1 [OF m] this assms(8) [unfolded s0] assms(9)]
  have a: "ma_wf area" "buf_num area = m_bufnum opt" "buf_len area = m_bufsize opt"
    "sys_inv ok held kind window dq_ok queued area 1 (length es) s" "length (sy_workers s) = length ys"
    using m by simp_all
  have "let l = th_loop t in
          rx_packets (lp_stats l ! 0) = fq_bufs (lp_stats l ! 0) + fq_deficit (lp_ports l ! 0)"
    if "t \<in> set (sy_workers s)" for t
  proof -
    have "worker_ok kind dq_ok queued area 1 (length es) t" using a(4) that(1) by (simp add: sys_inv_def)
    then have "deficit_ok (th_loop t)" "length (lp_ports (th_loop t)) = 1"
      by (simp_all add: worker_ok_def books_ok_def)
    then show ?thesis by (simp add: deficit_ok_def)
  qed
  with xsk_link.sys_inv_safe [OF xsk_setup.axioms(1) [OF assms(1)] a(4,1)] a(1-3,5) show ?thesis by blast
qed

definition ex_yaml_drop :: yaml_drop where
  "ex_yaml_drop = \<lparr>yd_core = 1, yd_link_name = ''link1'', yd_link_channel = 0\<rparr>"

abbreviation "ex_drop_rings \<equiv> [(False, Completion), (False, Fill), (False, Rx), (False, Tx)]"

abbreviation "ex_drop_diff \<equiv> (\<lambda>now self b. bnd (rxdrop_diff Release now self b) (\<lambda>d. Ret [d]))"

lemma mt_drop_main:
  "\<exists>p bp. rxdrop_main (ex_outside diff) True ex_mt_opt [ex_yaml_drop] m k (mt_world ex_drop_rings)
     = Ret (start_threads (ex_outside diff) [spawn_drop list_deque m (mt_world []) (1, p)] bp k (mt_world []),
            [''link1''])
   \<and> length (pool_items bp) = 4096 \<and> (\<exists>u. p_fq p = \<lparr>fq_umem = u, fq_ring = (False, Fill)\<rparr>)"
proof -
  obtain bp where f: "fill_pool quiet_libc Release () ex_mt_opt (mt_world ex_drop_rings)
      = Ret ((big_area, bp), mt_world ex_drop_rings)" "length (pool_items bp) = 4096"
    using mt_fill_pool by blast
  have sz: "buf_num big_area * buf_len big_area < 2 ^ 64" by (simp add: big_area_def)
  note u = ref_umem_new [OF pow_RING_SIZE pow_RING_SIZE mt_world_facts(5) sz refl, unfolded mt_world_facts(6)]
  note s = ref_socket_new [OF pow_RING_SIZE pow_RING_SIZE mt_world_facts(5) refl, unfolded mt_world_facts(6)]
  show ?thesis
    using f by (fastforce simp: rxdrop_main_def make_drop_def ex_outside_def ex_yaml_drop_def u s)
qed

theorem rxdrop_correct_witness:
  "\<exists>s0 names s. rxdrop_main (ex_outside ex_drop_diff) True ex_mt_opt [ex_yaml_drop] (\<lambda>_. 0) 0
        (mt_world ex_drop_rings) = Ret (s0, names)
     \<and> sys_run (ex_outside ex_drop_diff) (replicate 2 (Worker 0)) s0 = Ret s
     \<and> length (sy_workers s) = 1 \<and> apart (sys_bufs (\<lambda>q. q) s)"
proof -
  let ?x = "ex_outside ex_drop_diff"
  obtain p bp u where m: "rxdrop_main ?x True ex_mt_opt [ex_yaml_drop] (\<lambda>_. 0) 0 (mt_world ex_drop_rings)
     = Ret (start_threads ?x [spawn_drop list_deque (\<lambda>_. 0) (mt_world []) (1, p)] bp 0 (mt_world []), [''link1''])"
    "length (pool_items bp) = 4096" "p_fq p = \<lparr>fq_umem = u, fq_ring = (False, Fill)\<rparr>"
    using mt_drop_main by blast
  let ?t = "spawn_drop list_deque (\<lambda>_. 0) (mt_world []) (1, p)"
  let ?s0 = "start_threads ?x [?t] bp 0 (mt_world [])"
  obtain bp' v where t: "bpv_get Release bp (vec_with_capacity START_BUFS) START_BUFS = Ret (4096, bp', v)"
    "length (items v) = 4096"
    using mt_take [OF m(2)] by (auto simp: START_BUFS_def)
  obtain v1 w1 where f1: "initial_fill ref_api Release (p_fq p) v (unat RING_SIZE) (mt_world []) = Ret (v1, w1)"
    using mt_first_fill [of "mt_world []" False v u] t(2) m(3) mt_world_facts(4) by auto
  obtain l bp2 where "run_phases ref_api quiet_libc Release list_deque () [Take, First 0] (th_loop ?t, bp)
      = Ret (l, bp2)"
    using t(1) f1 by (simp add: spawn_drop_def fresh_loop_def)
  then have r: "sys_run ?x (replicate (length [Take, First 0]) (Worker 0)) ?s0
      = Ret (?s0\<lparr>sy_workers := [?t\<lparr>th_todo := [], th_loop := l\<rparr>], sy_pool := bp2, sy_world := lp_world l\<rparr>)"
    using worker_alone [of 0 ?s0 ?t "[Take, First 0]" "[]" ?x l bp2]
    by (simp add: ex_outside_def start_threads_def spawn_drop_def fresh_loop_def)
  have l: "length [Take, First 0] = 2" by simp
  have x: "xsk_setup (x_api ?x) k_ok k_held snd k_window k_staged (x_libc ?x) (x_dq ?x)
      (\<lambda>q. length q \<le> PENDING_LEN) (\<lambda>q. q)"
    using xsk_setup_quiet by (simp add: ex_outside_def)
  have o: "256 \<le> m_bufsize ex_mt_opt" "m_bufnum ex_mt_opt * m_bufsize ex_mt_opt < 2 ^ 64"
    "length (replicate 2 (Worker 0)) * PENDING_LEN < 2 ^ 64"
    by (simp_all add: ex_mt_opt_def PENDING_LEN_def)
  from rxdrop_correct [OF x o(1,2) mt_world_facts(1-3) m(1) r [unfolded l] o(3)] m(1) r [unfolded l]
  show ?thesis by fastforce
qed

section \<open>The clean-up\<close>

lemma remdups_adj_sort: "remdups_adj (sort xs) = sorted_list_of_set (set xs)"
proof (rule sorted_distinct_set_unique)
  have "distinct (remdups_adj ys)" if "sorted ys" for ys :: "'a list"
    using that by (induction ys rule: remdups_adj.induct) (auto simp: order.antisym)
  then show "distinct (remdups_adj (sort xs))" by simp
qed simp_all

abbreviation detach :: "(string \<Rightarrow> 'w \<Rightarrow> u32) \<Rightarrow> (c_int \<Rightarrow> c_int \<Rightarrow> u32 \<Rightarrow> 'w \<Rightarrow> 'w) \<Rightarrow> string \<Rightarrow> 'w \<Rightarrow> 'w" where
  "detach if_nametoindex set_link_xdp_fd n w \<equiv>
     if 0 < if_nametoindex n w then set_link_xdp_fd (sint (if_nametoindex n w)) (-1) 0 w else w"

lemma remove_each_fold:
  "(\<forall>n \<in> set ns. CHR 0x00 \<notin> set n) \<Longrightarrow>
   remove_each if_nametoindex set_link_xdp_fd ns w = Ret (fold (detach if_nametoindex set_link_xdp_fd) ns w)"
  by (induction ns arbitrary: w) (simp_all add: remove_link_def cstring_new_def Let_def)

lemma socket_new_name:
  "expect (socket_new api libc um ifn q rsz tsz options w) = Ret (y, w') \<Longrightarrow> CHR 0x00 \<notin> set ifn"
  unfolding expect_Ret by (auto simp: socket_new_def cstring_new_def Let_def bnd_Ret_iff case_prod_beta split: if_split_asm)

lemma make_worker_names:
  "make_worker api libc prof opt area y w = Ret ((a, ns), w') \<Longrightarrow> ns = [yw_link1_name y, yw_link2_name y]
   \<and> CHR 0x00 \<notin> set (yw_link1_name y) \<and> CHR 0x00 \<notin> set (yw_link2_name y)"
  by (auto simp: make_worker_def bnd_Ret_iff dest: socket_new_name)

lemma make_workers_names:
  assumes "make_workers (make_worker api libc prof opt area) ys w = Ret ((as, ns), w')"
  shows "set ns = (\<Union>y \<in> set ys. {yw_link1_name y, yw_link2_name y}) \<and> (\<forall>n \<in> set ns. CHR 0x00 \<notin> set n)"
  using assms
proof (induction ys arbitrary: w as ns)
  case (Cons y ys)
  from Cons.prems obtain a n1 w1 bs n2 where m: "make_worker api libc prof opt area y w = Ret ((a, n1), w1)"
    "make_workers (make_worker api libc prof opt area) ys w1 = Ret ((bs, n2), w')" "ns = n1 @ n2"
    by (auto simp: bnd_Ret_iff)
  note make_worker_names [OF m(1)]
  with Cons.IH [OF m(2)] m(3) show ?case by auto
qed simp

text \<open>
  Property C25. The clean-up at the end of \<open>main\<close> cannot fail, and it detaches the XDP program of every
  link of the configuration that still exists exactly once, however many workers share the link.
\<close>

theorem multicore_cleanup:
  assumes "multicore_main x rlimit_ok opt ys m k w = Ret (s0, names)"
  shows "remove_links if_nametoindex set_link_xdp_fd names v
    = Ret (fold (detach if_nametoindex set_link_xdp_fd)
        (sorted_list_of_set (\<Union>y \<in> set ys. {yw_link1_name y, yw_link2_name y})) v)"
proof -
  obtain area w1 configs w2 where "make_workers (make_worker (x_api x) (x_libc x) (x_prof x) opt area) ys w1
      = Ret ((configs, names), w2)"
    using assms by (auto simp: multicore_main_def bnd_Ret_iff split: if_split_asm)
  note n = make_workers_names [OF this]
  have "\<forall>n \<in> set (sorted_list_of_set (set names)). CHR 0x00 \<notin> set n" using n by simp
  from remove_each_fold [OF this] show ?thesis
    using n by (simp add: remove_links_def remdups_adj_sort)
qed

theorem multicore_cleanup_witness:
  "\<exists>s0 names. multicore_main (ex_outside (stat_diff Release)) True ex_mt_opt [ex_yaml] (\<lambda>_. 0) 0
        (mt_world ex_rings) = Ret (s0, names)
     \<and> remove_links (\<lambda>n w. 7) (\<lambda>i fd fl w. w @ [(i, fd)]) names [] = Ret [(7, -1)]"
proof -
  obtain s0 names where m: "multicore_main (ex_outside (stat_diff Release)) True ex_mt_opt [ex_yaml] (\<lambda>_. 0) 0
      (mt_world ex_rings) = Ret (s0, names)"
    using mt_main by blast
  from multicore_cleanup [OF m, of "\<lambda>n w. 7" "\<lambda>i fd fl w. w @ [(i, fd)]" "[]"] m show ?thesis
    by (simp add: ex_yaml_def)
qed

end
