(* ===== verification/Reports.thy ===== *)
theory Reports
  imports Setup
begin

text \<open>
  The rest of the loop of \<open>examples/l2fwd-1link.rs\<close>: once a second it sends its counters to the printing
  thread, and after 302 reports it ends. The clock is a list of readings in nanoseconds, one per iteration;
  the channel to the printing thread is the list of what was sent.
\<close>

record l1_timer =
  tm_last :: nat
  tm_ticks :: usize
  tm_sent :: "stats list"

text \<open>The head of an iteration. False: the loop ends.\<close>

definition l1_tick :: "profile \<Rightarrow> nat \<Rightarrow> stats \<Rightarrow> l1_timer \<Rightarrow> (bool \<times> l1_timer) outcome" where
  "l1_tick prof now st tm =
     (if 10 ^ 9 < now - tm_last tm then
        let tm = tm\<lparr>tm_sent := tm_sent tm @ [st]\<rparr> in
        if 300 < tm_ticks tm then Ret (False, tm)
        else bnd (usize_add prof (tm_ticks tm) 1) (\<lambda>k. Ret (True, tm\<lparr>tm_ticks := k, tm_last := now\<rparr>))
      else Ret (True, tm))"

definition l1_iter :: "('r, 'w) xsk_api \<Rightarrow> 'w libc_api \<Rightarrow> profile \<Rightarrow> ('u buf_mmap, 'q) deque_api
    \<Rightarrow> 'u \<Rightarrow> usize \<Rightarrow> nat \<Rightarrow> l1_timer \<times> ('r, 'u, 'q, 'w) loop
    \<Rightarrow> (bool \<times> l1_timer \<times> ('r, 'u, 'q, 'w) loop) outcome" where
  "l1_iter api libc prof dq custom batch now = (\<lambda>(tm, s).
     bnd (l1_tick prof now (lp_stats s ! 0) tm) (\<lambda>(go, tm).
       if go then bnd (l1_body api libc prof dq custom batch s) (\<lambda>s. Ret (True, tm, s))
       else Ret (False, tm, s)))"

text \<open>The loop on the readings it makes; True: it is still running after the last one.\<close>

primrec l1_loop :: "('r, 'w) xsk_api \<Rightarrow> 'w libc_api \<Rightarrow> profile \<Rightarrow> ('u buf_mmap, 'q) deque_api
    \<Rightarrow> 'u \<Rightarrow> usize \<Rightarrow> nat list \<Rightarrow> l1_timer \<times> ('r, 'u, 'q, 'w) loop
    \<Rightarrow> (bool \<times> l1_timer \<times> ('r, 'u, 'q, 'w) loop) outcome" where
  "l1_loop api libc prof dq custom batch [] x = Ret (True, x)"
| "l1_loop api libc prof dq custom batch (now # nows) x =
     bnd (l1_iter api libc prof dq custom batch now x) (\<lambda>(go, x).
       if go then l1_loop api libc prof dq custom batch nows x else Ret (False, x))"

section \<open>The loop ends\<close>

text \<open>
  \<open>cur\<close> is the last reading, \<open>t0\<close> the reading before the loop. Between two reports pass at most two
  seconds if no iteration takes more than one.
\<close>

definition timer_ok :: "nat \<Rightarrow> nat \<Rightarrow> l1_timer \<Rightarrow> bool" where
  "timer_ok t0 cur tm \<longleftrightarrow> length (tm_sent tm) = tm_ticks tm \<and> tm_ticks tm \<le> 301
     \<and> tm_last tm \<le> t0 + 2 * 10 ^ 9 * tm_ticks tm \<and> tm_last tm \<le> cur \<and> cur \<le> tm_last tm + 10 ^ 9"

lemma l1_tick_cases:
  assumes "timer_ok t0 cur tm" and "cur \<le> now" and "now \<le> cur + 10 ^ 9"
  shows "(\<exists>tm'. l1_tick prof now st tm = Ret (True, tm') \<and> timer_ok t0 now tm')
    \<or> (\<exists>tm'. l1_tick prof now st tm = Ret (False, tm') \<and> length (tm_sent tm') = 302)"
proof (cases "10 ^ 9 < now - tm_last tm")
  case False
  with assms show ?thesis by (simp add: l1_tick_def timer_ok_def)
next
  case due: True
  show ?thesis
  proof (cases "300 < tm_ticks tm")
    case True
    with due assms(1) show ?thesis by (simp add: l1_tick_def timer_ok_def)
  next
    case False
    then have "usize_add prof (tm_ticks tm) 1 = Ret (tm_ticks tm + 1)" by (intro usize_add_ok) simp
    with due False assms show ?thesis by (auto simp: l1_tick_def timer_ok_def)
  qed
qed

context xsk_setup
begin

lemma l1_loop_outcome:
  assumes "run_inv ok held kind window dq_ok queued area (\<lambda>p. p) 1 k s" and "timer_ok t0 cur tm"
    and "successively (\<lambda>a b. a \<le> b \<and> b \<le> a + 10 ^ 9) (cur # nows)"
    and "(k + length nows) * PENDING_LEN < 2 ^ 64" and wf: "ma_wf area" and len: "268 \<le> buf_len area"
    and batch: "batch < 2 ^ 64" and wake: "\<And>t v. wakeup_if_required api libc t v \<noteq> Panic ExplicitPanic"
  shows "\<exists>go tm' s'. l1_loop api libc Release dq dflt batch nows (tm, s) = Ret (go, tm', s')
     \<and> (if go then timer_ok t0 (last (cur # nows)) tm' else length (tm_sent tm') = 302)"
  using assms(1-4)
proof (induction nows arbitrary: k s cur tm)
  case (Cons now nows)
  have room: "Suc k * PENDING_LEN < 2 ^ 64"
    using Suc_k_room [of k "k + length (now # nows)"] Cons.prems(4) by simp
  have "cur \<le> now" "now \<le> cur + 10 ^ 9" using Cons.prems(3) by simp_all
  from l1_tick_cases [OF Cons.prems(2) this, of Release "lp_stats s ! 0"] show ?case
  proof (elim disjE exE conjE)
    fix tm' assume t: "l1_tick Release now (lp_stats s ! 0) tm = Ret (False, tm')" "length (tm_sent tm') = 302"
    then show ?thesis by (intro exI [of _ False]) (simp add: l1_iter_def)
  next
    fix tm' assume t: "l1_tick Release now (lp_stats s ! 0) tm = Ret (True, tm')" "timer_ok t0 now tm'"
    have "inj_on (\<lambda>p. p) {..<1 :: nat}" by simp
    from run_inv_outcome [where out = "\<lambda>p. p", OF Cons.prems(1) wf len _ this room batch disjI1 [OF refl]] wake
    obtain s' where s': "l1_body api libc Release dq dflt batch s = Ret s'"
      unfolding l1_body_phases by blast
    have ma: "256 \<le> buf_len area" using len by simp
    note inv = l1_run_step [OF Cons.prems(1) ma room batch s']
    have "\<exists>go tm1 s1. l1_loop api libc Release dq dflt batch nows (tm', s') = Ret (go, tm1, s1)
       \<and> (if go then timer_ok t0 (last (now # nows)) tm1 else length (tm_sent tm1) = 302)"
      by (rule Cons.IH [OF inv t(2)]) (use Cons.prems(3,4) in simp_all)
    then obtain go tm1 s1 where r: "l1_loop api libc Release dq dflt batch nows (tm', s') = Ret (go, tm1, s1)"
      "if go then timer_ok t0 (last (now # nows)) tm1 else length (tm_sent tm1) = 302" by blast
    have "l1_loop api libc Release dq dflt batch (now # nows) (tm, s) = Ret (go, tm1, s1)"
      using t(1) s' r(1) by (simp add: l1_iter_def)
    moreover have "last (cur # now # nows) = last (now # nows)" by simp
    ultimately show ?thesis using r(2) by metis
  qed
qed (rule exI [of _ True], simp)

end

text \<open>
  Property C12. \<open>l2fwd-1link\<close> stops by itself. In a release build with frames of at least 268 bytes, if no iteration takes more than a
  second and the kernel accepts every wake-up, the loop has ended once its clock has advanced by
  more than 603 seconds, after exactly 302 reports.
\<close>

theorem l1_program_stops:
  assumes "xsk_setup api ok held kind window staged libc dq dq_ok queued"
    and "268 \<le> o_bufsize opt" and "o_bufnum opt * o_bufsize opt < 2 ^ 64" and "o_batch_size opt < 2 ^ 64"
    and "ok w" and "held w = {#}" and "\<forall>r. snd (window r w) = 0"
    and "l1_setup api libc Release dq dflt rlimit_ok cons_descs prod_descs opt m w = Ret s0"
    and "\<forall>t v. wakeup_if_required api libc t v \<noteq> Panic ExplicitPanic"
    and "successively (\<lambda>a b. a \<le> b \<and> b \<le> a + 10 ^ 9) (t0 # nows)"
    and "length nows * PENDING_LEN < 2 ^ 64" and "t0 + 603 * 10 ^ 9 < last (t0 # nows)"
  shows "\<exists>tm s. l1_loop api libc Release dq dflt (o_batch_size opt) nows
        (\<lparr>tm_last = t0, tm_ticks = 0, tm_sent = []\<rparr>, s0) = Ret (False, tm, s) \<and> length (tm_sent tm) = 302"
proof -
  have "256 \<le> o_bufsize opt" using assms(2) by simp
  then obtain area where a: "ma_wf area" "buf_len area = o_bufsize opt"
    "run_inv ok held kind window dq_ok queued area (\<lambda>p. p) 1 0 s0"
    using xsk_setup.l1_run_start [OF assms(1,8) _ assms(3,5-7)] by blast
  let ?tm = "\<lparr>tm_last = t0, tm_ticks = 0, tm_sent = []\<rparr>"
  have "timer_ok t0 t0 ?tm" by (simp add: timer_ok_def)
  from xsk_setup.l1_loop_outcome [OF assms(1) a(3) this assms(10) _ a(1) _ assms(4)] assms(2,9,11) a(2)
  obtain go tm s where r: "l1_loop api libc Release dq dflt (o_batch_size opt) nows (?tm, s0) = Ret (go, tm, s)"
    "if go then timer_ok t0 (last (t0 # nows)) tm else length (tm_sent tm) = 302"
    by fastforce
  have "\<not> timer_ok t0 (last (t0 # nows)) tm"
  proof
    assume t: "timer_ok t0 (last (t0 # nows)) tm"
    have "last (t0 # nows) \<le> tm_last tm + 10 ^ 9" using t unfolding timer_ok_def by blast
    also have "\<dots> \<le> t0 + 2 * 10 ^ 9 * tm_ticks tm + 10 ^ 9" using t unfolding timer_ok_def by simp
    also have "\<dots> \<le> t0 + 603 * 10 ^ 9" using t unfolding timer_ok_def by simp
    finally show False using assms(12) by simp
  qed
  then have "go = False" "length (tm_sent tm) = 302" using r(2) by metis+
  then show ?thesis using r(1) by blast
qed

lemma ex_clock:
  assumes "1 < n"
  shows "successively (\<lambda>a b. a \<le> b \<and> b \<le> a + 10 ^ 9) (0 # map (\<lambda>i. i * 10 ^ 9) [1..<n])"
    and "length (map (\<lambda>i. i * 10 ^ 9) [1..<n]) = n - 1"
    and "last (0 # map (\<lambda>i. i * 10 ^ 9) [1..<n]) = (n - 1) * 10 ^ 9"
proof -
  have e: "0 # map (\<lambda>i. i * 10 ^ 9) [1..<n] = map (\<lambda>i. i * 10 ^ 9) [0..<n]"
    using assms by (simp add: upt_conv_Cons)
  show "successively (\<lambda>a b. a \<le> b \<and> b \<le> a + 10 ^ 9) (0 # map (\<lambda>i. i * 10 ^ 9) [1..<n])"
    unfolding e by (simp add: successively_conv_nth)
  show "last (0 # map (\<lambda>i. i * 10 ^ 9) [1..<n]) = (n - 1) * 10 ^ 9"
    unfolding e using assms by (simp add: last_map)
qed simp

theorem l1_program_stops_witness:
  "\<exists>s0 tm s. ex_l1_setup = Ret s0
     \<and> l1_loop ref_api quiet_libc Release list_deque () 2 (map (\<lambda>i. i * 10 ^ 9) [1..<605])
         (\<lparr>tm_last = 0, tm_ticks = 0, tm_sent = []\<rparr>, s0) = Ret (False, tm, s) \<and> length (tm_sent tm) = 302"
proof -
  obtain s0 where s0: "ex_l1_setup = Ret s0" using ex_l1_setup_returns by blast
  let ?nows = "map (\<lambda>i. i * 10 ^ 9) [1..<605 :: nat]"
  have o: "268 \<le> o_bufsize ex_l1_opt" "o_bufnum ex_l1_opt * o_bufsize ex_l1_opt < 2 ^ 64"
    "o_batch_size ex_l1_opt < 2 ^ 64" "o_batch_size ex_l1_opt = 2"
    by (simp_all add: ex_l1_opt_def)
  have n: "(1 :: nat) < 605" by simp
  have c: "length ?nows * PENDING_LEN < 2 ^ 64" "0 + 603 * 10 ^ 9 < last (0 # ?nows)"
    unfolding ex_clock(2,3) [OF n] by (simp_all add: PENDING_LEN_def)
  from l1_program_stops [OF xsk_setup_quiet o(1-3) ex_boot_facts(1-3) s0 _ ex_clock(1) [OF n] c] quiet_wakeup
  show ?thesis using s0 unfolding o(4) by blast
qed

end
