(* ===== verification/Byte_Order.thy ===== *)
theory Byte_Order
  imports Buffers
begin

text \<open>
  Integers in packets: the conversions of the standard library between an integer and its bytes, in
  the byte order of the machine, and stores of single bytes into a buffer. The test code of the
  repository uses them.
\<close>

text \<open>\<open>buf.data[j] = x\<close> for consecutive indices.\<close>

fun store_bytes :: "slice \<Rightarrow> usize \<Rightarrow> u8 list \<Rightarrow> memory \<Rightarrow> memory outcome" where
  "store_bytes s j [] m = Ret m"
| "store_bytes s j (x # xs) m = bnd (slice_store m s j [x]) (store_bytes s (Suc j) xs)"

text \<open>\<open>to_ne_bytes\<close> and \<open>from_ne_bytes\<close> of the standard library; \<open>be\<close> is the byte order of the machine.\<close>

primrec le_bytes :: "nat \<Rightarrow> u64 \<Rightarrow> u8 list" where
  "le_bytes 0 x = []"
| "le_bytes (Suc n) x = ucast x # le_bytes n (drop_bit 8 x)"

primrec le_value :: "u8 list \<Rightarrow> u64" where
  "le_value [] = 0"
| "le_value (b # bs) = or (ucast b) (push_bit 8 (le_value bs))"

definition to_ne_bytes :: "bool \<Rightarrow> u64 \<Rightarrow> u8 list" where
  "to_ne_bytes be x = (if be then rev (le_bytes 8 x) else le_bytes 8 x)"

definition from_ne_bytes :: "bool \<Rightarrow> u8 list \<Rightarrow> u64" where
  "from_ne_bytes be bs = le_value (if be then rev bs else bs)"

lemma le_bytes_value: "le_value (le_bytes n x) = take_bit (8 * n) x"
proof (induction n arbitrary: x)
  case (Suc n)
  show ?case
    by (rule bit_eqI) (auto simp: Suc bit_simps)
qed simp

lemma length_le_bytes [simp]: "length (le_bytes n x) = n"
  by (induction n arbitrary: x) simp_all

lemma ne_bytes_value: "from_ne_bytes be (to_ne_bytes be x) = x" "length (to_ne_bytes be x) = 8"
  using le_bytes_value [of 8 x] by (simp_all add: from_ne_bytes_def to_ne_bytes_def take_bit_word_eq_self)

lemma store_bytes_slice:
  assumes "j + length xs \<le> sl_len s"
  shows "store_bytes s j xs m = slice_store m s j xs"
  using assms
proof (induction xs arbitrary: j m)
  case (Cons x xs)
  obtain m' where m': "slice_store m s j [x] = Ret m'" using Cons.prems by (simp add: slice_store_def)
  have "slice_store m s j (x # xs) = slice_store m' s (Suc j) xs"
    using m' by (auto simp: slice_store_def algebra_simps split: if_split_asm)
  then show ?case using Cons m' by simp
qed (simp add: slice_store_def)

end
