(* ===== verification/Unit_Tests.thy ===== *)
theory Unit_Tests
  imports Setup Byte_Order
begin

text \<open>
  The unit tests of the crate (the modules \<open>tests\<close> of \<open>src/util.rs\<close>, \<open>src/buf_pool_vec.rs\<close>,
  \<open>src/mmap_area.rs\<close>, \<open>src/umem.rs\<close> and \<open>src/socket.rs\<close>), as programs over the model: a test returns
  or panics. A run of a test checks it for one kernel and one build; here they are shown to pass in
  both build profiles, for both byte orders, and for every kernel that does what each test expects of
  it. Values that go out of scope are dropped at the end.
\<close>

section \<open>Helpers\<close>

definition assert_that :: "bool \<Rightarrow> 'a outcome \<Rightarrow> 'a outcome" where
  "assert_that c k = (if c then k else Panic ExplicitPanic)"

text \<open>The head of the tests: an area of \<open>num\<close> buffers of 2048 bytes. The tail: its drop.\<close>

definition test_area :: "'w libc_api \<Rightarrow> profile \<Rightarrow> usize \<Rightarrow> 'w
    \<Rightarrow> ((mmap_area \<times> unit buf_mmap vec) \<times> 'w) outcome" where
  "test_area libc prof num w = expect (mmap_area_new libc prof () num 2048 \<lparr>huge_tlb = False\<rparr> w)"

definition drop_area :: "'w libc_api \<Rightarrow> profile \<Rightarrow> mmap_area \<Rightarrow> 'w \<Rightarrow> 'w outcome" where
  "drop_area libc prof area w = bnd (mmap_area_drop libc prof area w) (\<lambda>(_, w). Ret w)"

text \<open>\<open>for (i, buf) in bufs.iter_mut().enumerate()\<close>, with a body that writes and one that reads.\<close>

fun write_each :: "(usize \<Rightarrow> slice \<Rightarrow> memory \<Rightarrow> memory outcome) \<Rightarrow> usize \<Rightarrow> 'u buf_mmap list \<Rightarrow> memory
    \<Rightarrow> memory outcome" where
  "write_each f i [] m = Ret m"
| "write_each f i (b # bs) m = bnd (f i (bm_data b) m) (write_each f (Suc i) bs)"

fun read_each :: "(usize \<Rightarrow> slice \<Rightarrow> bool outcome) \<Rightarrow> usize \<Rightarrow> 'u buf_mmap list \<Rightarrow> 'a outcome
    \<Rightarrow> 'a outcome" where
  "read_each f i [] k = k"
| "read_each f i (b # bs) k =
     bnd (f i (bm_data b)) (\<lambda>c. assert_that c (read_each f (Suc i) bs k))"

section \<open>The tests of \<open>src/util.rs\<close> and \<open>src/buf_pool_vec.rs\<close>\<close>

definition test_powers_of_two :: "unit outcome" where
  "test_powers_of_two =
     assert_that (is_pow_of_two 0 = False) (
     assert_that (is_pow_of_two 1 = True) (
     assert_that (is_pow_of_two 2 = True) (
     assert_that (is_pow_of_two 3 = False) (
     assert_that (is_pow_of_two 4 = True) (
     assert_that (is_pow_of_two 8 = True) (
     assert_that (is_pow_of_two 15 = False) (
     assert_that (is_pow_of_two 16 = True) (
     assert_that (is_pow_of_two 20 = False) (Ret ())))))))))"

definition buf_pool_vec_put1 :: "profile \<Rightarrow> unit outcome" where
  "buf_pool_vec_put1 prof =
     (let bs = foldl vec_push (vec_with_capacity 97) (replicate 97 (bv_new 97 ()));
          bufpool = bpv_new (length (items bs)) in
      bnd (bpv_put prof bufpool bs (length (items bs))) (\<lambda>(r, bufpool, bs).
      assert_that (r = 97) (
      assert_that (bpv_len bufpool = 97) (
      bnd (bpv_get prof bufpool bs 97) (\<lambda>(r, bufpool, bs).
      assert_that (r = 97) (
      assert_that (bpv_len bufpool = 0) (
      assert_that (length (items bs) = 97) (Ret ()))))))))"

section \<open>The tests of \<open>src/mmap_area.rs\<close>\<close>

definition bufs_to_pool :: "'w libc_api \<Rightarrow> profile \<Rightarrow> memory \<Rightarrow> 'w \<Rightarrow> 'w outcome" where
  "bufs_to_pool libc prof m w =
     bnd (test_area libc prof 1024 w) (\<lambda>((area, bs), w).
     assert_that (buf_num area = 1024) (
     assert_that (buf_len area = 2048) (
     assert_that (length (items bs) = 1024) (
     assert_that (list_all (\<lambda>b. length (bm_get_data m b) = 2048 - unat AF_XDP_RESERVED) (items bs)) (
       drop_area libc prof area w)))))"

definition value_base :: u64 where
  "value_base = 3983989832773837873"

definition write_value :: "profile \<Rightarrow> bool \<Rightarrow> usize \<Rightarrow> slice \<Rightarrow> memory \<Rightarrow> memory outcome" where
  "write_value prof be i data m =
     bnd (u64_add prof (of_nat i) value_base) (\<lambda>val. store_bytes data 0 (to_ne_bytes be val) m)"

definition check_value :: "profile \<Rightarrow> bool \<Rightarrow> memory \<Rightarrow> usize \<Rightarrow> slice \<Rightarrow> bool outcome" where
  "check_value prof be m i data =
     bnd (u64_add prof (of_nat i) value_base) (\<lambda>val.
     bnd (slice_range m data 0 8) (\<lambda>int_bytes. Ret (val = from_ne_bytes be int_bytes)))"

definition buf_values :: "'w libc_api \<Rightarrow> profile \<Rightarrow> bool \<Rightarrow> memory \<Rightarrow> 'w \<Rightarrow> 'w outcome" where
  "buf_values libc prof be m w =
     bnd (test_area libc prof 1024 w) (\<lambda>((area, bs), w).
     assert_that (buf_num area = 1024) (
     assert_that (buf_len area = 2048) (
     assert_that (length (items bs) = 1024) (
     bnd (write_each (write_value prof be) 0 (items bs) m) (\<lambda>m.
     read_each (check_value prof be m) 0 (items bs) (
       drop_area libc prof area w))))))"

definition write_number :: "usize \<Rightarrow> slice \<Rightarrow> memory \<Rightarrow> memory outcome" where
  "write_number i data = store_bytes data 0 (replicate (2048 - unat AF_XDP_RESERVED) (of_nat i))"

definition check_number :: "memory \<Rightarrow> usize \<Rightarrow> slice \<Rightarrow> bool outcome" where
  "check_number m i data =
     bnd (slice_range m data 0 (2048 - unat AF_XDP_RESERVED)) (\<lambda>bytes.
       Ret (list_all (\<lambda>x. x = of_nat i) bytes))"

definition buf_values2 :: "'w libc_api \<Rightarrow> profile \<Rightarrow> memory \<Rightarrow> 'w \<Rightarrow> 'w outcome" where
  "buf_values2 libc prof m w =
     bnd (test_area libc prof 256 w) (\<lambda>((area, bs), w).
     assert_that (buf_num area = 256) (
     assert_that (buf_len area = 2048) (
     assert_that (length (items bs) = 256) (
     bnd (write_each write_number 0 (items bs) m) (\<lambda>m.
     read_each (check_number m) 0 (items bs) (
       drop_area libc prof area w))))))"

section \<open>The tests of \<open>src/umem.rs\<close>\<close>

text \<open>What the first three tests have in common; the failed \<open>Umem::new\<close> drops the area it was given.\<close>

definition umem_ring_size :: "('r, 'w) xsk_api \<Rightarrow> 'w libc_api \<Rightarrow> profile \<Rightarrow> u32 \<Rightarrow> u32 \<Rightarrow> 'w
    \<Rightarrow> 'w outcome" where
  "umem_ring_size api libc prof csz fsz w =
     bnd (test_area libc prof 1024 w) (\<lambda>((area, _), w).
     bnd (umem_new api libc prof area csz fsz w) (\<lambda>(r, w).
       case r of
         Err UmemRingNotPowerOfTwo \<Rightarrow> drop_area libc prof area w
       | Err (UmemCreate _) \<Rightarrow> Panic ExplicitPanic
       | Ok _ \<Rightarrow> Panic ExplicitPanic))"

definition umem_ring_size1 :: "('r, 'w) xsk_api \<Rightarrow> 'w libc_api \<Rightarrow> profile \<Rightarrow> 'w \<Rightarrow> 'w outcome" where
  "umem_ring_size1 api libc prof w = umem_ring_size api libc prof 97 997 w"

definition umem_ring_size2 :: "('r, 'w) xsk_api \<Rightarrow> 'w libc_api \<Rightarrow> profile \<Rightarrow> 'w \<Rightarrow> 'w outcome" where
  "umem_ring_size2 api libc prof w = umem_ring_size api libc prof 100 1024 w"

definition umem_ring_size3 :: "('r, 'w) xsk_api \<Rightarrow> 'w libc_api \<Rightarrow> profile \<Rightarrow> 'w \<Rightarrow> 'w outcome" where
  "umem_ring_size3 api libc prof w = umem_ring_size api libc prof 1024 100 w"

definition umem_ring_size4 :: "('r, 'w) xsk_api \<Rightarrow> 'w libc_api \<Rightarrow> profile \<Rightarrow> bool \<Rightarrow> 'w
    \<Rightarrow> 'w outcome" where
  "umem_ring_size4 api libc prof rlimit_ok w =
     (if \<not> rlimit_ok then Ret w
      else
        bnd (test_area libc prof 1024 w) (\<lambda>((area, _), w).
        bnd (expect (umem_new api libc prof area 1024 1024 w)) (\<lambda>((um, _, _), w).
          drop_area libc prof (um_area um) (umem_drop api um w))))"

section \<open>The test of \<open>src/socket.rs\<close>\<close>

definition expect_socket_error :: "('r, 'w) xsk_api \<Rightarrow> 'w libc_api \<Rightarrow> umem \<Rightarrow> bool \<Rightarrow> u32 \<Rightarrow> u32 \<Rightarrow> 'w
    \<Rightarrow> 'w outcome" where
  "expect_socket_error api libc um not_pow rx_sz tx_sz w =
     bnd (socket_new api libc um ''link1'' 1 rx_sz tx_sz socket_options_default w) (\<lambda>(r, w).
       case r of
         Err e \<Rightarrow> if (e = SocketRingNotPowerOfTwo) = not_pow then Ret w else Panic ExplicitPanic
       | Ok _ \<Rightarrow> Panic ExplicitPanic)"

definition socket_ring_size1 :: "('r, 'w) xsk_api \<Rightarrow> 'w libc_api \<Rightarrow> profile \<Rightarrow> bool \<Rightarrow> 'w
    \<Rightarrow> 'w outcome" where
  "socket_ring_size1 api libc prof rlimit_ok w =
     (if \<not> rlimit_ok then Ret w
      else
        bnd (test_area libc prof 1024 w) (\<lambda>((area, _), w).
        bnd (expect (umem_new api libc prof area 1024 1024 w)) (\<lambda>((um, _, _), w).
        bnd (expect_socket_error api libc um False 2048 2048 w) (\<lambda>w.
        bnd (expect_socket_error api libc um True 101 2048 w) (\<lambda>w.
        bnd (expect_socket_error api libc um True 2048 149 w) (\<lambda>w.
        bnd (expect_socket_error api libc um True 1999 149 w) (\<lambda>w.
          drop_area libc prof (um_area um) (umem_drop api um w))))))))"

section \<open>Writing every buffer and reading it back\<close>

text \<open>
  A loop that writes one content to the front of each of a list of disjoint buffers: every buffer
  then starts with its content, whatever was written to the others.
\<close>

lemma write_each_content:
  assumes "apart bs" and "\<forall>b \<in> set bs. slice_mapped (bm_data b)"
    and "\<forall>i < length bs. length (c (k + i)) \<le> sl_len (bm_data (bs ! i))
           \<and> (\<forall>m. f (k + i) (bm_data (bs ! i)) m = slice_store m (bm_data (bs ! i)) 0 (c (k + i)))"
  shows "\<exists>m'. write_each f k bs m = Ret m'
     \<and> (\<forall>i < length bs. take (length (c (k + i))) (slice_read m' (bm_data (bs ! i))) = c (k + i))
     \<and> (\<forall>t. slice_mapped t \<longrightarrow> (\<forall>b \<in> set bs. slice_addrs (bm_data b) \<inter> slice_addrs t = {}) \<longrightarrow>
            slice_read m' t = slice_read m t)"
  using assms
proof (induction bs arbitrary: k m)
  case (Cons b bs)
  have b: "slice_mapped (bm_data b)" "\<forall>d \<in> set bs. slice_addrs (bm_data b) \<inter> slice_addrs (bm_data d) = {}"
    using Cons.prems(1,2) by simp_all
  have c: "length (c k) \<le> sl_len (bm_data b)" "f k (bm_data b) m = slice_store m (bm_data b) 0 (c k)"
    using Cons.prems(3) by fastforce+
  then obtain m1 where m1: "slice_store m (bm_data b) 0 (c k) = Ret m1" by (simp add: slice_store_def)
  have "\<forall>i < length bs. length (c (Suc k + i)) \<le> sl_len (bm_data (bs ! i))
       \<and> (\<forall>m. f (Suc k + i) (bm_data (bs ! i)) m = slice_store m (bm_data (bs ! i)) 0 (c (Suc k + i)))"
    using Cons.prems(3) by fastforce
  then obtain m' where m': "write_each f (Suc k) bs m1 = Ret m'"
    "\<forall>i < length bs. take (length (c (Suc k + i))) (slice_read m' (bm_data (bs ! i))) = c (Suc k + i)"
    "\<forall>t. slice_mapped t \<longrightarrow> (\<forall>d \<in> set bs. slice_addrs (bm_data d) \<inter> slice_addrs t = {}) \<longrightarrow>
        slice_read m' t = slice_read m1 t"
    using Cons.IH [of "Suc k" m1] Cons.prems(1,2) by auto
  have "slice_read m' (bm_data b) = slice_read m1 (bm_data b)"
    using m'(3) b by (auto simp: Int_commute)
  then have "take (length (c k)) (slice_read m' (bm_data b)) = c k"
    using slice_store_read [OF m1 b(1)] by simp
  with m'(2) have "take (length (c (k + i))) (slice_read m' (bm_data ((b # bs) ! i))) = c (k + i)"
    if "i < length (b # bs)" for i
    using that by (cases i) auto
  moreover have "slice_read m' t = slice_read m t"
    if "slice_mapped t" "\<forall>d \<in> set (b # bs). slice_addrs (bm_data d) \<inter> slice_addrs t = {}" for t
    using m'(3) that slice_store_disjoint [OF m1 b(1) that(1)] by simp
  ultimately show ?case using m1 m'(1) c(2) by (intro exI [of _ m']) simp
qed simp

lemma read_each_True:
  "(\<And>i. i < length bs \<Longrightarrow> f (k + i) (bm_data (bs ! i)) = Ret True) \<Longrightarrow> read_each f k bs e = e"
proof (induction bs arbitrary: k)
  case (Cons b bs)
  have "f k (bm_data b) = Ret True" using Cons.prems [of 0] by simp
  moreover have "read_each f (Suc k) bs e = e"
    using Cons.prems [of "Suc _"] by (intro Cons.IH) simp
  ultimately show ?case by (simp add: assert_that_def)
qed simp

section \<open>What the tests need of the kernel\<close>

text \<open>
  The documented behaviour of \<open>mmap\<close>, of \<open>xsk_umem__create\<close> and of \<open>xsk_socket__create\<close> for the arguments
  the tests use: in a state with memory to spare (\<open>calm\<close>) an anonymous private mapping of 256 or 1024
  frames succeeds; a region that is mapped and not registered (\<open>mapped\<close>) stays so while rings are
  allocated and can be registered with these ring and frame sizes; a socket cannot be created on a link
  that does not exist.
\<close>

locale test_kernel = os_mmap libc for libc :: "'w libc_api" +
  fixes api :: "('r, 'w) xsk_api" and calm :: "'w \<Rightarrow> bool" and mapped :: "u64 \<Rightarrow> usize \<Rightarrow> 'w \<Rightarrow> bool"
  assumes maps: "calm w \<Longrightarrow> num = 256 \<or> num = 1024 \<Longrightarrow>
        mmap_call libc (num * 2048) \<lparr>huge_tlb = False\<rparr> w = (p, w') \<Longrightarrow>
        p \<noteq> MAP_FAILED libc \<and> mapped p (num * 2048) w'"
    and ring_mapped: "mapped p sz w \<Longrightarrow> new_ring api w = (r, w') \<Longrightarrow> mapped p sz w'"
    and registers: "mapped p sz w \<Longrightarrow> umem_create api p (of_nat sz) f c
          \<lparr>fill_size = 1024, comp_size = 1024, frame_size = 2048,
           frame_headroom = XSK_UMEM_DEFAULT_FRAME_HEADROOM api, umem_flags = 0\<rparr> w = (e, u, w') \<Longrightarrow> e = 0"
    and no_link1: "socket_create api ''link1'' q um rx tx cfg w = (e, so, w') \<Longrightarrow> e \<noteq> 0"

lemma frame_bufs_apart:
  assumes "ma_wf area"
  shows "apart (map (\<lambda>a. frame_buf area a 0 u) (frame_addrs area))"
  unfolding sorted_wrt_iff_nth_less
proof (intro allI impI)
  fix i j assume "i < j" "j < length (map (\<lambda>a. frame_buf area a 0 u) (frame_addrs area))"
  then have "frame_addrs area ! i \<noteq> frame_addrs area ! j" "i < length (frame_addrs area)"
    "j < length (frame_addrs area)"
    using distinct_frame_addrs [OF assms] by (auto simp: nth_eq_iff_index_eq)
  then show "slice_addrs (bm_data (map (\<lambda>a. frame_buf area a 0 u) (frame_addrs area) ! i))
      \<inter> slice_addrs (bm_data (map (\<lambda>a. frame_buf area a 0 u) (frame_addrs area) ! j)) = {}"
    using frame_slice_disjoint [OF assms nth_mem nth_mem] by simp
qed

lemma drop_area_returns:
  assumes "buf_num area \<le> 1024" and "buf_len area = 2048"
  shows "\<exists>w'. drop_area libc prof area w = Ret w'"
  using assms by (simp add: drop_area_def mmap_area_drop_def usize_mul_ok case_prod_beta Let_def)

section \<open>The tests pass\<close>

lemma pure_tests_pass:
  "test_powers_of_two = Ret ()" "buf_pool_vec_put1 prof = Ret ()"
proof -
  show "test_powers_of_two = Ret ()"
    by (simp add: test_powers_of_two_def assert_that_def is_pow_of_two_def)
  have "items (foldl vec_push v xs) = items v @ xs" for v and xs :: "unit buf_vec list"
    by (induction xs arbitrary: v) auto
  then show "buf_pool_vec_put1 prof = Ret ()"
    by (simp add: buf_pool_vec_put1_def Let_def bpv_put_eq bpv_get_eq bpv_new_def bpv_len_def
        assert_that_def)
qed

context test_kernel
begin

lemma test_area_result:
  assumes "calm w" and "num = 256 \<or> num = 1024"
  shows "\<exists>area bs w'. test_area libc prof num w = Ret ((area, bs), w') \<and> ma_wf area
     \<and> buf_num area = num \<and> buf_len area = 2048 \<and> length (items bs) = num
     \<and> (\<forall>b \<in> set (items bs). sl_len (bm_data b) = 1792 \<and> slice_mapped (bm_data b)) \<and> apart (items bs)
     \<and> mapped (ma_ptr area) (num * 2048) w'"
proof -
  have lt: "num * 2048 < 2 ^ 64" using assms(2) by auto
  obtain p w' where p: "mmap_call libc (num * 2048) \<lparr>huge_tlb = False\<rparr> w = (p, w')" by fastforce
  have "p \<noteq> MAP_FAILED libc" and mp: "mapped p (num * 2048) w'" using maps [OF assms p] by simp_all
  then obtain area and bs :: "unit buf_mmap vec" where
    new: "mmap_area_new libc prof () num 2048 \<lparr>huge_tlb = False\<rparr> w = Ret (Ok (area, bs), w')"
    and a: "area = \<lparr>buf_num = num, buf_len = 2048, ma_ptr = p\<rparr>" "ma_wf area"
    and bs: "items bs = map (\<lambda>a. frame_buf area a 0 ()) (frame_addrs area)"
    using mmap_area_new_result [OF os_mmap_axioms _ lt p, of prof "()"] by auto
  have "apart (items bs)" unfolding bs by (rule frame_bufs_apart [OF a(2)])
  moreover have "\<forall>b \<in> set (items bs). sl_len (bm_data b) = 1792 \<and> slice_mapped (bm_data b)"
    using frame_slice_mapped_addr [OF a(2)] by (auto simp: bs frame_slice_def a(1))
  moreover have "length (items bs) = num" by (simp add: bs a(1))
  ultimately show ?thesis using new a mp by (auto simp: test_area_def expect_Ret)
qed

lemma bufs_to_pool_passes:
  assumes "calm w"
  shows "\<exists>w'. bufs_to_pool libc prof m w = Ret w'"
proof -
  obtain area bs w1 where a: "test_area libc prof 1024 w = Ret ((area, bs), w1)"
    "buf_num area = 1024" "buf_len area = 2048" "length (items bs) = 1024"
    "\<forall>b \<in> set (items bs). sl_len (bm_data b) = 1792"
    using test_area_result [where num = 1024 and prof = prof and w = w] assms by auto
  then show ?thesis
    using drop_area_returns [of area libc prof w1]
    by (simp add: bufs_to_pool_def assert_that_def list_all_iff bm_get_data_def)
qed

lemma buf_values_passes:
  assumes "calm w"
  shows "\<exists>w'. buf_values libc prof be m w = Ret w'"
proof -
  obtain area bs w1 where a: "test_area libc prof 1024 w = Ret ((area, bs), w1)"
    "buf_num area = 1024" "buf_len area = 2048" "length (items bs) = 1024"
    and b: "\<forall>b \<in> set (items bs). sl_len (bm_data b) = 1792 \<and> slice_mapped (bm_data b)" "apart (items bs)"
    using test_area_result [where num = 1024 and prof = prof and w = w] assms by auto
  let ?c = "\<lambda>i. to_ne_bytes be (of_nat i + value_base)"
  have v: "u64_add prof (of_nat i) value_base = Ret (of_nat i + value_base)" if "i < 1024" for i
    using that unat_of_nat_u64 [of i] by (intro u64_add_ok) (simp add: value_base_def)
  obtain m' where m': "write_each (write_value prof be) 0 (items bs) m = Ret m'"
    "\<forall>i < 1024. take 8 (slice_read m' (bm_data (items bs ! i))) = ?c i"
    using write_each_content [of "items bs" ?c 0 "write_value prof be" m] a(4) b
    by (auto simp: write_value_def v ne_bytes_value store_bytes_slice)
  have "read_each (check_value prof be m') 0 (items bs) (drop_area libc prof area w1)
      = drop_area libc prof area w1"
    using m'(2) a(4) b(1)
    by (intro read_each_True) (simp add: check_value_def v slice_range_read ne_bytes_value)
  then show ?thesis
    using a m'(1) drop_area_returns [of area libc prof w1]
    by (simp add: buf_values_def assert_that_def)
qed

lemma buf_values2_passes:
  assumes "calm w"
  shows "\<exists>w'. buf_values2 libc prof m w = Ret w'"
proof -
  obtain area bs w1 where a: "test_area libc prof 256 w = Ret ((area, bs), w1)"
    "buf_num area = 256" "buf_len area = 2048" "length (items bs) = 256"
    and b: "\<forall>b \<in> set (items bs). sl_len (bm_data b) = 1792 \<and> slice_mapped (bm_data b)" "apart (items bs)"
    using test_area_result [where num = 256 and prof = prof and w = w] assms by auto
  obtain m' where m': "write_each write_number 0 (items bs) m = Ret m'"
    "\<forall>i < 256. take 1792 (slice_read m' (bm_data (items bs ! i))) = replicate 1792 (of_nat i)"
    using write_each_content [of "items bs" "\<lambda>i. replicate 1792 (of_nat i)" 0 write_number m] a(4) b
    by (auto simp: write_number_def store_bytes_slice)
  have "read_each (check_number m') 0 (items bs) (drop_area libc prof area w1)
      = drop_area libc prof area w1"
    using m'(2) a(4) b(1)
    by (intro read_each_True) (simp add: check_number_def slice_range_read list_all_iff)
  then show ?thesis
    using a m'(1) drop_area_returns [of area libc prof w1]
    by (simp add: buf_values2_def assert_that_def)
qed

lemma umem_ring_size_passes:
  assumes "calm w" and "\<not> is_pow_of_two csz \<or> \<not> is_pow_of_two fsz"
  shows "\<exists>w'. umem_ring_size api libc prof csz fsz w = Ret w'"
proof -
  obtain area bs w1 where a: "test_area libc prof 1024 w = Ret ((area, bs), w1)"
    "buf_num area = 1024" "buf_len area = 2048"
    using test_area_result [where num = 1024 and prof = prof and w = w] assms by auto
  then show ?thesis
    using assms(2) drop_area_returns [of area libc prof w1]
    by (auto simp: umem_ring_size_def umem_new_def)
qed

lemma test_umem_result:
  assumes "mapped (ma_ptr area) (1024 * 2048) w" and "buf_num area = 1024" and "buf_len area = 2048"
  shows "\<exists>um cq fq w'. expect (umem_new api libc prof area 1024 1024 w) = Ret ((um, cq, fq), w')
     \<and> um_area um = area"
proof -
  obtain c w1 f w2 where r: "new_ring api w = (c, w1)" "new_ring api w1 = (f, w2)" by fastforce
  have m: "mapped (ma_ptr area) (1024 * 2048) w2"
    using ring_mapped [OF ring_mapped [OF assms(1) r(1)] r(2)] .
  obtain e u w3 where u: "umem_create api (ma_ptr area) (of_nat (1024 * 2048)) f c
      \<lparr>fill_size = 1024, comp_size = 1024, frame_size = 2048,
       frame_headroom = XSK_UMEM_DEFAULT_FRAME_HEADROOM api, umem_flags = 0\<rparr> w2 = (e, u, w3)"
    by (metis prod_cases3)
  then have e: "e = 0" by (rule registers [OF m])
  have p: "is_pow_of_two 1024" by (simp add: is_pow_of_two_def)
  show ?thesis
    using u e by (simp add: expect_Ret umem_new_def p r assms(2,3) get_buf_num_def get_buf_len_def
        get_ptr_def usize_mul_ok Let_def)
qed

lemma umem_ring_size4_passes:
  assumes "calm w"
  shows "\<exists>w'. umem_ring_size4 api libc prof rlimit_ok w = Ret w'"
proof -
  obtain area bs w1 where a: "test_area libc prof 1024 w = Ret ((area, bs), w1)"
    "buf_num area = 1024" "buf_len area = 2048" "mapped (ma_ptr area) (1024 * 2048) w1"
    using test_area_result [where num = 1024 and prof = prof and w = w] assms by auto
  obtain um cq fq w2 where u: "expect (umem_new api libc prof area 1024 1024 w1) = Ret ((um, cq, fq), w2)"
    "um_area um = area"
    using test_umem_result [of area w1 prof] a(2-4) by auto
  show ?thesis
    using a drop_area_returns [of area libc prof "umem_drop api um w2"] u
    by (simp add: umem_ring_size4_def)
qed

lemma expect_socket_error_passes:
  assumes "not_pow \<longleftrightarrow> \<not> is_pow_of_two rsz \<or> \<not> is_pow_of_two tsz"
  shows "\<exists>w'. expect_socket_error api libc um not_pow rsz tsz w = Ret w'"
proof (cases not_pow)
  case True
  then show ?thesis using assms by (auto simp: expect_socket_error_def socket_new_def)
next
  case False
  then have "is_pow_of_two rsz" "is_pow_of_two tsz" using assms by simp_all
  then show ?thesis
    using False no_link1
    by (auto simp: expect_socket_error_def socket_new_def cstring_new_def Let_def split: prod.split)
qed

lemma socket_ring_size1_passes:
  assumes "calm w"
  shows "\<exists>w'. socket_ring_size1 api libc prof rlimit_ok w = Ret w'"
proof -
  obtain area bs w1 where a: "test_area libc prof 1024 w = Ret ((area, bs), w1)"
    "buf_num area = 1024" "buf_len area = 2048" "mapped (ma_ptr area) (1024 * 2048) w1"
    using test_area_result [where num = 1024 and prof = prof and w = w] assms by auto
  obtain um cq fq w2 where u: "expect (umem_new api libc prof area 1024 1024 w1) = Ret ((um, cq, fq), w2)"
    "um_area um = area"
    using test_umem_result [of area w1 prof] a(2-4) by auto
  note e = expect_socket_error_passes [of _ _ _ um]
  obtain w3 where w3: "expect_socket_error api libc um False 2048 2048 w2 = Ret w3"
    using e [of False 2048 2048 w2] by (auto simp: is_pow_of_two_def)
  obtain w4 where w4: "expect_socket_error api libc um True 101 2048 w3 = Ret w4"
    using e [of True 101 2048 w3] by (auto simp: is_pow_of_two_def)
  obtain w5 where w5: "expect_socket_error api libc um True 2048 149 w4 = Ret w5"
    using e [of True 2048 149 w4] by (auto simp: is_pow_of_two_def)
  obtain w6 where w6: "expect_socket_error api libc um True 1999 149 w5 = Ret w6"
    using e [of True 1999 149 w5] by (auto simp: is_pow_of_two_def)
  show ?thesis
    using a u w3 w4 w5 w6 drop_area_returns [of area libc prof "umem_drop api um w6"]
    by (simp add: socket_ring_size1_def)
qed

end

text \<open>
  Property C30. Every unit test of the crate passes, in both build profiles, for both byte orders,
  whatever the mapped memory holds, as root or not, for every kernel that maps two megabytes and registers
  the mapped region as a umem of 1024 frames with rings of 1024 entries, and has no link \<open>link1\<close>; in particular the values written to 1024 buffers, and
  to every byte of 256 buffers, are all read back.
\<close>

theorem unit_tests_pass:
  assumes "test_kernel libc api calm mapped" and "calm w"
  shows "test_powers_of_two = Ret () \<and> buf_pool_vec_put1 prof = Ret ()
     \<and> (\<exists>w'. bufs_to_pool libc prof m w = Ret w')
     \<and> (\<exists>w'. buf_values libc prof be m w = Ret w')
     \<and> (\<exists>w'. buf_values2 libc prof m w = Ret w')
     \<and> (\<exists>w'. umem_ring_size1 api libc prof w = Ret w')
     \<and> (\<exists>w'. umem_ring_size2 api libc prof w = Ret w')
     \<and> (\<exists>w'. umem_ring_size3 api libc prof w = Ret w')
     \<and> (\<exists>w'. umem_ring_size4 api libc prof rlimit_ok w = Ret w')
     \<and> (\<exists>w'. socket_ring_size1 api libc prof rlimit_ok w = Ret w')"
proof -
  have p: "\<not> is_pow_of_two 97" "\<not> is_pow_of_two 100" by (simp_all add: is_pow_of_two_def)
  have u: "\<exists>w'. umem_ring_size1 api libc prof w = Ret w'"
    "\<exists>w'. umem_ring_size2 api libc prof w = Ret w'" "\<exists>w'. umem_ring_size3 api libc prof w = Ret w'"
    by (simp_all add: umem_ring_size1_def umem_ring_size2_def umem_ring_size3_def
        test_kernel.umem_ring_size_passes [OF assms] p)
  show ?thesis
    by (intro conjI pure_tests_pass u test_kernel.bufs_to_pool_passes [OF assms]
        test_kernel.buf_values_passes [OF assms] test_kernel.buf_values2_passes [OF assms]
        test_kernel.umem_ring_size4_passes [OF assms] test_kernel.socket_ring_size1_passes [OF assms])
qed

text \<open>
  A kernel without links, which registers page-aligned regions of at least one frame and refuses every
  other.
\<close>

definition unlinked_api :: "(kring_id, kworld) xsk_api" where
  "unlinked_api = ref_api\<lparr>
     umem_create := (\<lambda>area sz fq cq cfg w.
       if area AND 4095 \<noteq> 0 \<or> sz < 2048 then (-22, 0, w) else (0, 4096, w)),
     socket_create := (\<lambda>ifn q u rx tx cfg w. (-19, 0, w))\<rparr>"

interpretation unlinked: test_kernel ref_libc unlinked_api "\<lambda>_. True"
  "\<lambda>p sz w. p AND 4095 = 0 \<and> 2048 \<le> sz \<and> sz \<le> 2 ^ 21"
  by unfold_locales
    (auto simp: ref_libc_def unlinked_api_def word_less_nat_alt unat_of_nat_u64 split: if_splits)

theorem unit_tests_pass_witness:
  "(\<exists>w'. buf_values ref_libc Debug False (\<lambda>_. 7) (ex_boot []) = Ret w')
   \<and> (\<exists>w'. umem_ring_size4 unlinked_api ref_libc Debug True (ex_boot []) = Ret w')
   \<and> (\<exists>w'. socket_ring_size1 unlinked_api ref_libc Debug True (ex_boot []) = Ret w')"
  using unit_tests_pass [OF unlinked.test_kernel_axioms TrueI, of Debug "\<lambda>_. 7" "ex_boot []" False True]
  by simp

end
