(* ===== verification/Bidir_Hash.thy ===== *)
theory Bidir_Hash
  imports Setup Byte_Order
begin

text \<open>
  The traffic test \<open>tests/bidir_hash.rs\<close>: each of two ports sends packets of random length and content
  that start with a sequence number, remembers a hash of each, and compares what arrives from the other
  port with it. The random numbers, the hash and the clock are parameters. The lemmas follow one burst and
  one call of \<open>receive\<close> packet by packet; \<open>Traffic_Test\<close> says what the test decides.
\<close>

section \<open>State\<close>

record packet_state =
  ps_processed :: bool
  ps_hash :: u64

text \<open>Instants and durations are nanoseconds.\<close>

record port_state =
  last_time :: nat
  transmitted :: usize
  received :: usize
  out_of_order :: usize
  bad_hash :: usize
  duplicated :: usize
  pt_seq :: u64
  last_received_seq :: u64
  hashes :: "u64 \<rightharpoonup> packet_state"

record bidir_hash =
  end_time :: nat
  done_time_with_padding :: nat
  burst_gap :: nat
  burst_size :: usize
  total_packets :: usize
  bh_ports :: "port_state list"
  bh_done :: bool

definition secs :: "nat \<Rightarrow> nat" where
  "secs n = n * 1000000000"

definition new_port :: "nat \<Rightarrow> port_state" where
  "new_port now = \<lparr>last_time = now, transmitted = 0, received = 0, out_of_order = 0, bad_hash = 0,
     duplicated = 0, pt_seq = 1, last_received_seq = 0, hashes = Map.empty\<rparr>"

text \<open>\<open>t0\<close>, \<open>t1\<close> and \<open>t2\<close> are the three readings of the clock.\<close>

definition bidir_new :: "nat \<Rightarrow> nat \<Rightarrow> nat \<Rightarrow> nat \<Rightarrow> usize \<Rightarrow> nat \<Rightarrow> usize \<Rightarrow> bidir_hash" where
  "bidir_new t0 t1 t2 max_duration num gap bsize =
     \<lparr>end_time = t0 + max_duration, done_time_with_padding = t0 + max_duration + secs 2,
      burst_gap = gap, burst_size = bsize, total_packets = num,
      bh_ports = [new_port t1, new_port t2], bh_done = False\<rparr>"

section \<open>The end of the test\<close>

definition bidir_done :: "nat \<Rightarrow> bidir_hash \<Rightarrow> bool \<times> bidir_hash" where
  "bidir_done now self =
     (if end_time self < now then (True, self)
      else if transmitted (bh_ports self ! 0) < total_packets self
              \<or> transmitted (bh_ports self ! 1) < total_packets self then (False, self)
      else if \<not> bh_done self
      then (False, self\<lparr>bh_done := True, done_time_with_padding := now + secs 2\<rparr>)
      else if done_time_with_padding self < now then (True, self)
      else (False, self))"

section \<open>Sending\<close>

text \<open>The random numbers: \<open>gen_range(a..b)\<close>, and \<open>try_fill\<close> of a slice of the given length.\<close>

record 'g rng_api =
  gen_range :: "u16 \<Rightarrow> u16 \<Rightarrow> 'g \<Rightarrow> u16 \<times> 'g"
  try_fill :: "usize \<Rightarrow> 'g \<Rightarrow> u8 list option \<times> 'g"

text \<open>One packet: taken from the vector, filled, hashed and queued.\<close>

definition transmit_one :: "profile \<Rightarrow> ('u buf_mmap, 'q) deque_api \<Rightarrow> 'g rng_api \<Rightarrow> (u8 list \<Rightarrow> u64) \<Rightarrow> bool
    \<Rightarrow> port_state \<times> 'u buf_mmap vec \<times> 'q \<times> memory \<times> 'g
    \<Rightarrow> (port_state \<times> 'u buf_mmap vec \<times> 'q \<times> memory \<times> 'g) outcome" where
  "transmit_one prof dq rng hash be = (\<lambda>(port, bs, q, m, g).
     case vec_pop bs of
       (None, bs) \<Rightarrow> Panic UnwrapFailed
     | (Some b, bs) \<Rightarrow>
         let (len, g) = gen_range rng 64 1500 g in
         bnd (bm_set_len b len) (\<lambda>b.
         let data = bm_get_data_mut b in
         bnd (u64_add prof (pt_seq port) 1) (\<lambda>sq.
         bnd (store_bytes data 0 (to_ne_bytes be sq) m) (\<lambda>m.
         if sl_len data < 8 then Panic OutOfRange
         else case try_fill rng (sl_len data - 8) g of
           (None, g) \<Rightarrow> Panic ExplicitPanic
         | (Some bytes, g) \<Rightarrow>
             bnd (slice_store m data 8 bytes) (\<lambda>m.
             bnd (slice_range m data 0 (unat len)) (\<lambda>content.
             case hashes port sq of
               Some _ \<Rightarrow> Panic ExplicitPanic
             | None \<Rightarrow>
                 let port = port\<lparr>pt_seq := sq,
                   hashes := (hashes port)(sq \<mapsto> \<lparr>ps_processed = False, ps_hash = hash content\<rparr>)\<rparr> in
                 (case dq_push_back dq b q of
                    (Some _, q) \<Rightarrow> Panic ExplicitPanic
                  | (None, q) \<Rightarrow> Ret (port, bs, q, m, g))))))))"

primrec transmit_loop :: "profile \<Rightarrow> ('u buf_mmap, 'q) deque_api \<Rightarrow> 'g rng_api \<Rightarrow> (u8 list \<Rightarrow> u64) \<Rightarrow> bool
    \<Rightarrow> nat \<Rightarrow> port_state \<times> 'u buf_mmap vec \<times> 'q \<times> memory \<times> 'g
    \<Rightarrow> (port_state \<times> 'u buf_mmap vec \<times> 'q \<times> memory \<times> 'g) outcome" where
  "transmit_loop prof dq rng hash be 0 st = Ret st"
| "transmit_loop prof dq rng hash be (Suc k) st =
     bnd (transmit_one prof dq rng hash be st) (transmit_loop prof dq rng hash be k)"

definition bidir_transmit :: "profile \<Rightarrow> ('u buf_mmap, 'q) deque_api \<Rightarrow> 'g rng_api \<Rightarrow> (u8 list \<Rightarrow> u64) \<Rightarrow> bool
    \<Rightarrow> nat \<Rightarrow> nat \<Rightarrow> 'u buf_mmap vec \<Rightarrow> 'q \<Rightarrow> memory \<Rightarrow> 'g \<Rightarrow> bidir_hash
    \<Rightarrow> (usize \<times> bidir_hash \<times> 'u buf_mmap vec \<times> 'q \<times> memory \<times> 'g) outcome" where
  "bidir_transmit prof dq rng hash be now pos bs pending m g self =
     (let port = bh_ports self ! pos in
      if transmitted port < total_packets self \<and> last_time port + burst_gap self < now then
        bnd (usize_sub prof (dq_capacity dq pending) (dq_len dq pending)) (\<lambda>space.
        let packet_count = min space (length (items bs)) in
        bnd (usize_sub prof (total_packets self) (transmitted port)) (\<lambda>left.
        if burst_size self \<le> left \<and> packet_count < burst_size self
        then Ret (0, self, bs, pending, m, g)
        else
          let packet_count = (if burst_size self \<le> left then burst_size self
                              else min packet_count left) in
          bnd (transmit_loop prof dq rng hash be packet_count (port, bs, pending, m, g))
            (\<lambda>(port, bs, pending, m, g).
          bnd (usize_add prof (transmitted port) packet_count) (\<lambda>t.
            Ret (packet_count,
                 self\<lparr>bh_ports := (bh_ports self)[pos := port\<lparr>transmitted := t, last_time := now\<rparr>]\<rparr>,
                 bs, pending, m, g)))))
      else Ret (0, self, bs, pending, m, g))"

section \<open>Receiving\<close>

text \<open>One packet; \<open>sent\<close> is the map of the other port.\<close>

definition receive_one :: "profile \<Rightarrow> ('u buf_mmap, 'q) deque_api \<Rightarrow> (u8 list \<Rightarrow> u64) \<Rightarrow> bool \<Rightarrow> memory
    \<Rightarrow> (u64 \<rightharpoonup> packet_state) \<Rightarrow> port_state \<times> 'u buf_mmap vec \<times> 'q
    \<Rightarrow> (port_state \<times> 'u buf_mmap vec \<times> 'q) outcome" where
  "receive_one prof dq hash be m sent = (\<lambda>(port, bs, q).
     case dq_pop_front dq q of
       (None, q) \<Rightarrow> Panic ExplicitPanic
     | (Some b, q) \<Rightarrow>
         bnd (slice_range m (bm_get_data_mut b) 0 8) (\<lambda>bytes.
         let sq = from_ne_bytes be bytes in
         bnd (if sq \<le> last_received_seq port
              then bnd (usize_add prof (out_of_order port) 1) (\<lambda>n. Ret (port\<lparr>out_of_order := n\<rparr>))
              else Ret (port\<lparr>last_received_seq := sq\<rparr>)) (\<lambda>port.
         bnd (case sent sq of
                None \<Rightarrow> Ret port
              | Some val \<Rightarrow>
                  bnd (slice_range m (bm_data b) 0 (unat (bm_get_len b))) (\<lambda>content.
                  bnd (if hash content \<noteq> ps_hash val
                       then bnd (usize_add prof (bad_hash port) 1) (\<lambda>n. Ret (port\<lparr>bad_hash := n\<rparr>))
                       else Ret port) (\<lambda>port.
                  if ps_processed val
                  then bnd (usize_add prof (duplicated port) 1) (\<lambda>n. Ret (port\<lparr>duplicated := n\<rparr>))
                  else Ret port))) (\<lambda>port.
           Ret (port, vec_push bs b, q)))))"

primrec receive_loop :: "profile \<Rightarrow> ('u buf_mmap, 'q) deque_api \<Rightarrow> (u8 list \<Rightarrow> u64) \<Rightarrow> bool \<Rightarrow> memory
    \<Rightarrow> (u64 \<rightharpoonup> packet_state) \<Rightarrow> nat \<Rightarrow> port_state \<times> 'u buf_mmap vec \<times> 'q
    \<Rightarrow> (port_state \<times> 'u buf_mmap vec \<times> 'q) outcome" where
  "receive_loop prof dq hash be m sent 0 st = Ret st"
| "receive_loop prof dq hash be m sent (Suc k) st =
     bnd (receive_one prof dq hash be m sent st) (receive_loop prof dq hash be m sent k)"

definition bidir_receive :: "profile \<Rightarrow> ('u buf_mmap, 'q) deque_api \<Rightarrow> (u8 list \<Rightarrow> u64) \<Rightarrow> bool
    \<Rightarrow> nat \<Rightarrow> 'u buf_mmap vec \<Rightarrow> 'q \<Rightarrow> memory \<Rightarrow> bidir_hash
    \<Rightarrow> (usize \<times> bidir_hash \<times> 'u buf_mmap vec \<times> 'q) outcome" where
  "bidir_receive prof dq hash be pos bs pending m self =
     (let n = dq_len dq pending; other = (pos + 1) mod 2 in
      bnd (receive_loop prof dq hash be m (hashes (bh_ports self ! other)) n
             (bh_ports self ! pos, bs, pending)) (\<lambda>(port, bs, pending).
      bnd (usize_add prof (received port) n) (\<lambda>r.
        Ret (n, self\<lparr>bh_ports := (bh_ports self)[pos := port\<lparr>received := r\<rparr>]\<rparr>, bs, pending))))"

section \<open>The verdict\<close>

text \<open>\<open>error_check(..).unwrap()\<close>: the message of the error holds the difference of the two values.\<close>

definition error_check :: "profile \<Rightarrow> usize \<Rightarrow> usize \<Rightarrow> unit outcome" where
  "error_check prof val1 val2 =
     (if val1 \<noteq> val2 then bnd (usize_sub prof val1 val2) (\<lambda>_. Panic UnwrapFailed) else Ret ())"

definition bidir_finalize :: "profile \<Rightarrow> bidir_hash \<Rightarrow> unit outcome" where
  "bidir_finalize prof self =
     (let p0 = bh_ports self ! 0; p1 = bh_ports self ! 1; num = total_packets self in
      bnd (error_check prof num (transmitted p0)) (\<lambda>_.
      bnd (error_check prof num (transmitted p1)) (\<lambda>_.
      bnd (error_check prof (transmitted p0) (received p1)) (\<lambda>_.
      bnd (error_check prof (transmitted p1) (received p0)) (\<lambda>_.
      bnd (error_check prof (bad_hash p0) 0) (\<lambda>_.
      bnd (error_check prof (bad_hash p1) 0) (\<lambda>_.
      bnd (error_check prof (out_of_order p0) 0) (\<lambda>_.
      bnd (error_check prof (out_of_order p1) 0) (\<lambda>_.
      bnd (error_check prof (duplicated p0) 0) (\<lambda>_.
        error_check prof (duplicated p1) 0))))))))))"

section \<open>Sending, packet by packet\<close>

text \<open>The documentation of the crate rand, and a generator that satisfies it.\<close>

locale rng_laws =
  fixes rng :: "'g rng_api"
  assumes in_range: "a < b \<Longrightarrow> gen_range rng a b g = (r, g') \<Longrightarrow> a \<le> r \<and> r < b"
    and filled: "try_fill rng n g = (x, g') \<Longrightarrow> \<exists>bs. x = Some bs \<and> length bs = n"

definition least_rng :: "unit rng_api" where
  "least_rng = \<lparr>gen_range = (\<lambda>a b g. (a, g)), try_fill = (\<lambda>n g. (Some (replicate n 0), g))\<rparr>"

interpretation leastrng: rng_laws least_rng
  by unfold_locales (auto simp: least_rng_def)

text \<open>What a buffer transports, and when it is the packet that a port sent under a number.\<close>

definition contents :: "memory \<Rightarrow> 'u buf_mmap \<Rightarrow> u8 list" where
  "contents m b = take (unat (bm_len b)) (bm_get_data m b)"

definition genuine :: "(u8 list \<Rightarrow> u64) \<Rightarrow> bool \<Rightarrow> (u64 \<rightharpoonup> packet_state) \<Rightarrow> nat \<Rightarrow> u8 list \<Rightarrow> bool" where
  "genuine hash be sent k c \<longleftrightarrow> 8 \<le> length c \<and> from_ne_bytes be (take 8 c) = of_nat k
     \<and> sent (of_nat k) = Some \<lparr>ps_processed = False, ps_hash = hash c\<rparr>"

text \<open>A buffer in which every packet of the test fits.\<close>

definition roomy :: "'u buf_mmap \<Rightarrow> bool" where
  "roomy b \<longleftrightarrow> slice_mapped (bm_data b) \<and> 1500 \<le> sl_len (bm_data b) \<and> sl_len (bm_data b) < 2 ^ 16"

text \<open>A buffer that holds a packet of the test: long enough for a number, its length within its frame.\<close>

definition readable :: "'u buf_mmap \<Rightarrow> bool" where
  "readable b \<longleftrightarrow> 8 \<le> sl_len (bm_data b) \<and> unat (bm_len b) \<le> sl_len (bm_data b)"

text \<open>A buffer up to its length.\<close>

abbreviation blank :: "'u buf_mmap \<Rightarrow> 'u buf_mmap" where
  "blank b \<equiv> b\<lparr>bm_len := 0\<rparr>"

locale packet_queue = array_deque dq dq_ok queued
  for dq :: "('u buf_mmap, 'q) deque_api" and dq_ok queued

locale traffic = packet_queue dq dq_ok queued + rng_laws rng
  for dq :: "('u buf_mmap, 'q) deque_api" and dq_ok queued and rng :: "'g rng_api"
begin

lemma transmit_one_ok:
  assumes bs: "items bs = xs @ [b]" and b: "roomy b" and q: "dq_ok q" "length (queued q) < PENDING_LEN"
    and sq: "unat (pt_seq port) = n" "Suc n < 2 ^ 64" and fresh: "hashes port (of_nat (Suc n)) = None"
  shows "\<exists>len m' g' q'. transmit_one prof dq rng hash be (port, bs, q, m, g)
       = Ret (port\<lparr>pt_seq := of_nat (Suc n), hashes := (hashes port)(of_nat (Suc n) \<mapsto>
                \<lparr>ps_processed = False, ps_hash = hash (contents m' (b\<lparr>bm_len := len\<rparr>))\<rparr>)\<rparr>,
              bs\<lparr>items := xs\<rparr>, q', m', g')
     \<and> dq_ok q' \<and> queued q' = queued q @ [b\<lparr>bm_len := len\<rparr>] \<and> 64 \<le> unat len \<and> unat len < 1500
     \<and> from_ne_bytes be (take 8 (contents m' (b\<lparr>bm_len := len\<rparr>))) = of_nat (Suc n)
     \<and> (\<forall>t. slice_mapped t \<longrightarrow> slice_addrs (bm_data b) \<inter> slice_addrs t = {} \<longrightarrow>
            slice_read m' t = slice_read m t)"
proof -
  let ?d = "bm_data b" and ?c = "to_ne_bytes be (of_nat (Suc n))"
  have d: "slice_mapped ?d" "1500 \<le> sl_len ?d" "sl_len ?d < 2 ^ 16" using b by (simp_all add: roomy_def)
  obtain len g1 where len: "gen_range rng 64 1500 g = (len, g1)" by fastforce
  have "64 \<le> len \<and> len < 1500" using in_range [OF _ len] by (simp add: word_less_nat_alt)
  then have l: "64 \<le> unat len" "unat len < 1500" by (simp_all add: word_le_nat_alt word_less_nat_alt)
  have pop: "vec_pop bs = (Some b, bs\<lparr>items := xs\<rparr>)" by (simp add: vec_pop_def bs)
  have set: "bm_set_len b len = Ret (b\<lparr>bm_len := len\<rparr>)" using d l by (simp add: bm_set_len_cases)
  have "pt_seq port + 1 = of_nat (Suc n)" by (simp add: sq(1) [symmetric] add.commute)
  then have inc: "u64_add prof (pt_seq port) 1 = Ret (of_nat (Suc n))"
    using sq by (simp add: u64_add_ok)
  have st: "store_bytes ?d 0 ?c m = slice_store m ?d 0 ?c"
    using d(2) by (intro store_bytes_slice) (simp add: ne_bytes_value)
  obtain m1 where m1: "slice_store m ?d 0 ?c = Ret m1"
    using d(2) by (simp add: slice_store_def ne_bytes_value)
  obtain bytes g2 where fill: "try_fill rng (sl_len ?d - 8) g1 = (Some bytes, g2)" "length bytes = sl_len ?d - 8"
    using filled by (metis surj_pair)
  obtain m2 where m2: "slice_store m1 ?d 8 bytes = Ret m2"
    using d(2) fill(2) by (simp add: slice_store_def)
  have r2: "slice_read m2 ?d = ?c @ bytes"
    using slice_store_read [OF m2 d(1)] slice_store_read [OF m1 d(1)] fill(2) d(2)
    by (simp add: ne_bytes_value)
  have ct: "contents m2 (b\<lparr>bm_len := len\<rparr>) = take (unat len) (slice_read m2 ?d)"
    by (simp add: contents_def bm_get_data_def)
  have "slice_range m2 ?d 0 (unat len) = Ret (take (unat len) (slice_read m2 ?d))"
    using d(2) l by (intro slice_range_read) simp
  moreover obtain q' where q': "dq_push_back dq (b\<lparr>bm_len := len\<rparr>) q = (None, q')" "dq_ok q'"
    "queued q' = queued q @ [b\<lparr>bm_len := len\<rparr>]"
    using push_back_room [OF q] by blast
  moreover have "take 8 (contents m2 (b\<lparr>bm_len := len\<rparr>)) = ?c"
    using l(1) by (simp add: ct r2 ne_bytes_value min_def)
  moreover have "slice_read m2 t = slice_read m t"
    if "slice_mapped t" "slice_addrs ?d \<inter> slice_addrs t = {}" for t
    using slice_store_disjoint [OF m2 d(1) that] slice_store_disjoint [OF m1 d(1) that] by simp
  ultimately show ?thesis
    using pop set inc m1 fill(1) m2 fresh d(2) l
    by (intro exI [of _ len] exI [of _ m2] exI [of _ g2] exI [of _ q'])
      (simp add: transmit_one_def Let_def len bm_get_data_mut_def st ct ne_bytes_value del: of_nat_Suc)
qed

lemma transmit_loop_ok:
  assumes bs: "items bs = xs @ ys" "length ys = k" and fit: "\<forall>b \<in> set ys. roomy b" and ap: "apart ys"
    and q: "dq_ok q" "length (queued q) + k \<le> PENDING_LEN"
    and sq: "unat (pt_seq port) = n" "n + k < 2 ^ 64" and fresh: "\<forall>v \<in> dom (hashes port). unat v \<le> n"
  shows "\<exists>new h m' g' q'. transmit_loop prof dq rng hash be k (port, bs, q, m, g)
       = Ret (port\<lparr>pt_seq := of_nat (n + k), hashes := h\<rparr>, bs\<lparr>items := xs\<rparr>, q', m', g')
     \<and> dq_ok q' \<and> queued q' = queued q @ new \<and> map blank new = rev (map blank ys) \<and> (\<forall>b \<in> set new. readable b)
     \<and> list_all2 (genuine hash be h) [Suc n..<Suc (n + k)] (map (contents m') new)
     \<and> (\<forall>v. unat v \<le> n \<longrightarrow> h v = hashes port v) \<and> (\<forall>v \<in> dom h. unat v \<le> n + k)
     \<and> (\<forall>t. slice_mapped t \<longrightarrow> (\<forall>b \<in> set ys. slice_addrs (bm_data b) \<inter> slice_addrs t = {}) \<longrightarrow>
            slice_read m' t = slice_read m t)"
  using assms
proof (induction k arbitrary: bs ys q port n m g)
  case 0
  then show ?case
    by (intro exI [of _ "[]"] exI [of _ "hashes port"] exI [of _ m] exI [of _ g] exI [of _ q]) auto
next
  case (Suc k)
  then obtain zs b where ys: "ys = zs @ [b]" "length zs = k"
    by (metis length_Suc_conv_rev)
  let ?w = "of_nat (Suc n) :: u64"
  have w: "unat ?w = Suc n" using Suc.prems(8) by (intro unat_of_nat_u64) simp
  have "hashes port ?w = None"
    using Suc.prems(9) w by (metis domIff not_less_eq_eq order_refl)
  then obtain len m1 g1 q1 where one: "transmit_one prof dq rng hash be (port, bs, q, m, g)
       = Ret (port\<lparr>pt_seq := ?w, hashes := (hashes port)(?w \<mapsto>
                \<lparr>ps_processed = False, ps_hash = hash (contents m1 (b\<lparr>bm_len := len\<rparr>))\<rparr>)\<rparr>,
              bs\<lparr>items := xs @ zs\<rparr>, q1, m1, g1)"
    and q1: "dq_ok q1" "queued q1 = queued q @ [b\<lparr>bm_len := len\<rparr>]" and l: "64 \<le> unat len" "unat len < 1500"
    and num: "from_ne_bytes be (take 8 (contents m1 (b\<lparr>bm_len := len\<rparr>))) = ?w"
    and keep1: "\<forall>t. slice_mapped t \<longrightarrow> slice_addrs (bm_data b) \<inter> slice_addrs t = {} \<longrightarrow>
            slice_read m1 t = slice_read m t"
    using transmit_one_ok [of bs "xs @ zs" b q port n prof hash be m g] Suc.prems ys by auto
  let ?b = "b\<lparr>bm_len := len\<rparr>" and ?h1 = "(hashes port)(?w \<mapsto>
    \<lparr>ps_processed = False, ps_hash = hash (contents m1 (b\<lparr>bm_len := len\<rparr>))\<rparr>)"
  let ?p1 = "port\<lparr>pt_seq := ?w, hashes := ?h1\<rparr>"
  have zs: "\<forall>b \<in> set zs. roomy b" "apart zs" using Suc.prems(3,4) ys by (auto simp: sorted_wrt_append)
  have room: "length (queued q1) + k \<le> PENDING_LEN" using Suc.prems(6) q1 by simp
  have seq: "unat (pt_seq ?p1) = Suc n" and lim: "Suc n + k < 2 ^ 64" using w Suc.prems(8) by simp_all
  have dom: "\<forall>v \<in> dom (hashes ?p1). unat v \<le> Suc n"
    using Suc.prems(9) w by (auto intro: le_SucI)
  obtain new h m' g' q' where rest: "transmit_loop prof dq rng hash be k (?p1, bs\<lparr>items := xs @ zs\<rparr>, q1, m1, g1)
       = Ret (?p1\<lparr>pt_seq := of_nat (Suc n + k), hashes := h\<rparr>, bs\<lparr>items := xs @ zs\<rparr>\<lparr>items := xs\<rparr>, q', m', g')"
    and q': "dq_ok q'" "queued q' = queued q1 @ new" and slices: "map blank new = rev (map blank zs)" and rd: "\<forall>b \<in> set new. readable b"
    and gen: "list_all2 (genuine hash be h) [Suc (Suc n)..<Suc (Suc n + k)] (map (contents m') new)"
    and h: "\<forall>v. unat v \<le> Suc n \<longrightarrow> h v = ?h1 v" "\<forall>v \<in> dom h. unat v \<le> Suc n + k"
    and keep: "\<forall>t. slice_mapped t \<longrightarrow> (\<forall>b \<in> set zs. slice_addrs (bm_data b) \<inter> slice_addrs t = {}) \<longrightarrow>
            slice_read m' t = slice_read m1 t"
    using Suc.IH [of "bs\<lparr>items := xs @ zs\<rparr>" zs q1 ?p1 "Suc n" m1 g1, OF _ ys(2) zs q1(1) room seq lim dom] by auto
  have b: "roomy b" "\<forall>z \<in> set zs. slice_addrs (bm_data z) \<inter> slice_addrs (bm_data b) = {}"
    using Suc.prems(3,4) ys by (auto simp: sorted_wrt_append)
  then have "slice_read m' (bm_data b) = slice_read m1 (bm_data b)"
    using keep by (simp add: roomy_def)
  then have ct: "contents m' ?b = contents m1 ?b" by (simp add: contents_def bm_get_data_def)
  have rb: "readable ?b" using l b(1) by (simp add: readable_def roomy_def)
  have "h ?w = Some \<lparr>ps_processed = False, ps_hash = hash (contents m1 ?b)\<rparr>" using h(1) w by simp
  moreover have "8 \<le> length (contents m1 ?b)"
    using l b(1) by (simp add: contents_def roomy_def bm_get_data_def)
  ultimately have "genuine hash be h (Suc n) (contents m' ?b)"
    using num by (simp add: genuine_def ct del: of_nat_Suc)
  then have "list_all2 (genuine hash be h) [Suc n..<Suc (n + Suc k)] (map (contents m') (?b # new))"
    using gen upt_conv_Cons [of "Suc n" "Suc (n + Suc k)"] by (simp del: of_nat_Suc upt_Suc)
  moreover have "h v = hashes port v" if "unat v \<le> n" for v
    using h(1) w that by auto
  ultimately show ?case
    using one rest q' q1 slices h(2) keep keep1 ys rd rb
    by (intro exI [of _ "?b # new"] exI [of _ h] exI [of _ m'] exI [of _ g'] exI [of _ q'])
      (auto simp del: of_nat_Suc of_nat_add upt_Suc)
qed

end

section \<open>Receiving, packet by packet\<close>

definition number :: "bool \<Rightarrow> memory \<Rightarrow> 'u buf_mmap \<Rightarrow> u64" where
  "number be m b = from_ne_bytes be (take 8 (bm_get_data m b))"

text \<open>How many packets arrive after one with the same or a larger number.\<close>

definition late :: "u64 \<Rightarrow> u64 list \<Rightarrow> nat" where
  "late l ns = length (filter (\<lambda>i. ns ! i \<le> l \<or> (\<exists>j<i. ns ! i \<le> ns ! j)) [0..<length ns])"

definition altered :: "(u8 list \<Rightarrow> u64) \<Rightarrow> (u64 \<rightharpoonup> packet_state) \<Rightarrow> u64 \<times> u8 list \<Rightarrow> bool" where
  "altered hash sent = (\<lambda>(n, c). case sent n of None \<Rightarrow> False | Some p \<Rightarrow> hash c \<noteq> ps_hash p)"

definition repeated :: "(u64 \<rightharpoonup> packet_state) \<Rightarrow> u64 \<times> u8 list \<Rightarrow> bool" where
  "repeated sent = (\<lambda>(n, c). case sent n of None \<Rightarrow> False | Some p \<Rightarrow> ps_processed p)"

definition parcel :: "bool \<Rightarrow> memory \<Rightarrow> 'u buf_mmap \<Rightarrow> u64 \<times> u8 list" where
  "parcel be m b = (number be m b, contents m b)"

lemma fst_parcel [simp]: "fst (parcel be m b) = number be m b"
  by (simp add: parcel_def)

lemma late_Nil [simp]: "late l [] = 0"
  by (simp add: late_def)

lemma late_Cons: "late l (n # ns) = of_bool (n \<le> l) + late (max l n) ns"
proof -
  have "[0..<length (n # ns)] = 0 # map Suc [0..<length ns]" by (simp add: upt_conv_Cons map_Suc_upt del: upt_Suc)
  moreover have "(ns ! i \<le> l \<or> (\<exists>j<Suc i. ns ! i \<le> (n # ns) ! j)) \<longleftrightarrow>
      (ns ! i \<le> max l n \<or> (\<exists>j<i. ns ! i \<le> ns ! j))" for i
    by (auto simp: Ex_less_Suc2 le_max_iff_disj)
  ultimately show ?thesis by (simp add: late_def filter_map comp_def)
qed

lemma late_bound: "late l ns \<le> length ns"
  unfolding late_def by (rule order_trans [OF length_filter_le]) simp

text \<open>What the counters of a port become.\<close>

definition tally :: "(u8 list \<Rightarrow> u64) \<Rightarrow> (u64 \<rightharpoonup> packet_state) \<Rightarrow> (u64 \<times> u8 list) list \<Rightarrow> port_state \<Rightarrow> port_state" where
  "tally hash sent ps port = port\<lparr>
     last_received_seq := fold max (map fst ps) (last_received_seq port),
     out_of_order := out_of_order port + late (last_received_seq port) (map fst ps),
     bad_hash := bad_hash port + length (filter (altered hash sent) ps),
     duplicated := duplicated port + length (filter (repeated sent) ps)\<rparr>"

lemma tally_Cons: "tally hash sent (x # ps) port = tally hash sent ps (tally hash sent [x] port)"
  by (cases x) (simp add: tally_def late_Cons max.commute)

lemma received_tally [simp]: "received (tally hash sent ps port) = received port"
  by (simp add: tally_def)

context packet_queue
begin

lemma receive_loop_tally:
  assumes "dq_ok q" and "queued q = xs" and "\<forall>b \<in> set xs. readable b"
    and "out_of_order port + length xs < 2 ^ 64" and "bad_hash port + length xs < 2 ^ 64"
    and "duplicated port + length xs < 2 ^ 64"
  shows "\<exists>bs' q'. receive_loop prof dq hash be m sent (length xs) (port, bs, q)
       = Ret (tally hash sent (map (parcel be m) xs) port, bs', q')
     \<and> items bs' = items bs @ xs \<and> dq_ok q' \<and> queued q' = []"
  using assms
proof (induction xs arbitrary: port bs q)
  case Nil
  then show ?case by (simp add: tally_def)
next
  case (Cons b xs)
  obtain q1 where q1: "dq_pop_front dq q = (Some b, q1)" "dq_ok q1" "queued q1 = xs"
    using pop_front_Cons [OF Cons.prems(1,2)] by blast
  let ?p = "tally hash sent [parcel be m b] port"
  have b: "8 \<le> sl_len (bm_data b)" "unat (bm_len b) \<le> sl_len (bm_data b)"
    using Cons.prems(3) by (simp_all add: readable_def)
  have num: "from_ne_bytes be (take 8 (slice_read m (bm_data b))) = number be m b"
    "take (unat (bm_len b)) (slice_read m (bm_data b)) = contents m b"
    by (simp_all add: number_def contents_def bm_get_data_def)
  have one: "receive_one prof dq hash be m sent (port, bs, q) = Ret (?p, vec_push bs b, q1)"
    using Cons.prems(4-6) b
    by (auto simp: receive_one_def q1 bm_get_data_mut_def bm_get_len_def slice_range_read num rust_simps Let_def
        tally_def late_Cons parcel_def altered_def repeated_def max_def split: option.split)
  have small: "out_of_order ?p + length xs < 2 ^ 64" "bad_hash ?p + length xs < 2 ^ 64"
    "duplicated ?p + length xs < 2 ^ 64"
    using Cons.prems(4-6) by (auto simp: tally_def late_Cons parcel_def)
  then show ?case
    using Cons.IH [OF q1(2,3) _ small, of "vec_push bs b"] Cons.prems(3) one
    by (auto simp: tally_Cons [of _ _ _ "map (parcel be m) xs"] vec_push_def)
qed

lemma receive_tally:
  assumes "dq_ok pending" and "\<forall>b \<in> set (queued pending). readable b"
    and "n = length (queued pending)" and "port = bh_ports self ! pos"
    and "out_of_order port + n < 2 ^ 64" and "bad_hash port + n < 2 ^ 64"
    and "duplicated port + n < 2 ^ 64" and "received port + n < 2 ^ 64"
  shows "\<exists>bs' q'. bidir_receive prof dq hash be pos bs pending m self =
       Ret (n, self\<lparr>bh_ports := (bh_ports self)[pos :=
                 (tally hash (hashes (bh_ports self ! ((pos + 1) mod 2))) (map (parcel be m) (queued pending)) port)
                 \<lparr>received := received port + n\<rparr>]\<rparr>, bs', q')
     \<and> items bs' = items bs @ queued pending \<and> dq_ok q' \<and> queued q' = []"
  using receive_loop_tally [OF assms(1) refl assms(2), of port prof hash be m
      "hashes (bh_ports self ! ((pos + 1) mod 2))" bs] assms(3-)
  by (auto simp: bidir_receive_def len_deque [OF assms(1)] Let_def usize_add_ok)

end

section \<open>A burst\<close>

text \<open>How many packets a port may send now.\<close>

definition burst_of :: "bidir_hash \<Rightarrow> nat \<Rightarrow> port_state \<Rightarrow> nat \<Rightarrow> nat \<Rightarrow> nat" where
  "burst_of self now port space avail =
     (if total_packets self \<le> transmitted port \<or> now \<le> last_time port + burst_gap self then 0
      else if burst_size self \<le> total_packets self - transmitted port
      then (if min space avail < burst_size self then 0 else burst_size self)
      else min (min space avail) (total_packets self - transmitted port))"

text \<open>A port that has sent the packets \<open>cs\<close>, and one that has counted no error.\<close>

definition has_sent :: "(u8 list \<Rightarrow> u64) \<Rightarrow> bool \<Rightarrow> port_state \<Rightarrow> u8 list list \<Rightarrow> bool" where
  "has_sent hash be port cs \<longleftrightarrow> transmitted port = length cs \<and> unat (pt_seq port) = Suc (length cs)
     \<and> (\<forall>v \<in> dom (hashes port). unat v \<le> Suc (length cs))
     \<and> list_all2 (genuine hash be (hashes port)) [2..<length cs + 2] cs"

definition faultless :: "port_state \<Rightarrow> bool" where
  "faultless port \<longleftrightarrow> out_of_order port = 0 \<and> bad_hash port = 0 \<and> duplicated port = 0"

context traffic
begin

lemma transmit_burst:
  assumes port: "port = bh_ports self ! pos" "has_sent hash be port cs"
    and tot: "length cs \<le> total_packets self" "total_packets self + 2 \<le> 2 ^ 64"
    and bufs: "\<forall>b \<in> set (items bs). roomy b" "apart (items bs)" and q: "dq_ok q"
    and k: "k = burst_of self now port (PENDING_LEN - length (queued q)) (length (items bs))"
  shows "\<exists>port' bs' q' m' g' new. bidir_transmit prof dq rng hash be now pos bs q m g self =
       Ret (k, self\<lparr>bh_ports := (bh_ports self)[pos := port']\<rparr>, bs', q', m', g')
     \<and> length new = k \<and> has_sent hash be port' (cs @ map (contents m') new)
     \<and> (\<exists>h lt. port' = port\<lparr>pt_seq := pt_seq port', hashes := h, transmitted := length cs + k, last_time := lt\<rparr>)
     \<and> dq_ok q' \<and> queued q' = queued q @ new \<and> (\<forall>b \<in> set new. readable b)
     \<and> (\<exists>ys. items bs = items bs' @ ys \<and> map blank new = rev (map blank ys))"
proof -
  let ?space = "PENDING_LEN - length (queued q)" and ?avail = "length (items bs)"
  have sent: "transmitted port = length cs" "unat (pt_seq port) = Suc (length cs)"
    "\<forall>v \<in> dom (hashes port). unat v \<le> Suc (length cs)"
    "list_all2 (genuine hash be (hashes port)) [2..<length cs + 2] cs"
    using port(2) by (simp_all add: has_sent_def)
  have sp: "usize_sub prof (dq_capacity dq q) (dq_len dq q) = Ret ?space"
    using q queued_bound by (simp add: capacity_deque len_deque usize_sub_ok)
  have idle: "self\<lparr>bh_ports := (bh_ports self)[pos := port]\<rparr> = self" by (simp add: port)
  show ?thesis
  proof (cases "k = 0 \<and> bidir_transmit prof dq rng hash be now pos bs q m g self = Ret (0, self, bs, q, m, g)")
    case True
    then show ?thesis
      using port(2) q sent(1) idle
      by (intro exI [of _ port] exI [of _ bs] exI [of _ q] exI [of _ m] exI [of _ g] exI [of _ "[]"])
        (auto intro!: exI [of _ "hashes port"] exI [of _ "last_time port"])
  next
    case False
    then have due: "transmitted port < total_packets self" "last_time port + burst_gap self < now"
      and run: "bidir_transmit prof dq rng hash be now pos bs q m g self =
        bnd (transmit_loop prof dq rng hash be k (port, bs, q, m, g)) (\<lambda>(port, bs, q, m, g).
        bnd (usize_add prof (transmitted port) k) (\<lambda>t.
          Ret (k, self\<lparr>bh_ports := (bh_ports self)[pos := port\<lparr>transmitted := t, last_time := now\<rparr>]\<rparr>,
               bs, q, m, g)))"
      and fits: "k \<le> ?space" "k \<le> ?avail" "k \<le> total_packets self - length cs"
      using sent(1) by (auto simp: bidir_transmit_def burst_of_def k port(1) [symmetric] sp usize_sub_ok Let_def
          split: if_splits)
    let ?xs = "take (?avail - k) (items bs)" and ?ys = "drop (?avail - k) (items bs)"
    have split: "items bs = ?xs @ ?ys" "length ?ys = k" using fits(2) by simp_all
    have ys: "\<forall>b \<in> set ?ys. roomy b" "apart ?ys"
      using bufs split(1) by (metis Un_iff set_append) (metis bufs(2) split(1) sorted_wrt_append)
    have room: "length (queued q) + k \<le> PENDING_LEN" using fits(1) queued_bound [OF q] by simp
    have lim: "Suc (length cs) + k < 2 ^ 64" using fits(3) tot by simp
    obtain new h m' g' q' where loop: "transmit_loop prof dq rng hash be k (port, bs, q, m, g)
        = Ret (port\<lparr>pt_seq := of_nat (Suc (length cs) + k), hashes := h\<rparr>, bs\<lparr>items := ?xs\<rparr>, q', m', g')"
      and q': "dq_ok q'" "queued q' = queued q @ new" and slices: "map blank new = rev (map blank ?ys)"
      and rd: "\<forall>b \<in> set new. readable b"
      and gen: "list_all2 (genuine hash be h) [Suc (Suc (length cs))..<Suc (Suc (length cs) + k)] (map (contents m') new)"
      and h: "\<forall>v. unat v \<le> Suc (length cs) \<longrightarrow> h v = hashes port v" "\<forall>v \<in> dom h. unat v \<le> Suc (length cs) + k"
      using transmit_loop_ok [OF split ys q room sent(2) lim sent(3), of prof hash be m g] by blast
    let ?port = "port\<lparr>pt_seq := of_nat (Suc (length cs) + k), hashes := h, transmitted := length cs + k, last_time := now\<rparr>"
    have n: "length new = k" using slices split(2) by (metis length_map length_rev)
    have "genuine hash be h i c" if "genuine hash be (hashes port) i c" "i < length cs + 2" for i c
      using that h(1) lim by (auto simp: genuine_def unat_of_nat_u64)
    then have "list_all2 (genuine hash be h) [2..<length cs + 2] cs"
      by (intro list.rel_mono_strong [OF sent(4)]) (auto simp del: upt_Suc)
    then have "list_all2 (genuine hash be h) [2..<length (cs @ map (contents m') new) + 2] (cs @ map (contents m') new)"
      using list_all2_appendI [OF _ gen] n upt_add_eq_append [of 2 "length cs + 2" k] by (simp add: ac_simps)
    then have "has_sent hash be ?port (cs @ map (contents m') new)"
      using lim h(2) n by (simp add: has_sent_def unat_of_nat_u64 del: of_nat_Suc of_nat_add)
    moreover have "bidir_transmit prof dq rng hash be now pos bs q m g self =
       Ret (k, self\<lparr>bh_ports := (bh_ports self)[pos := ?port]\<rparr>, bs\<lparr>items := ?xs\<rparr>, q', m', g')"
      using lim by (simp add: run loop sent(1) usize_add_ok)
    moreover have "items bs = items (bs\<lparr>items := ?xs\<rparr>) @ ?ys" using split(1) by simp
    moreover have "?port = port\<lparr>pt_seq := pt_seq ?port, hashes := h, transmitted := length cs + k, last_time := now\<rparr>"
      by simp
    ultimately show ?thesis
      using n q' slices rd by blast
  qed
qed
end

end
