(* ===== verification/Traffic_Test.thy ===== *)
theory Traffic_Test
  imports Bidir_Hash
begin

text \<open>
  What the traffic test \<open>tests/bidir_hash.rs\<close> decides: the two ports connected by a wire that loses,
  reorders and changes nothing, the verdict at the end of a run, what one call of \<open>receive\<close> counts, and
  the duplicates that no call counts.
\<close>

section \<open>A wire that loses nothing\<close>

text \<open>
  The state of the test and, for each port, the packets it has sent that have not arrived yet. A call of
  \<open>transmit\<close> puts what it queues on the wire; a call of \<open>receive\<close> is handed the first packets from the
  wire of the other port.
\<close>

type_synonym traffic_state = "bidir_hash \<times> (nat \<Rightarrow> u8 list list)"

inductive lossless :: "profile \<Rightarrow> ('u buf_mmap, 'q) deque_api \<Rightarrow> ('q \<Rightarrow> bool) \<Rightarrow> ('q \<Rightarrow> 'u buf_mmap list)
    \<Rightarrow> 'g rng_api \<Rightarrow> (u8 list \<Rightarrow> u64) \<Rightarrow> bool \<Rightarrow> traffic_state \<Rightarrow> traffic_state \<Rightarrow> bool"
  for prof dq dq_ok queued rng hash be where
  departs: "lossless prof dq dq_ok queued rng hash be (self, w) (self', w(p := w p @ map (contents m') new))"
    if "p < 2" "\<forall>b \<in> set (items bs). roomy b" "apart (items bs)" "dq_ok q"
      "bidir_transmit prof dq rng hash be now p bs q m g self = Ret (n, self', bs', q', m', g')"
      "queued q' = queued q @ new"
| arrives: "lossless prof dq dq_ok queued rng hash be (self, w) (self', w((p + 1) mod 2 := rest))"
    if "p < 2" "dq_ok q" "\<forall>b \<in> set (queued q). readable b"
      "w ((p + 1) mod 2) = map (contents m) (queued q) @ rest"
      "bidir_receive prof dq hash be p bs q m self = Ret (n, self', bs', q')"
| asked: "lossless prof dq dq_ok queued rng hash be (self, w) (snd (bidir_done now self), w)"

text \<open>The books of the test: \<open>sent p\<close> is all that port \<open>p\<close> has sent; \<open>p'\<close> is the other port.\<close>

definition port_books :: "(u8 list \<Rightarrow> u64) \<Rightarrow> bool \<Rightarrow> (nat \<Rightarrow> u8 list list) \<Rightarrow> traffic_state \<Rightarrow> nat \<Rightarrow> nat \<Rightarrow> bool" where
  "port_books hash be sent = (\<lambda>(self, w) p p'.
     has_sent hash be (bh_ports self ! p) (sent p) \<and> faultless (bh_ports self ! p)
     \<and> length (sent p) \<le> total_packets self
     \<and> unat (last_received_seq (bh_ports self ! p)) \<le> Suc (received (bh_ports self ! p))
     \<and> received (bh_ports self ! p) \<le> length (sent p')
     \<and> w p = drop (received (bh_ports self ! p')) (sent p))"

definition balanced :: "(u8 list \<Rightarrow> u64) \<Rightarrow> bool \<Rightarrow> (nat \<Rightarrow> u8 list list) \<Rightarrow> traffic_state \<Rightarrow> bool" where
  "balanced hash be sent st \<longleftrightarrow> length (bh_ports (fst st)) = 2
     \<and> port_books hash be sent st 0 1 \<and> port_books hash be sent st 1 0"

lemma two_ports: "p < 2 \<Longrightarrow> p = 0 \<and> (p + 1) mod 2 = 1 \<or> p = 1 \<and> (p + 1) mod 2 = (0::nat)"
  by (auto simp: less_2_cases_iff)

lemma balanced_at:
  assumes "p < 2" and "p' = (p + 1) mod 2"
  shows "balanced hash be sent (self, w) \<longleftrightarrow> length (bh_ports self) = 2
     \<and> port_books hash be sent (self, w) p p' \<and> port_books hash be sent (self, w) p' p"
  using two_ports [OF assms(1)] assms(2) by (auto simp: balanced_def)

lemma balanced_new: "balanced hash be (\<lambda>_. []) (bidir_new t0 t1 t2 d num gap bsize, \<lambda>_. [])"
  by (simp add: balanced_def port_books_def bidir_new_def new_port_def has_sent_def faultless_def)

lemma done_total [simp]: "total_packets (snd (bidir_done now self)) = total_packets self"
  by (simp add: bidir_done_def)

lemma done_balanced:
  assumes "balanced hash be sent (self, w)"
  shows "balanced hash be sent (snd (bidir_done now self), w)"
  using assms by (simp add: balanced_def port_books_def bidir_done_def)

text \<open>Packets that arrive as they were sent are counted and nothing else.\<close>

lemma genuine_tally:
  assumes sent: "list_all2 (genuine hash be h) [k..<k + length xs] (map (contents m) xs)"
    and k: "unat (last_received_seq port) < k" "k + length xs \<le> 2 ^ 64" and b: "\<forall>b \<in> set xs. readable b"
  shows "\<exists>l. tally hash h (map (parcel be m) xs) port = port\<lparr>last_received_seq := l\<rparr>
     \<and> unat l < k + length xs"
  using assms
proof (induction xs arbitrary: k port)
  case Nil
  then show ?case
    by (intro exI [of _ "last_received_seq port"]) (simp add: tally_def)
next
  case (Cons b xs)
  have g: "genuine hash be h k (contents m b)"
    and gs: "list_all2 (genuine hash be h) [Suc k..<Suc k + length xs] (map (contents m) xs)"
    using Cons.prems(1) upt_conv_Cons [of k "k + length (b # xs)"] by (auto simp del: upt_Suc)
  have w: "unat (of_nat k :: u64) = k" using Cons.prems(3) by (intro unat_of_nat_u64) simp
  have "take 8 (contents m b) = take 8 (bm_get_data m b)"
    using g by (auto simp: genuine_def contents_def min_def split: if_splits)
  then have num: "number be m b = of_nat k" using g by (simp add: number_def genuine_def)
  have one: "tally hash h [parcel be m b] port = port\<lparr>last_received_seq := of_nat k\<rparr>"
    using g w Cons.prems(2)
    by (simp add: tally_def late_Cons parcel_def num altered_def repeated_def genuine_def max_def
        word_le_nat_alt)
  obtain l where "tally hash h (map (parcel be m) xs) (port\<lparr>last_received_seq := of_nat k\<rparr>)
      = port\<lparr>last_received_seq := of_nat k\<rparr>\<lparr>last_received_seq := l\<rparr>" "unat l < Suc k + length xs"
    using Cons.IH [OF gs, of "port\<lparr>last_received_seq := of_nat k\<rparr>"] Cons.prems w by auto
  then show ?case
    using one by (intro exI [of _ l]) (simp add: tally_Cons [of _ _ _ "map (parcel be m) xs"])
qed

context traffic
begin

lemma departs_returns:
  assumes bal: "balanced hash be sent (self, w)" and tot: "total_packets self + 2 \<le> 2 ^ 64" and p: "p < 2"
    and bufs: "\<forall>b \<in> set (items bs). roomy b" "apart (items bs)" and q: "dq_ok q"
  shows "\<exists>n self' bs' q' m' g' new. bidir_transmit prof dq rng hash be now p bs q m g self
           = Ret (n, self', bs', q', m', g') \<and> queued q' = queued q @ new
     \<and> (\<forall>b \<in> set new. readable b)
     \<and> length new = burst_of self now (bh_ports self ! p) (PENDING_LEN - length (queued q)) (length (items bs))
     \<and> total_packets self' = total_packets self
     \<and> balanced hash be (sent(p := sent p @ map (contents m') new)) (self', w(p := w p @ map (contents m') new))"
proof -
  let ?port = "bh_ports self ! p"
  let ?k = "burst_of self now ?port (PENDING_LEN - length (queued q)) (length (items bs))"
  obtain p' where p': "p' = (p + 1) mod 2" "p' < 2" "p' \<noteq> p" using two_ports [OF p] by auto
  note books = bal [unfolded balanced_at [OF p p'(1)] port_books_def prod.case]
  have hs: "has_sent hash be ?port (sent p)" "length (sent p) \<le> total_packets self" using books by simp_all
  have k: "?k \<le> total_packets self - length (sent p)"
    using hs(1) by (auto simp: burst_of_def has_sent_def)
  obtain port' bs' q' m' g' new h lt where ret: "bidir_transmit prof dq rng hash be now p bs q m g self =
       Ret (?k, self\<lparr>bh_ports := (bh_ports self)[p := port']\<rparr>, bs', q', m', g')"
    and new: "length new = ?k" "has_sent hash be port' (sent p @ map (contents m') new)" "queued q' = queued q @ new" "\<forall>b \<in> set new. readable b"
    and port': "port' = ?port\<lparr>pt_seq := pt_seq port', hashes := h, transmitted := length (sent p) + ?k, last_time := lt\<rparr>"
    using transmit_burst [OF refl hs tot bufs q refl, of prof now m g] by blast
  have keep: "received port' = received ?port" "faultless port' = faultless ?port"
    "last_received_seq port' = last_received_seq ?port"
    by (subst port', simp add: faultless_def)+
  have "balanced hash be (sent(p := sent p @ map (contents m') new))
      (self\<lparr>bh_ports := (bh_ports self)[p := port']\<rparr>, w(p := w p @ map (contents m') new))"
    unfolding balanced_at [OF p p'(1)] port_books_def prod.case
    using books p p' new(1,2) k keep le_diff_conv2 [OF hs(2), of ?k] by (simp add: add.commute)
  then show ?thesis using ret new(1,3,4) by (intro exI) auto
qed

lemma arrives_returns:
  assumes bal: "balanced hash be sent (self, w)" and tot: "total_packets self + 2 \<le> 2 ^ 64" and p: "p < 2"
    and q: "dq_ok q" "\<forall>b \<in> set (queued q). readable b" and w: "w ((p + 1) mod 2) = map (contents m) (queued q) @ rest"
  shows "\<exists>n self' bs' q'. bidir_receive prof dq hash be p bs q m self = Ret (n, self', bs', q')
     \<and> total_packets self' = total_packets self
     \<and> balanced hash be sent (self', w((p + 1) mod 2 := rest))"
proof -
  let ?port = "bh_ports self ! p" and ?xs = "queued q"
  obtain p' where p': "p' = (p + 1) mod 2" "p' < 2" "p' \<noteq> p" using two_ports [OF p] by auto
  let ?h = "hashes (bh_ports self ! p')" and ?r = "received (bh_ports self ! p)" and ?n = "length (queued q)"
  note books = bal [unfolded balanced_at [OF p p'(1)] port_books_def prod.case]
  have hs: "has_sent hash be (bh_ports self ! p') (sent p')" "length (sent p') \<le> total_packets self"
    and f: "faultless ?port" and l: "unat (last_received_seq ?port) \<le> Suc ?r" and r: "?r \<le> length (sent p')"
    and wo: "w p' = drop ?r (sent p')" using books by simp_all
  have eq: "drop ?r (sent p') = map (contents m) ?xs @ rest" using w wo by (simp add: p'(1))
  then have len: "?r + ?n + length rest = length (sent p')" and rest: "rest = drop (?r + ?n) (sent p')"
    using r by (metis add.assoc add_diff_inverse_nat length_append length_drop length_map not_less)
      (metis eq add.commute append_eq_conv_conj drop_drop length_map)
  have "list_all2 (genuine hash be ?h) (take ?n (drop ?r [2..<length (sent p') + 2])) (take ?n (drop ?r (sent p')))"
    using hs(1) by (intro list_all2_takeI list_all2_dropI) (simp add: has_sent_def)
  then have gen: "list_all2 (genuine hash be ?h) [?r + 2..<?r + 2 + ?n] (map (contents m) ?xs)"
    using eq len by (simp add: ac_simps del: upt_Suc)
  obtain l' where tally: "tally hash ?h (map (parcel be m) ?xs) ?port = ?port\<lparr>last_received_seq := l'\<rparr>"
    "unat l' < ?r + 2 + ?n"
    using genuine_tally [OF gen, of ?port] l len hs(2) tot q(2) by auto
  obtain bs' q' where ret: "bidir_receive prof dq hash be p bs q m self =
       Ret (?n, self\<lparr>bh_ports := (bh_ports self)[p := ?port\<lparr>last_received_seq := l', received := ?r + ?n\<rparr>]\<rparr>, bs', q')"
    using receive_tally [OF q refl refl, of self p prof hash be bs m] tally(1) [unfolded p'(1)] f len hs(2) tot
    by (auto simp: faultless_def)
  have "balanced hash be sent
      (self\<lparr>bh_ports := (bh_ports self)[p := ?port\<lparr>last_received_seq := l', received := ?r + ?n\<rparr>]\<rparr>, w(p' := rest))"
    unfolding balanced_at [OF p p'(1)] port_books_def prod.case
    using books p p' tally(2) len rest by (simp add: has_sent_def faultless_def)
  then show ?thesis using ret unfolding p'(1) by (intro exI) auto
qed

lemma lossless_balanced:
  assumes "(lossless prof dq dq_ok queued rng hash be)\<^sup>*\<^sup>* (bidir_new t0 t1 t2 d num gap bsize, \<lambda>_. []) (self, w)"
    and "num + 2 \<le> 2 ^ 64"
  shows "total_packets self = num \<and> (\<exists>sent. balanced hash be sent (self, w))"
  using assms(1)
proof (induction rule: rtranclp_induct2)
  case refl
  then show ?case using balanced_new by (fastforce simp: bidir_new_def)
next
  case (step self w self' w')
  then obtain sent where bal: "balanced hash be sent (self, w)" "total_packets self + 2 \<le> 2 ^ 64"
    using assms(2) by auto
  from step.hyps(2) show ?case
  proof cases
    case (departs p bs q now m g n bs' q' m' g' new)
    then show ?thesis
      using departs_returns [OF bal departs(2-5), of prof now m g] step.IH by (auto simp: departs(1) simp del: fun_upd_apply)
  next
    case (arrives p q m rest bs n bs' q')
    then show ?thesis
      using arrives_returns [OF bal arrives(2-5), of prof bs] step.IH by (auto simp: arrives(1) simp del: fun_upd_apply)
  next
    case (asked now)
    then show ?thesis
      using done_balanced [OF bal(1), of now] step.IH by auto
  qed
qed

end

section \<open>The verdict of a run\<close>

lemma error_check_ok: "error_check prof a b = Ret u \<longleftrightarrow> a = b"
  by (cases "usize_sub prof a b") (simp_all add: error_check_def)

lemma bidir_finalize_ok:
  "bidir_finalize prof self = Ret () \<longleftrightarrow> (\<forall>p<2. transmitted (bh_ports self ! p) = total_packets self
     \<and> received (bh_ports self ! p) = transmitted (bh_ports self ! ((p + 1) mod 2)) \<and> faultless (bh_ports self ! p))"
proof -
  have "bnd (error_check prof a b) f = Ret () \<longleftrightarrow> a = b \<and> f () = Ret ()" for a b and f :: "unit \<Rightarrow> unit outcome"
    by (cases "error_check prof a b") (use error_check_ok [of prof a b] in auto)
  moreover have "(\<forall>p<2. Q p) \<longleftrightarrow> Q 0 \<and> Q (1::nat)" for Q by (auto simp: less_2_cases_iff)
  ultimately show ?thesis by (auto simp: bidir_finalize_def Let_def error_check_ok faultless_def)
qed

text \<open>
  Property C35. A wire that loses, reorders and changes nothing passes the test: whatever the calls of the
  two ports and their order, no error is ever counted, every packet transmitted has been received or is on
  the wire, the next call of either port returns, and the verdict is positive exactly when both ports have
  transmitted all their packets and nothing is on the wire.
\<close>

theorem lossless_traffic_passes:
  assumes "array_deque dq dq_ok queued" and "rng_laws rng" and "num + 2 \<le> 2 ^ 64"
    and "(lossless prof dq dq_ok queued rng hash be)\<^sup>*\<^sup>* (bidir_new t0 t1 t2 d num gap bsize, \<lambda>_. []) (self, w)"
  shows "(\<forall>p<2. faultless (bh_ports self ! p) \<and> transmitted (bh_ports self ! p) \<le> num
         \<and> transmitted (bh_ports self ! p) = received (bh_ports self ! ((p + 1) mod 2)) + length (w p))
     \<and> (bidir_finalize prof self = Ret () \<longleftrightarrow>
         (\<forall>p<2. transmitted (bh_ports self ! p) = num \<and> w p = []))
     \<and> (\<forall>p<2. \<forall>now bs q m g. (\<forall>b \<in> set (items bs). roomy b) \<and> apart (items bs) \<and> dq_ok q \<longrightarrow>
         (\<exists>r. bidir_transmit prof dq rng hash be now p bs q m g self = Ret r))
     \<and> (\<forall>p<2. \<forall>bs q m rest. (\<forall>b \<in> set (queued q). readable b) \<and> dq_ok q
           \<and> w ((p + 1) mod 2) = map (contents m) (queued q) @ rest \<longrightarrow>
         (\<exists>r. bidir_receive prof dq hash be p bs q m self = Ret r))"
proof -
  note tr = traffic.intro [OF packet_queue.intro [OF assms(1)] assms(2)]
  obtain sent where num: "total_packets self = num" and bal: "balanced hash be sent (self, w)"
    using traffic.lossless_balanced [OF tr assms(4,3)] by blast
  then have tot: "total_packets self + 2 \<le> 2 ^ 64" using assms(3) by simp
  have books: "faultless (bh_ports self ! p) \<and> transmitted (bh_ports self ! p) \<le> num
         \<and> transmitted (bh_ports self ! p) = received (bh_ports self ! ((p + 1) mod 2)) + length (w p)" if "p < 2" for p
    using bal num unfolding balanced_at [OF that refl] by (auto simp: port_books_def has_sent_def)
  have other: "(p + 1) mod 2 < 2" "((p + 1) mod 2 + 1) mod 2 = p" if "p < 2" for p :: nat
    using two_ports [OF that] by auto
  have verdict: "bidir_finalize prof self = Ret () \<longleftrightarrow> (\<forall>p<2. transmitted (bh_ports self ! p) = num \<and> w p = [])"
    unfolding bidir_finalize_ok num using books other by (metis add_cancel_right_right length_0_conv)
  have tx: "\<exists>r. bidir_transmit prof dq rng hash be now p bs q m g self = Ret r"
    if "p < 2" "(\<forall>b \<in> set (items bs). roomy b) \<and> apart (items bs) \<and> dq_ok q" for p now bs q m g
    using traffic.departs_returns [OF tr bal tot that(1), of bs q prof now m g] that(2) by blast
  have rx: "\<exists>r. bidir_receive prof dq hash be p bs q m self = Ret r"
    if "p < 2" "(\<forall>b \<in> set (queued q). readable b) \<and> dq_ok q
           \<and> w ((p + 1) mod 2) = map (contents m) (queued q) @ rest" for p bs q m rest
    using traffic.arrives_returns [OF tr bal tot that(1), of q m rest prof bs] that(2) by blast
  show ?thesis
    using books tx rx by (intro conjI verdict allI impI) blast+
qed

text \<open>
  Property C36. One call of \<open>receive\<close> takes every pending packet in order and counts exactly: as received,
  all; as out of order, those that come after a packet with the same or a larger number; as bad, those whose
  number the other port has sent with another hash; as duplicated, those whose number is marked as processed.
\<close>

theorem receive_counts:
  assumes "array_deque dq dq_ok queued" and "dq_ok pending" and "\<forall>b \<in> set (queued pending). readable b"
    and "n = length (queued pending)" and "port = bh_ports self ! pos"
    and "sent = hashes (bh_ports self ! ((pos + 1) mod 2))"
    and "out_of_order port + n < 2 ^ 64" and "bad_hash port + n < 2 ^ 64"
    and "duplicated port + n < 2 ^ 64" and "received port + n < 2 ^ 64"
  shows "\<exists>l bs' q'. bidir_receive prof dq hash be pos bs pending m self =
       Ret (n, self\<lparr>bh_ports := (bh_ports self)[pos := port\<lparr>
         last_received_seq := l,
         out_of_order := out_of_order port + late (last_received_seq port) (map (number be m) (queued pending)),
         bad_hash := bad_hash port + length (filter (\<lambda>b. altered hash sent (parcel be m b)) (queued pending)),
         duplicated := duplicated port + length (filter (\<lambda>b. repeated sent (parcel be m b)) (queued pending)),
         received := received port + n\<rparr>]\<rparr>, bs', q')
     \<and> items bs' = items bs @ queued pending \<and> dq_ok q' \<and> queued q' = []
     \<and> l = fold max (map (number be m) (queued pending)) (last_received_seq port)"
  using packet_queue.receive_tally [OF packet_queue.intro [OF assms(1)] assms(2-5) assms(7-10), of prof hash be bs m]
  by (simp add: tally_def filter_map comp_def assms(6))

section \<open>Duplicates\<close>

text \<open>Any call of the test, with any arguments.\<close>

inductive test_call :: "profile \<Rightarrow> ('u buf_mmap, 'q) deque_api \<Rightarrow> 'g rng_api \<Rightarrow> (u8 list \<Rightarrow> u64) \<Rightarrow> bool
    \<Rightarrow> bidir_hash \<Rightarrow> bidir_hash \<Rightarrow> bool"
  for prof dq rng hash be where
  transmits: "test_call prof dq rng hash be self self'"
    if "p < 2" "bidir_transmit prof dq rng hash be now p bs q m g self = Ret (n, self', bs', q', m', g')"
| receives: "test_call prof dq rng hash be self self'"
    if "p < 2" "bidir_receive prof dq hash be p bs q m self = Ret (n, self', bs', q')"
| asks: "test_call prof dq rng hash be self (snd (bidir_done now self))"

definition unmarked :: "port_state \<Rightarrow> bool" where
  "unmarked port \<longleftrightarrow> duplicated port = 0 \<and> (\<forall>n v. hashes port n = Some v \<longrightarrow> \<not> ps_processed v)"

lemma transmit_one_unmarked:
  assumes "transmit_one prof dq rng hash be st = Ret st'" and "unmarked (fst st)"
  shows "unmarked (fst st')"
  using assms
  by (cases st) (auto simp: transmit_one_def unmarked_def bnd_Ret_iff Let_def case_prod_unfold
      split: option.split_asm if_split_asm)

lemma transmit_loop_unmarked:
  "transmit_loop prof dq rng hash be k st = Ret st' \<Longrightarrow> unmarked (fst st) \<Longrightarrow> unmarked (fst st')"
  by (induction k arbitrary: st) (auto simp: bnd_Ret_iff dest: transmit_one_unmarked)

lemma receive_one_unmarked:
  assumes "receive_one prof dq hash be m sent st = Ret st'" and "unmarked (fst st)"
    and "\<forall>n v. sent n = Some v \<longrightarrow> \<not> ps_processed v"
  shows "unmarked (fst st')"
proof -
  obtain port bs q where st: "st = (port, bs, q)" by (cases st)
  obtain b q' where pop: "dq_pop_front dq q = (Some b, q')"
    using assms(1) by (cases "dq_pop_front dq q"; cases "fst (dq_pop_front dq q)") (auto simp: receive_one_def st)
  obtain bytes p1 p2 where num: "(if from_ne_bytes be bytes \<le> last_received_seq port
              then bnd (usize_add prof (out_of_order port) 1) (\<lambda>n. Ret (port\<lparr>out_of_order := n\<rparr>))
              else Ret (port\<lparr>last_received_seq := from_ne_bytes be bytes\<rparr>)) = Ret p1"
    and val: "(case sent (from_ne_bytes be bytes) of
                None \<Rightarrow> Ret p1
              | Some val \<Rightarrow>
                  bnd (slice_range m (bm_data b) 0 (unat (bm_get_len b))) (\<lambda>content.
                  bnd (if hash content \<noteq> ps_hash val
                       then bnd (usize_add prof (bad_hash p1) 1) (\<lambda>n. Ret (p1\<lparr>bad_hash := n\<rparr>))
                       else Ret p1) (\<lambda>port.
                  if ps_processed val
                  then bnd (usize_add prof (duplicated port) 1) (\<lambda>n. Ret (port\<lparr>duplicated := n\<rparr>))
                  else Ret port))) = Ret p2" and st': "fst st' = p2"
    using assms(1) by (auto simp: receive_one_def st pop bnd_Ret_iff Let_def simp del: option.case_eq_if)
  have "unmarked p1" using num assms(2) by (auto simp: unmarked_def bnd_Ret_iff st split: if_split_asm)
  then show ?thesis
    using val assms(3) by (auto simp: st' unmarked_def bnd_Ret_iff split: option.split_asm if_split_asm)
qed

lemma receive_loop_unmarked:
  assumes "receive_loop prof dq hash be m sent k st = Ret st'" and "unmarked (fst st)"
    and "\<forall>n v. sent n = Some v \<longrightarrow> \<not> ps_processed v"
  shows "unmarked (fst st')"
  using assms(1,2)
  by (induction k arbitrary: st) (auto simp: bnd_Ret_iff dest: receive_one_unmarked [OF _ _ assms(3)])

lemma test_call_unmarked:
  assumes "test_call prof dq rng hash be self self'" and "length (bh_ports self) = 2"
    and "\<forall>p<2. unmarked (bh_ports self ! p)"
  shows "length (bh_ports self') = 2 \<and> (\<forall>p<2. unmarked (bh_ports self' ! p))"
  using assms
proof cases
  case (transmits p now bs q m g n bs' q' m' g')
  have um: "unmarked (bh_ports self ! p)" using transmits(1) assms(3) by blast
  show ?thesis
    using transmits assms(2,3)
    by (auto simp: bidir_transmit_def Let_def bnd_Ret_iff nth_list_update split: if_splits prod.splits
        dest!: transmit_loop_unmarked) (auto simp: unmarked_def)
next
  case (receives p bs q m n bs' q')
  have um: "unmarked (bh_ports self ! p)" "\<forall>n v. hashes (bh_ports self ! ((p + 1) mod 2)) n = Some v \<longrightarrow> \<not> ps_processed v"
    using assms(3) [unfolded unmarked_def] two_ports [OF receives(1)] by (auto simp: unmarked_def less_2_cases_iff)
  obtain port r where run: "receive_loop prof dq hash be m (hashes (bh_ports self ! ((p + 1) mod 2))) (dq_len dq q)
      (bh_ports self ! p, bs, q) = Ret (port, bs', q')"
    and self': "self' = self\<lparr>bh_ports := (bh_ports self)[p := port\<lparr>received := r\<rparr>]\<rparr>"
    using receives(2) by (auto simp: bidir_receive_def Let_def bnd_Ret_iff)
  have "unmarked port" using receive_loop_unmarked [OF run _ um(2)] um(1) by simp
  then show ?thesis
    using assms(2,3) receives(1) by (auto simp: self' nth_list_update unmarked_def)
qed (simp add: bidir_done_def)

text \<open>
  Property C37. No call of the test marks a packet as processed, so none is ever counted as duplicated, also
  when the same packet is received twice.
\<close>

theorem duplicates_uncounted:
  assumes "(test_call prof dq rng hash be)\<^sup>*\<^sup>* (bidir_new t0 t1 t2 d num gap bsize) self" and "p < 2"
  shows "duplicated (bh_ports self ! p) = 0"
proof -
  have "length (bh_ports self) = 2 \<and> (\<forall>p<2. unmarked (bh_ports self ! p))"
    using assms(1)
  proof (induction rule: rtranclp_induct)
    case base
    then show ?case by (auto simp: bidir_new_def new_port_def unmarked_def less_2_cases_iff)
  next
    case (step self self')
    then show ?case using test_call_unmarked by blast
  qed
  then show ?thesis using assms(2) by (simp add: unmarked_def)
qed

section \<open>One packet\<close>

abbreviation unit_deque :: "(unit buf_mmap, unit buf_mmap list) deque_api" where
  "unit_deque \<equiv> list_deque"

interpretation listtraffic: traffic unit_deque
  "\<lambda>q. length q \<le> PENDING_LEN" "\<lambda>q. q" least_rng
  by (intro traffic.intro packet_queue.intro listq.array_deque_axioms leastrng.rng_laws_axioms)

definition ex_test_buf :: "unit buf_mmap" where
  "ex_test_buf = \<lparr>bm_addr = 256, bm_len = 0, bm_data = \<lparr>sl_ptr = 65792, sl_len = 1792\<rparr>, bm_user = ()\<rparr>"

abbreviation "ex_test \<equiv> bidir_new 0 0 0 9 1 1 1"

lemma ex_transmit:
  "\<exists>n self bs q m g b. bidir_transmit Debug unit_deque least_rng (\<lambda>_. 0) False 2 0
       \<lparr>items = [ex_test_buf], capacity = 1\<rparr> [] (\<lambda>_. 0) () ex_test = Ret (n, self, bs, q, m, g) \<and> q = [b]
     \<and> readable b
     \<and> balanced (\<lambda>_. 0) False ((\<lambda>_. [])(0 := [contents m b])) (self, (\<lambda>_. [])(0 := [contents m b]))"
proof -
  have c: "total_packets ex_test + 2 \<le> 2 ^ 64" "(0 :: nat) < 2" "length ([] :: unit buf_mmap list) \<le> PENDING_LEN"
    "\<forall>b \<in> set (items \<lparr>items = [ex_test_buf], capacity = 1\<rparr>). roomy b" "apart (items \<lparr>items = [ex_test_buf], capacity = 1\<rparr>)"
    by (simp_all add: bidir_new_def roomy_def slice_mapped_def ex_test_buf_def)
  have k: "burst_of ex_test 2 (bh_ports ex_test ! 0) (PENDING_LEN - length ([] :: unit buf_mmap list)) 1 = 1"
    by (simp add: burst_of_def bidir_new_def new_port_def PENDING_LEN_def)
  obtain n self bs q m g new where t: "bidir_transmit Debug unit_deque least_rng (\<lambda>_. 0) False 2 0
       \<lparr>items = [ex_test_buf], capacity = 1\<rparr> [] (\<lambda>_. 0) () ex_test = Ret (n, self, bs, q, m, g)"
    "q = [] @ new" "\<forall>b \<in> set new. readable b" "length new = 1"
    "balanced (\<lambda>_. 0) False ((\<lambda>_. [])(0 := [] @ map (contents m) new)) (self, (\<lambda>_. [])(0 := [] @ map (contents m) new))"
    using listtraffic.departs_returns [where hash = "\<lambda>_. 0" and be = False and prof = Debug and now = 2
        and m = "\<lambda>_. 0" and g = "()", OF balanced_new c(1,2,4,5,3)] k
    by auto
  then obtain b where "new = [b]" by (cases new) auto
  with t show ?thesis by (intro exI [of _ n] exI [of _ self] exI [of _ bs] exI [of _ q] exI [of _ m] exI [of _ g] exI [of _ b]) simp
qed

theorem lossless_traffic_passes_witness:
  "\<exists>self w. (lossless Debug unit_deque (\<lambda>q. length q \<le> PENDING_LEN) (\<lambda>q. q) least_rng (\<lambda>_. 0) False)\<^sup>*\<^sup>*
       (ex_test, \<lambda>_. []) (self, w)
     \<and> length (w 0) = 1 \<and> transmitted (bh_ports self ! 0) = received (bh_ports self ! 1) + 1
     \<and> bidir_finalize Debug self \<noteq> Ret ()"
proof -
  obtain n self bs q m g b where t: "bidir_transmit Debug unit_deque least_rng (\<lambda>_. 0) False 2 0
       \<lparr>items = [ex_test_buf], capacity = 1\<rparr> [] (\<lambda>_. 0) () ex_test = Ret (n, self, bs, q, m, g)" "q = [b]"
    using ex_transmit by blast
  let ?w = "(\<lambda>_. [])(0 := (\<lambda>_. []) 0 @ map (contents m) [b])"
  have "lossless Debug unit_deque (\<lambda>q. length q \<le> PENDING_LEN) (\<lambda>q. q) least_rng (\<lambda>_. 0) False
      (ex_test, \<lambda>_. []) (self, ?w)"
    by (rule departs [where w = "\<lambda>_. []" and p = 0, OF _ _ _ _ t(1)]) (simp_all add: t(2) roomy_def slice_mapped_def ex_test_buf_def)
  note run = r_into_rtranclp [of "lossless Debug unit_deque (\<lambda>q. length q \<le> PENDING_LEN) (\<lambda>q. q) least_rng (\<lambda>_. 0) False", OF this]
  have "(1 :: usize) + 2 \<le> 2 ^ 64" by simp
  from lossless_traffic_passes [OF listq.array_deque_axioms leastrng.rng_laws_axioms this run] run
  show ?thesis by (intro exI [of _ self] exI [of _ ?w]) auto
qed

theorem receive_counts_witness:
  "\<exists>self bs' q'. bidir_receive Debug unit_deque (\<lambda>_. 0) False 1 \<lparr>items = [], capacity = 0\<rparr>
       [ex_test_buf\<lparr>bm_len := 64\<rparr>, ex_test_buf\<lparr>bm_len := 64\<rparr>] (\<lambda>a. if a = 65792 then 2 else 0)
       (ex_test\<lparr>bh_ports := [(new_port 0)\<lparr>hashes := [2 \<mapsto> \<lparr>ps_processed = False, ps_hash = 7\<rparr>]\<rparr>, new_port 0]\<rparr>)
     = Ret (2, self, bs', q')
     \<and> received (bh_ports self ! 1) = 2 \<and> out_of_order (bh_ports self ! 1) = 1
     \<and> bad_hash (bh_ports self ! 1) = 2 \<and> duplicated (bh_ports self ! 1) = 0"
proof -
  let ?b = "ex_test_buf\<lparr>bm_len := 64\<rparr>" and ?m = "\<lambda>a :: u64. if a = 65792 then 2 else 0 :: u8"
  let ?self = "ex_test\<lparr>bh_ports := [(new_port 0)\<lparr>hashes := [2 \<mapsto> \<lparr>ps_processed = False, ps_hash = 7\<rparr>]\<rparr>, new_port 0]\<rparr>"
  have "take 8 (bm_get_data ?m ?b) = map (\<lambda>i. ?m (65792 + of_nat i)) [0..<8]"
    by (simp add: bm_get_data_def slice_read_def ex_test_buf_def take_map)
  also have "\<dots> = [2, 0, 0, 0, 0, 0, 0, 0]" by (simp add: upt_conv_Cons)
  finally have n: "number False ?m ?b = 2" by (simp add: number_def from_ne_bytes_def)
  have l: "late 0 [2, 2] = 1" by (simp add: late_Cons)
  have c: "\<forall>b \<in> set [?b, ?b]. readable b" "length [?b, ?b] \<le> PENDING_LEN"
    by (simp_all add: readable_def ex_test_buf_def PENDING_LEN_def)
  from receive_counts [where self = ?self and pos = 1 and prof = Debug and hash = "\<lambda>_. 0" and be = False
      and m = ?m and bs = "\<lparr>items = [], capacity = 0\<rparr>", OF listq.array_deque_axioms c(2,1) refl refl refl]
  show ?thesis by (auto simp: n l new_port_def bidir_new_def altered_def repeated_def parcel_def)
qed

theorem duplicates_uncounted_witness:
  "\<exists>self. (test_call Debug unit_deque least_rng (\<lambda>_. 0) False)\<^sup>*\<^sup>* ex_test self
     \<and> received (bh_ports self ! 1) = 2 \<and> out_of_order (bh_ports self ! 1) = 1 \<and> duplicated (bh_ports self ! 1) = 0"
proof -
  let ?call = "test_call Debug unit_deque least_rng (\<lambda>_. 0) False"
  obtain n self bs q m g b where t: "bidir_transmit Debug unit_deque least_rng (\<lambda>_. 0) False 2 0
       \<lparr>items = [ex_test_buf], capacity = 1\<rparr> [] (\<lambda>_. 0) () ex_test = Ret (n, self, bs, q, m, g)"
    and b: "readable (b :: unit buf_mmap)" and bal: "balanced (\<lambda>_. 0) False ((\<lambda>_. [])(0 := [contents m b])) (self, (\<lambda>_. [])(0 := [contents m b]))"
    using ex_transmit by blast
  let ?p = "bh_ports self ! 1"
  have p: "faultless ?p" "unat (last_received_seq ?p) \<le> 1" "received ?p = 0" "length (bh_ports self) = 2"
    "genuine (\<lambda>_. 0) False (hashes (bh_ports self ! 0)) 2 (contents m b)"
    using bal by (auto simp: balanced_def port_books_def has_sent_def upt_conv_Cons drop_Cons numeral_2_eq_2 split: nat.splits)
  then have num: "number False m b = 2"
    by (auto simp: genuine_def number_def contents_def min_def split: if_splits)
  have "last_received_seq ?p < 2" using p(2) by (simp add: word_less_nat_alt)
  then have l: "late (last_received_seq ?p) [2, 2] = 1" by (simp add: late_Cons max.absorb2 not_le)
  obtain bs' q' where r: "bidir_receive Debug unit_deque (\<lambda>_. 0) False 1 bs [b, b] m self =
       Ret (2, self\<lparr>bh_ports := (bh_ports self)[1 :=
         (tally (\<lambda>_. 0) (hashes (bh_ports self ! 0)) (map (parcel False m) [b, b]) ?p)\<lparr>received := 2\<rparr>]\<rparr>, bs', q')"
    using listtraffic.receive_tally [where pending = "[b, b]" and self = self and pos = 1 and prof = Debug
        and hash = "\<lambda>_. 0" and be = False and m = m and bs = bs, OF _ _ refl refl] b p(1,3)
    by (auto simp: faultless_def PENDING_LEN_def simp flip: numeral_2_eq_2)
  let ?self = "self\<lparr>bh_ports := (bh_ports self)[1 :=
         (tally (\<lambda>_. 0) (hashes (bh_ports self ! 0)) (map (parcel False m) [b, b]) ?p)\<lparr>received := 2\<rparr>]\<rparr>"
  have "?call\<^sup>*\<^sup>* ex_test ?self"
    by (rule rtranclp.rtrancl_into_rtrancl [OF r_into_rtranclp]) (rule transmits [OF _ t] receives [OF _ r], simp)+
  moreover have "out_of_order (bh_ports ?self ! 1) = 1" "received (bh_ports ?self ! 1) = 2"
    using p(1,4) num l by (simp_all add: tally_def faultless_def)
  ultimately show ?thesis using duplicates_uncounted [of Debug _ least_rng "\<lambda>_. 0" False] by fastforce
qed

end
