(* ===== verification/Spec2Isabelle.thy ===== *)
theory Spec2Isabelle
  imports Frame_Ownership Packet_Order Dump Multicore Reports Unit_Tests Traffic_Test
begin

text \<open>
  A verification library for \<^bold>\<open>afxdp-rs\<close>, a Rust crate over the AF_XDP sockets of Linux.

  \<^bold>\<open>The program.\<close> A program maps one memory area (\<open>src/mmap_area.rs\<close>), cut into frames of equal length;
  \<open>MmapArea::new\<close> returns one buffer (\<open>BufMmap\<close>) per frame, an exclusive slice of the area. Umems
  (\<open>src/umem.rs\<close>) register the area with the kernel, sockets (\<open>src/socket.rs\<close>) bind it to a queue
  of a network link. Four rings shared with the kernel pass frames back and forth: the fill ring
  gives empty frames to the kernel (\<open>fill\<close>), the receive ring returns them with packets
  (\<open>try_recv\<close>), the transmit ring gives packets to send (\<open>try_send\<close>) and the completion ring returns
  the frames that were sent (\<open>service\<close>). Giving a frame away consumes its buffer and taking it back
  makes a new buffer out of an address, in \<open>unsafe\<close> code. That the slices the program holds are
  disjoint is therefore the correctness of this code, and the main subject here. Spare
  buffers live in vectors and in a pool (\<open>src/buf_pool_vec.rs\<close>), received packets in a bounded queue.

  \<^bold>\<open>Theories.\<close> In the order of their imports:
  \<^item> \<open>Rust_Prelude\<close>: outcomes (a value or a panic), checked arithmetic by build profile, \<open>Vec\<close>; the
    collections and lemmas the other theories share.
  \<^item> \<open>Util\<close> (\<open>src/util.rs\<close>) and \<open>Buffers\<close> (\<open>src/buf_mmap.rs\<close>, \<open>src/buf_vec.rs\<close>, the byte memory
    behind the slices); \<open>Buf_Pool\<close> (\<open>src/buf_pool_vec.rs\<close>, \<open>benches/buf_pool.rs\<close>).
  \<^item> \<open>Externals\<close>: what is called but not in the repository, as records of operations (libbpf, libc,
    the crate arraydeque) and as locales with the laws the crate relies on. The locales of the rings
    speak of the kernel through \<open>held\<close> (the frames the kernel owns), \<open>window\<close> (the entries a peek or
    a reserve opened) and \<open>staged\<close> (the entries written but not submitted).
  \<^item> \<open>Reference_Kernel\<close> and \<open>Array_Deque\<close>: executable providers on which all those locales are
    interpreted. The witnesses run on them.
  \<^item> \<open>Mmap_Area\<close>, \<open>Umem\<close>, \<open>Socket\<close>: one definition per method of the sources of that name, loops
    included (\<open>service_loop\<close>, \<open>fill_loop\<close>, \<open>recv_loop\<close>, \<open>send_loop\<close>), on every branch.
  \<^item> \<open>Ownership\<close>: a step relation over all calls a program can make on the area (any number of
    vectors, queues, pools, umems and sockets), its invariant \<open>own_inv\<close> and reachability.
    \<open>Frame_Ownership\<close>: the abstract protocol between program and kernel that the steps refine.
  \<^item> \<open>Forwarding\<close>: the loop bodies of \<open>examples/l2fwd-1link.rs\<close>, \<open>l2fwd-2link.rs\<close> and \<open>rxdrop.rs\<close>,
    composed of the phases they share, with \<open>swap_macs\<close> and \<open>forward\<close>.
  \<^item> \<open>Setup\<close>: the \<open>main\<close> functions of the two forwarders up to the loop, and the loop run any number
    of times. \<open>Workers\<close>: the worker and controller threads of \<open>l2fwd-2link-multicore.rs\<close> and the
    workers of \<open>rxdrop.rs\<close>, with the message rings between them. \<open>Threads\<close>: all threads of such a
    program as a state machine driven by a schedule, and its invariant. \<open>Multicore\<close>: the \<open>main\<close> of both
    programs, from the configuration to the threads, and the clean-up. \<open>Reports\<close>: the clock of
    \<open>l2fwd-1link.rs\<close> and the end of its loop. \<open>Dump\<close>: the program \<open>dump.rs\<close>, which has a receiving half only.
    \<open>Unit_Tests\<close>: the tests in the modules of the crate, as programs, for every kernel that satisfies the
    locale \<open>test_kernel\<close>; \<open>Byte_Order\<close>: integers as bytes, for the tests.
  \<^item> \<open>Bidir_Hash\<close>: the traffic test \<open>tests/bidir_hash.rs\<close> (one definition per method; the loops of \<open>transmit\<close>
    and \<open>receive\<close> with their bodies), and what one burst and one call of \<open>receive\<close> do. \<open>Traffic_Test\<close>: its
    two ports connected by a wire, and the verdict. The crate rand is the locale \<open>rng_laws\<close>.
  \<^item> \<open>Packet_Order\<close>: the two-link forwarder followed packet by packet, with a recorder (\<open>Wire_Tap\<close>) between
    the crate and libbpf that notes the descriptors released from rx rings and submitted to tx rings.
    The recorder satisfies the laws of the interface whenever libbpf does and changes no state of the
    program. \<open>Live_Kernel\<close> is a reference kernel that receives and completes frames; whole programs
    are run on it by simplification.

  \<^bold>\<open>Results.\<close>
  \<^item> Safety: from \<open>MmapArea::new\<close> on, after any sequence of calls, no two buffers overlap, none
    overlaps a frame the kernel holds, no frame is lost (\<open>reachable_bufs_disjoint\<close>,
    \<open>steps_conserve_frames\<close>, \<open>app_refines_ownership\<close>, call by call), and for whole programs \<open>l1_program_correct\<close>,
    \<open>l2_program_correct\<close>, \<open>dump_program_correct\<close>, and with threads under every schedule \<open>multicore_correct\<close>, \<open>rxdrop_correct\<close>.
    Its limit is \<open>foreign_fill_aliases\<close>.
  \<^item> Functional correctness of the four ring operations on every branch (\<open>cq_service_correct\<close>,
    \<open>fq_fill_correct\<close>, \<open>try_recv_correct\<close>, \<open>try_send_correct\<close>), of construction and release, of
    \<open>swap_macs\<close>, of the pool and of the printed rates; packets leave in the order, at the address and
    with the length they arrived (\<open>l2_forwards_in_order\<close>).
  \<^item> Errors and bounds: which inputs each constructor rejects and before which effect; where an index
    overflows (\<open>umem_index_overflow\<close>, \<open>socket_index_overflow\<close>) or a frame is too short. Termination: \<open>calls_return\<close>, \<open>l1_program_returns\<close>,
    \<open>l1_program_stops\<close>.
  \<^item> The traffic test: a sound wire passes it (\<open>lossless_traffic_passes\<close>), what it counts
    (\<open>receive_counts\<close>) and what it cannot notice (\<open>duplicates_uncounted\<close>).
  \<^item> Threads: their turns return (\<open>workers_return\<close>), they stop (\<open>shutdown\<close>), and the links are
    detached afterwards (\<open>multicore_cleanup\<close>).

  \<^bold>\<open>Modelling decisions.\<close> \<open>usize\<close> is \<open>nat\<close> below \<open>2 ^ 64\<close> with the overflow behaviour of \<open>+\<close>, \<open>-\<close> and
  \<open>*\<close> written out per build profile (\<open>Debug\<close> panics, \<open>Release\<close> wraps); the 16-, 32- and 64-bit integers
  are words. A loop over a ring recurses on the number of entries, so no fuel is needed; the loops
  of the examples do not end and are stated for every number of iterations. Sizes are bounded by
  \<open>num * len < 2 ^ 64\<close> (larger areas are rejected before they are mapped), counters by the range of
  \<open>usize\<close> (each iteration adds at most \<open>PENDING_LEN\<close>), and 268 is the 256 reserved bytes and the
  two MAC addresses. \<open>idx_ok\<close> is the absence of an index overflow in a \<open>Debug\<close> build; it is vacuous
  in a release build.

  \<^bold>\<open>Not modelled.\<close> Failing allocation; unwinding and drops after a panic; interleavings of threads finer
  than a phase of a worker, which makes at most two calls of the crate (each thread has its own ends of
  the rings, the pool is under a lock); what other threads do after a thread panicked; printed text
  apart from what \<open>dump\<close> and the rates show; reading of options and YAML files, \<open>setrlimit\<close> (a Boolean),
  core affinity; the drops at the end of a worker thread; the runner \<open>tests/common.rs\<close>, two threads over real
  links that make the calls modelled with the forwarders.
\<close>

end
